(* ===== verification/Prelude.thy ===== *)
theory Prelude
  imports Main "HOL-Library.Word" "HOL-Library.Monad_Syntax"
begin

text \<open>
  Shared vocabulary of the development: the machine types of the C sources, the memory image of
  integers in network byte order, the C library routines the program calls on plain memory, and
  the generic lemmas on lists, options and words that the component theories use.

  A function of the program that can end the process is modelled with an \<open>option\<close> result:
  \<open>None\<close> means that \<^verbatim>\<open>exit(1)\<close> was called, \<open>Some r\<close> that the function returned \<open>r\<close>.
\<close>

unbundle bit_operations_syntax

type_synonym byte = "8 word"
type_synonym u16 = "16 word"
type_synonym u32 = "32 word"
type_synonym u64 = "64 word"

text \<open>An IPv6 address is its 128 bits in network order, so that \<open>s6_addr[0]\<close> is the top byte.\<close>

type_synonym in6_addr = "128 word"

named_theorems bytes_simps \<open>memory images of integers and their inverses\<close>
named_theorems contents_simps \<open>what an operation does to the bytes of a buffer\<close>
named_theorems frame_simps \<open>fields of the state that an operation leaves alone\<close>

subsection \<open>Memory images in network byte order\<close>

text \<open>
  \<open>be n w\<close> is the memory image of \<open>w\<close> in \<open>n\<close> bytes, most significant byte first. On every host
  \<^verbatim>\<open>htonl(x)\<close> stores the bytes \<open>be 4 x\<close> and \<^verbatim>\<open>htons(x)\<close> the bytes \<open>be 2 x\<close>.
\<close>

definition be :: "nat \<Rightarrow> 'a::len word \<Rightarrow> byte list" where
  "be n w = map (\<lambda>i. ucast (drop_bit (8 * (n - Suc i)) w)) [0..<n]"

definition from_be :: "byte list \<Rightarrow> 'a::len word" where
  "from_be bs = foldl (\<lambda>acc b. push_bit 8 acc OR ucast b) 0 bs"

abbreviation htons :: "u16 \<Rightarrow> byte list" where
  "htons x \<equiv> be 2 x"

abbreviation htonl :: "u32 \<Rightarrow> byte list" where
  "htonl x \<equiv> be 4 x"

abbreviation s6_addr :: "in6_addr \<Rightarrow> byte list" where
  "s6_addr a \<equiv> be 16 a"

lemma length_be [simp]: "length (be n w) = n"
  by (simp add: be_def)

lemma be_nth [simp]: "i < n \<Longrightarrow> be n w ! i = ucast (drop_bit (8 * (n - Suc i)) w)"
  by (simp add: be_def)

lemma be_eq_Nil [simp]: "be n w = [] \<longleftrightarrow> n = 0"
  using length_be [of n w] by (metis length_0_conv)

lemma from_be_Nil [simp]: "from_be [] = 0"
  by (simp add: from_be_def)

lemma from_be_snoc: "from_be (bs @ [b]) = push_bit 8 (from_be bs) OR ucast b"
  by (simp add: from_be_def)

text \<open>Bit \<open>k\<close> of the value is bit \<open>k mod 8\<close> of the byte \<open>k div 8\<close> places from the end.\<close>

lemma bit_from_be:
  fixes w :: "'a::len word"
  assumes "w = from_be bs"
  shows "bit w k \<longleftrightarrow>
    k < LENGTH('a) \<and> k div 8 < length bs \<and> bit (bs ! (length bs - Suc (k div 8))) (k mod 8)"
  unfolding assms
proof (induction bs arbitrary: k rule: rev_induct)
  case Nil
  then show ?case by simp
next
  case (snoc b bs)
  show ?case
  proof (cases "k < 8")
    case True
    then show ?thesis
      by (auto simp: from_be_snoc bit_or_iff bit_push_bit_iff bit_ucast_iff nth_append
          dest: bit_imp_le_length)
  next
    case False
    then have k: "k div 8 = Suc ((k - 8) div 8)" "k mod 8 = (k - 8) mod 8"
      by (simp_all add: le_div_geq le_mod_geq)
    have "\<not> bit b k"
      using False by (auto dest: bit_imp_le_length)
    with False snoc.IH [of "k - 8"] show ?thesis
      by (auto simp: from_be_snoc bit_or_iff bit_push_bit_iff bit_ucast_iff nth_append k)
  qed
qed

lemma bit_be_nth:
  "i < n \<Longrightarrow> bit (be n w ! i) k \<longleftrightarrow> k < 8 \<and> bit w (8 * (n - Suc i) + k)"
  by (auto simp: bit_ucast_iff bit_drop_bit_eq)

text \<open>The two images are inverse to each other when the width is exactly the number of bytes.\<close>

lemma from_be_be_ucast:
  fixes w :: "'a::len word"
  assumes "LENGTH('b) \<le> 8 * n"
  shows "from_be (be n w) = (ucast w :: 'b::len word)"
proof (rule bit_word_eqI)
  fix k
  assume k: "k < LENGTH('b)"
  with assms have "k div 8 < n" by linarith
  then show "bit (from_be (be n w) :: 'b word) k \<longleftrightarrow> bit (ucast w :: 'b word) k"
    using k by (simp add: bit_from_be [OF refl] bit_be_nth bit_ucast_iff del: be_nth)
qed

lemma from_be_be [bytes_simps]: "LENGTH('a) \<le> 8 * n \<Longrightarrow> from_be (be n w) = (w :: 'a::len word)"
  by (simp add: from_be_be_ucast)

lemma be_from_be [bytes_simps]:
  fixes bs :: "byte list"
  assumes "length bs = n" and "LENGTH('a) = 8 * n"
  shows "be n (from_be bs :: 'a::len word) = bs"
proof (rule nth_equalityI)
  show "length (be n (from_be bs :: 'a word)) = length bs"
    by (simp add: assms)
next
  fix i
  assume "i < length (be n (from_be bs :: 'a word))"
  then have i: "i < n" by simp
  show "be n (from_be bs :: 'a word) ! i = bs ! i"
  proof (rule bit_word_eqI)
    fix k
    assume k: "k < LENGTH(8)"
    then have "(8 * (n - Suc i) + k) div 8 = n - Suc i" "(8 * (n - Suc i) + k) mod 8 = k"
      by simp_all
    moreover have "8 * (n - Suc i) + k < LENGTH('a)"
      using i k assms(2) by simp
    ultimately show "bit (be n (from_be bs :: 'a word) ! i) k = bit (bs ! i) k"
      using i k by (simp add: bit_be_nth bit_from_be [OF refl] assms(1) del: be_nth)
  qed
qed

lemma be_inject: "LENGTH('a) \<le> 8 * n \<Longrightarrow> be n (a :: 'a::len word) = be n b \<longleftrightarrow> a = b"
  by (metis from_be_be)

text \<open>Counting positions from the other end.\<close>

lemma all_less_reflect:
  fixes n N :: nat
  assumes "n \<le> N"
  shows "(\<forall>i < n. P (N - Suc i)) \<longleftrightarrow> (\<forall>k < N. N - n \<le> k \<longrightarrow> P k)"
proof (intro iffI allI impI)
  fix k
  assume *: "\<forall>i < n. P (N - Suc i)" "k < N" "N - n \<le> k"
  then have "N - Suc k < n" and "N - Suc (N - Suc k) = k"
    using assms by simp_all
  with *(1) show "P k" by metis
qed (use assms in simp)

text \<open>A part of an image is the image of a part.\<close>

lemma take_be [bytes_simps]: "k \<le> n \<Longrightarrow> take k (be n w) = be k (drop_bit (8 * (n - k)) w)"
proof (rule nth_equalityI)
  fix i
  assume "k \<le> n" and "i < length (take k (be n w))"
  then have "8 * (n - Suc i) = 8 * (k - Suc i) + 8 * (n - k)" and "i < k" by simp_all
  with \<open>k \<le> n\<close> show "take k (be n w) ! i = be k (drop_bit (8 * (n - k)) w) ! i"
    by (simp only: nth_take be_nth drop_bit_drop_bit length_be order_less_le_trans)
qed simp

lemma drop_be [bytes_simps]: "drop k (be n w) = be (n - k) w"
  by (rule nth_equalityI) (auto simp: add.commute)

lemma drop_bit_word_eq_iff:
  fixes a b :: "'a::len word"
  shows "drop_bit n a = drop_bit n b \<longleftrightarrow> (\<forall>k. n \<le> k \<longrightarrow> k < LENGTH('a) \<longrightarrow> bit a k = bit b k)"
proof
  assume eq: "drop_bit n a = drop_bit n b"
  show "\<forall>k. n \<le> k \<longrightarrow> k < LENGTH('a) \<longrightarrow> bit a k = bit b k"
  proof (intro allI impI)
    fix k
    assume "n \<le> k"
    then show "bit a k = bit b k"
      using eq by (metis bit_drop_bit_eq comp_apply le_add_diff_inverse)
  qed
next
  assume eq: "\<forall>k. n \<le> k \<longrightarrow> k < LENGTH('a) \<longrightarrow> bit a k = bit b k"
  have "bit a (n + j) = bit b (n + j)" for j
    using eq by (cases "n + j < LENGTH('a)") (auto dest: bit_imp_le_length)
  then show "drop_bit n a = drop_bit n b"
    by (simp add: bit_eq_iff bit_drop_bit_eq)
qed

text \<open>Two images agree on their first \<open>k\<close> bytes iff the values agree on the bits above.\<close>

lemma take_be_eq_iff:
  fixes a b :: "'a::len word"
  assumes "k \<le> n" and "LENGTH('a) = 8 * n"
  shows "take k (be n a) = take k (be n b) \<longleftrightarrow> drop_bit (8 * (n - k)) a = drop_bit (8 * (n - k)) b"
proof
  assume eq: "take k (be n a) = take k (be n b)"
  show "drop_bit (8 * (n - k)) a = drop_bit (8 * (n - k)) b"
    unfolding drop_bit_word_eq_iff
  proof (intro allI impI)
    fix j
    assume j: "8 * (n - k) \<le> j" "j < LENGTH('a)"
    define i where "i = n - Suc (j div 8)"
    have "j div 8 < n" using j assms(2) by simp
    moreover have "n - k \<le> j div 8" using j by (simp add: less_eq_div_iff_mult_less_eq mult.commute)
    ultimately have i: "i < k" "i < n" "n - Suc i = j div 8"
      using assms(1) by (auto simp: i_def)
    have "take k (be n a) ! i = take k (be n b) ! i"
      using eq by simp
    then have "be n a ! i = be n b ! i"
      using i by (simp only: nth_take)
    then have "bit (be n a ! i) (j mod 8) = bit (be n b ! i) (j mod 8)"
      by simp
    then show "bit a j = bit b j"
      using i by (simp add: bit_be_nth del: be_nth)
  qed
next
  assume "drop_bit (8 * (n - k)) a = drop_bit (8 * (n - k)) b"
  then show "take k (be n a) = take k (be n b)"
    by (simp add: take_be assms(1))
qed

end
