(* ===== verification/Radvd_Types.thy ===== *)
theory Radvd_Types
  imports Complex_Main Prelude
begin

text \<open>
  The data of \<^verbatim>\<open>radvd.h\<close> and the constants of \<^verbatim>\<open>defaults.h\<close>.

  A struct is a record with the fields of the source in their order; a field whose name occurs in
  several structs carries the struct's name first. A linked list is a list, so the \<^verbatim>\<open>next\<close> fields
  are gone. An \<^verbatim>\<open>int\<close> that only holds a switch of the configuration is a \<open>bool\<close>; an unsigned field
  has its width; the two lifetimes that use -1 for "not configured" are \<open>int\<close>. A \<^verbatim>\<open>double\<close> is a
  rational number: the configuration only holds integers and short decimals, and the rounding of
  IEEE arithmetic is not modelled. A counted array is its list of elements (its counter is the
  length). A string field is the C string without its final zero.
\<close>

subsection \<open>C conversions\<close>

text \<open>The conversion of a \<^verbatim>\<open>double\<close> to an integer type drops the fraction.\<close>

definition c_trunc :: "rat \<Rightarrow> int" where
  "c_trunc x = (if 0 \<le> x then \<lfloor>x\<rfloor> else \<lceil>x\<rceil>)"

text \<open>Division of integers truncates towards zero.\<close>

definition c_div :: "int \<Rightarrow> int \<Rightarrow> int" where
  "c_div a b = sgn a * sgn b * (\<bar>a\<bar> div \<bar>b\<bar>)"

lemma c_trunc_of_int [simp]: "c_trunc (of_int n) = n"
  by (simp add: c_trunc_def)

lemma c_trunc_numeral [simp]: "c_trunc (numeral n) = numeral n" "c_trunc 0 = 0" "c_trunc 1 = 1"
  by (simp_all add: c_trunc_def)

lemma c_trunc_bounds: "0 \<le> x \<Longrightarrow> of_int (c_trunc x) \<le> x \<and> x < of_int (c_trunc x) + 1"
  using floor_correct [of x] by (simp add: c_trunc_def)

lemma c_div_nonneg: "0 \<le> a \<Longrightarrow> 0 < b \<Longrightarrow> c_div a b = a div b"
  by (cases "a = 0") (auto simp: c_div_def sgn_if)

subsection \<open>Constants of defaults.h\<close>

definition MSG_SIZE_RECV :: nat where [simp]: "MSG_SIZE_RECV = 64 * 1024 - 1"
definition RFC2460_MIN_MTU :: u32 where [simp]: "RFC2460_MIN_MTU = 1280"
definition DFLT_MaxRtrAdvInterval :: rat where [simp]: "DFLT_MaxRtrAdvInterval = 600"
definition DFLT_AdvCurHopLimit :: byte where [simp]: "DFLT_AdvCurHopLimit = 64"
definition DFLT_AdvValidLifetime :: u32 where [simp]: "DFLT_AdvValidLifetime = 86400"
definition DFLT_AdvPreferredLifetime :: u32 where [simp]: "DFLT_AdvPreferredLifetime = 14400"
definition DFLT_NAT64MaxValidLifetime :: int where [simp]: "DFLT_NAT64MaxValidLifetime = 65528"
definition MAX_INITIAL_RTR_ADVERT_INTERVAL :: rat where
  [simp]: "MAX_INITIAL_RTR_ADVERT_INTERVAL = 16"
definition MAX_INITIAL_RTR_ADVERTISEMENTS :: u32 where
  [simp]: "MAX_INITIAL_RTR_ADVERTISEMENTS = 3"
definition MIN_DELAY_BETWEEN_RAS :: rat where [simp]: "MIN_DELAY_BETWEEN_RAS = 3"
definition MIN_DELAY_BETWEEN_RAS_MIPv6 :: rat where [simp]: "MIN_DELAY_BETWEEN_RAS_MIPv6 = 30 / 1000"
definition MAX_RA_DELAY_SECONDS :: rat where [simp]: "MAX_RA_DELAY_SECONDS = 1 / 2"
definition MIN_MaxRtrAdvInterval :: rat where [simp]: "MIN_MaxRtrAdvInterval = 4"
definition MAX_MaxRtrAdvInterval :: rat where [simp]: "MAX_MaxRtrAdvInterval = 65535"
definition MIN_MinRtrAdvInterval :: rat where [simp]: "MIN_MinRtrAdvInterval = 3"
definition MAX_AdvDefaultLifetime :: int where [simp]: "MAX_AdvDefaultLifetime = 65535"
definition MIN_AdvLinkMTU :: u32 where [simp]: "MIN_AdvLinkMTU = RFC2460_MIN_MTU"
definition MAX_AdvLinkMTU :: u32 where [simp]: "MAX_AdvLinkMTU = 131072"
definition MIN_AdvReachableTime :: u32 where [simp]: "MIN_AdvReachableTime = 100"
definition MAX_AdvReachableTime :: u32 where [simp]: "MAX_AdvReachableTime = 3600000"
definition MIN_AdvRetransTimer :: u32 where [simp]: "MIN_AdvRetransTimer = 10"
definition MAX_AdvRetransTimer :: u32 where [simp]: "MAX_AdvRetransTimer = 3600000"
definition MIN_AdvCurHopLimit :: u32 where [simp]: "MIN_AdvCurHopLimit = 2"
definition MAX_AdvCurHopLimit :: u32 where [simp]: "MAX_AdvCurHopLimit = 255"
definition MAX_PrefixLen :: byte where [simp]: "MAX_PrefixLen = 128"
definition MIN_AdvValidLifetime :: u32 where [simp]: "MIN_AdvValidLifetime = 7200"
definition MIN_MinRtrAdvInterval_MIPv6 :: rat where [simp]: "MIN_MinRtrAdvInterval_MIPv6 = 3 / 100"
definition MIN_MaxRtrAdvInterval_MIPv6 :: rat where [simp]: "MIN_MaxRtrAdvInterval_MIPv6 = 7 / 100"
definition Cautious_MaxRtrAdvInterval :: rat where [simp]: "Cautious_MaxRtrAdvInterval = 2 / 10"
definition Cautious_MaxRtrAdvInterval_Leeway :: rat where
  [simp]: "Cautious_MaxRtrAdvInterval_Leeway = 2 / 100"
definition MIN_HomeAgentLifetime :: int where [simp]: "MIN_HomeAgentLifetime = 1"
definition MAX_HomeAgentLifetime :: int where [simp]: "MAX_HomeAgentLifetime = 65520"

text \<open>Option types, message types and flags (\<^verbatim>\<open>defaults.h\<close>, \<^verbatim>\<open>radvd.h\<close>, \<^verbatim>\<open>netinet/icmp6.h\<close>).\<close>

definition ND_ROUTER_SOLICIT :: byte where [simp]: "ND_ROUTER_SOLICIT = 133"
definition ND_ROUTER_ADVERT :: byte where [simp]: "ND_ROUTER_ADVERT = 134"
definition ND_OPT_SOURCE_LINKADDR :: byte where [simp]: "ND_OPT_SOURCE_LINKADDR = 1"
definition ND_OPT_TARGET_LINKADDR :: byte where [simp]: "ND_OPT_TARGET_LINKADDR = 2"
definition ND_OPT_PREFIX_INFORMATION :: byte where [simp]: "ND_OPT_PREFIX_INFORMATION = 3"
definition ND_OPT_REDIRECTED_HEADER :: byte where [simp]: "ND_OPT_REDIRECTED_HEADER = 4"
definition ND_OPT_MTU :: byte where [simp]: "ND_OPT_MTU = 5"
definition ND_OPT_RTR_ADV_INTERVAL :: byte where [simp]: "ND_OPT_RTR_ADV_INTERVAL = 7"
definition ND_OPT_HOME_AGENT_INFO :: byte where [simp]: "ND_OPT_HOME_AGENT_INFO = 8"
definition ND_OPT_ROUTE_INFORMATION :: byte where [simp]: "ND_OPT_ROUTE_INFORMATION = 24"
definition ND_OPT_RDNSS_INFORMATION :: byte where [simp]: "ND_OPT_RDNSS_INFORMATION = 25"
definition ND_OPT_DNSSL_INFORMATION :: byte where [simp]: "ND_OPT_DNSSL_INFORMATION = 31"
definition ND_OPT_6CO :: byte where [simp]: "ND_OPT_6CO = 34"
definition ND_OPT_ABRO :: byte where [simp]: "ND_OPT_ABRO = 35"
definition ND_OPT_CAPTIVE_PORTAL :: byte where [simp]: "ND_OPT_CAPTIVE_PORTAL = 37"
definition ND_OPT_PREF64 :: byte where [simp]: "ND_OPT_PREF64 = 38"
definition ND_RA_FLAG_MANAGED :: byte where [simp]: "ND_RA_FLAG_MANAGED = 0x80"
definition ND_RA_FLAG_OTHER :: byte where [simp]: "ND_RA_FLAG_OTHER = 0x40"
definition ND_RA_FLAG_HOME_AGENT :: byte where [simp]: "ND_RA_FLAG_HOME_AGENT = 0x20"
definition ND_RA_FLAG_SNAC_ROUTER :: byte where [simp]: "ND_RA_FLAG_SNAC_ROUTER = 0x02"
definition ND_OPT_RI_PRF_MASK :: int where [simp]: "ND_OPT_RI_PRF_MASK = 0x18"
definition ND_OPT_PI_FLAG_ONLINK :: byte where [simp]: "ND_OPT_PI_FLAG_ONLINK = 0x80"
definition ND_OPT_PI_FLAG_AUTO :: byte where [simp]: "ND_OPT_PI_FLAG_AUTO = 0x40"
definition ND_OPT_PI_FLAG_RADDR :: byte where [simp]: "ND_OPT_PI_FLAG_RADDR = 0x20"
definition ND_OPT_PI_FLAG_DHCPv6_PD_PREF :: byte where
  [simp]: "ND_OPT_PI_FLAG_DHCPv6_PD_PREF = 0x10"

text \<open>Interface flags and hardware types (\<^verbatim>\<open>net/if.h\<close>, \<^verbatim>\<open>net/if_arp.h\<close>, \<^verbatim>\<open>linux/if_link.h\<close>).\<close>

definition IFF_UP :: u16 where [simp]: "IFF_UP = 0x1"
definition IFF_POINTOPOINT :: u16 where [simp]: "IFF_POINTOPOINT = 0x10"
definition IFF_RUNNING :: u16 where [simp]: "IFF_RUNNING = 0x40"
definition IFF_MULTICAST :: u16 where [simp]: "IFF_MULTICAST = 0x1000"
definition ARPHRD_ETHER :: u16 where [simp]: "ARPHRD_ETHER = 1"
definition ARPHRD_ARCNET :: u16 where [simp]: "ARPHRD_ARCNET = 7"
definition ARPHRD_FDDI :: u16 where [simp]: "ARPHRD_FDDI = 774"
definition ARPHRD_6LOWPAN :: u16 where [simp]: "ARPHRD_6LOWPAN = 825"
definition IFLA_ADDRESS :: u16 where [simp]: "IFLA_ADDRESS = 1"
definition NLA_F_NESTED :: u16 where [simp]: "NLA_F_NESTED = 0x8000"

subsection \<open>Structs of radvd.h\<close>

record timespec =
  tv_sec :: int
  tv_nsec :: int

record Clients =
  Address :: in6_addr
  ignored :: bool

record AdvPrefix =
  Prefix :: in6_addr
  PrefixLen :: byte
  AdvOnLinkFlag :: bool
  AdvAutonomousFlag :: bool
  AdvDHCPv6PDPreferredFlag :: bool
  AdvValidLifetime :: u32
  AdvPreferredLifetime :: u32
  DeprecatePrefixFlag :: bool
  DecrementLifetimesFlag :: bool
  curr_validlft :: u32
  curr_preferredlft :: u32
  AdvRouterAddr :: bool
  if6to4 :: string
  if6 :: string

record NAT64Prefix =
  NAT64_Prefix :: in6_addr
  NAT64_PrefixLen :: byte
  NAT64_AdvValidLifetime :: u32
  NAT64_curr_validlft :: u32

record AutogenIgnorePrefix =
  Ignore_Prefix :: in6_addr
  Ignore_Mask :: in6_addr

record AdvRoute =
  Route_Prefix :: in6_addr
  Route_PrefixLen :: byte
  AdvRoutePreference :: int
  AdvRouteLifetime :: u32
  RemoveRouteFlag :: bool

record AdvRDNSS =
  AdvRDNSSLifetime :: u32
  FlushRDNSSFlag :: bool
  AdvRDNSSAddr :: "in6_addr list"

record AdvDNSSL =
  AdvDNSSLLifetime :: u32
  FlushDNSSLFlag :: bool
  AdvDNSSLSuffixes :: "string list"

record AdvLowpanCo =
  ContextLength :: byte
  ContextCompressionFlag :: bool
  AdvContextID :: byte
  AdvLifeTime :: u16
  AdvContextPrefix :: in6_addr

text \<open>The two versions of \<open>AdvAbro\<close> are \<^verbatim>\<open>Version[0]\<close> (high) and \<^verbatim>\<open>Version[1]\<close> (low).\<close>

record AdvAbro =
  Version0 :: u16
  Version1 :: u16
  ValidLifeTime :: u16
  LBRaddress :: in6_addr

record state_info =
  ready :: bool
  changed :: bool
  cease_adv :: bool
  racount :: u32

text \<open>
  \<^verbatim>\<open>if_addr_rasrc\<close> points nowhere, to \<^verbatim>\<open>if_addr\<close>, or to an element of \<^verbatim>\<open>if_addrs\<close>. The array
  \<^verbatim>\<open>if_addrs\<close> has one element more than \<^verbatim>\<open>addrs_count\<close>, the unspecified address at its end.
\<close>

datatype rasrc_ptr = Rasrc_NULL | Rasrc_if_addr | Rasrc_if_addrs nat

record properties =
  name :: string
  if_index :: u32
  if_addr :: in6_addr
  if_addrs :: "in6_addr list"
  addrs_count :: int
  if_addr_rasrc :: rasrc_ptr
  max_ra_option_size :: u32

record ra_header_info =
  AdvManagedFlag :: bool
  AdvOtherConfigFlag :: bool
  AdvCurHopLimit :: byte
  AdvHomeAgentFlag :: bool
  AdvSNACRouterFlag :: bool
  AdvDefaultLifetime :: int
  AdvDefaultPreference :: int
  AdvReachableTime :: u32
  AdvRetransTimer :: u32

record times =
  last_multicast :: timespec
  next_multicast :: timespec
  last_ra_time :: timespec

record sllao =
  if_hwaddr :: "byte list"
  if_hwaddr_len :: int
  if_prefix_len :: int
  if_maxmtu :: int

record mipv6 =
  AdvIntervalOpt :: bool
  AdvHomeAgentInfo :: bool
  HomeAgentPreference :: u16
  HomeAgentLifetime :: int
  AdvMobRtrSupportFlag :: bool

record Interface =
  IgnoreIfMissing :: bool
  AdvSendAdvert :: bool
  MaxRtrAdvInterval :: rat
  MinRtrAdvInterval :: rat
  MinDelayBetweenRAs :: rat
  AdvSourceLLAddress :: bool
  RemoveAdvOnExit :: bool
  UnicastOnly :: bool
  UnrestrictedUnicast :: bool
  AdvRASolicitedUnicast :: bool
  AdvCaptivePortalAPI :: "string option"
  ClientList :: "Clients list"
  state_info :: state_info
  props :: properties
  ra_header_info :: ra_header_info
  times :: times
  AdvPrefixList :: "AdvPrefix list"
  AdvRouteList :: "AdvRoute list"
  AdvRDNSSList :: "AdvRDNSS list"
  AdvDNSSLList :: "AdvDNSSL list"
  NAT64PrefixList :: "NAT64Prefix list"
  IgnorePrefixList :: "AutogenIgnorePrefix list"
  AdvLinkMTU :: u32
  AdvRAMTU :: u32
  sllao :: sllao
  mipv6 :: mipv6
  AdvLowpanCoList :: "AdvLowpanCo list"
  AdvAbroList :: "AdvAbro list"
  AdvRASrcAddressList :: "in6_addr list"
  lineno :: int

text \<open>The zeroed struct that \<^verbatim>\<open>memset(iface, 0, sizeof(struct Interface))\<close> leaves.\<close>

definition timespec_zero :: timespec where
  "timespec_zero = \<lparr>tv_sec = 0, tv_nsec = 0\<rparr>"

definition Interface_zero :: Interface where
  "Interface_zero = \<lparr>
     IgnoreIfMissing = False, AdvSendAdvert = False, MaxRtrAdvInterval = 0,
     MinRtrAdvInterval = 0, MinDelayBetweenRAs = 0, AdvSourceLLAddress = False,
     RemoveAdvOnExit = False, UnicastOnly = False, UnrestrictedUnicast = False,
     AdvRASolicitedUnicast = False, AdvCaptivePortalAPI = None, ClientList = [],
     state_info = \<lparr>ready = False, changed = False, cease_adv = False, racount = 0\<rparr>,
     props = \<lparr>name = [], if_index = 0, if_addr = 0, if_addrs = [], addrs_count = 0,
       if_addr_rasrc = Rasrc_NULL, max_ra_option_size = 0\<rparr>,
     ra_header_info = \<lparr>AdvManagedFlag = False, AdvOtherConfigFlag = False, AdvCurHopLimit = 0,
       AdvHomeAgentFlag = False, AdvSNACRouterFlag = False, AdvDefaultLifetime = 0,
       AdvDefaultPreference = 0, AdvReachableTime = 0, AdvRetransTimer = 0\<rparr>,
     times = \<lparr>last_multicast = timespec_zero, next_multicast = timespec_zero,
       last_ra_time = timespec_zero\<rparr>,
     AdvPrefixList = [], AdvRouteList = [], AdvRDNSSList = [], AdvDNSSLList = [],
     NAT64PrefixList = [], IgnorePrefixList = [], AdvLinkMTU = 0, AdvRAMTU = 0,
     sllao = \<lparr>if_hwaddr = replicate 16 0, if_hwaddr_len = 0, if_prefix_len = 0, if_maxmtu = 0\<rparr>,
     mipv6 = \<lparr>AdvIntervalOpt = False, AdvHomeAgentInfo = False, HomeAgentPreference = 0,
       HomeAgentLifetime = 0, AdvMobRtrSupportFlag = False\<rparr>,
     AdvLowpanCoList = [], AdvAbroList = [], AdvRASrcAddressList = [], lineno = 0\<rparr>"

end
