(* ===== verification/World.thy ===== *)
theory World
  imports Radvd_Types "HOL-Library.Log_Nat"
begin

text \<open>
  What the program sees of the operating system and what it does to it, and \<^verbatim>\<open>timer.c\<close>.

  The answers of the kernel are a record \<open>kernel\<close>: interface flags, addresses, files under
  \<^verbatim>\<open>/proc\<close>, netlink answers. They are fixed while one event is handled and arbitrary between two
  events. The clock, the random number generator and \<^verbatim>\<open>sendmsg\<close> answer each call anew: their
  answers are sequences, and the world counts the calls. Packets sent, multicast groups joined or
  left and commands written to the privileged process are recorded in the order they were issued.
  The build modelled is Linux with netlink and \<^verbatim>\<open>getifaddrs\<close>, without \<^verbatim>\<open>sysctl\<close>.
\<close>

datatype sockaddr = AF_INET6 in6_addr | AF_OTHER

record ifaddrs =
  ifa_name :: string
  ifa_addr :: "sockaddr option"
  ifa_netmask :: in6_addr

datatype proc_file = No_file | Unreadable | Proc_value int

text \<open>The attributes of an \<^verbatim>\<open>RTM_GETADDR\<close> answer that the program looks at.\<close>

datatype rta = IFA_ADDRESS in6_addr | IFA_CACHEINFO (ifa_prefered: u32) (ifa_valid: u32) | IFA_OTHER

datatype sockopt_result = Sockopt_ok | Sockopt_EADDRINUSE | Sockopt_error

text \<open>
  \<open>nl_addresses\<close> is the answer to \<^verbatim>\<open>RTM_GETADDR\<close>, the attributes of each of its messages;
  \<open>nl_link_attrs\<close> the answer to \<^verbatim>\<open>RTM_GETLINK\<close>, the type and payload length of each attribute;
  \<open>None\<close> when the socket, the request or the answer failed. \<open>SIOCGIFHWADDR\<close> gives the address
  family and the bytes of the \<^verbatim>\<open>ifreq\<close> union from \<^verbatim>\<open>sa_data\<close> on.
\<close>

text \<open>\<^verbatim>\<open>strncmp(a, b, n) == 0\<close> on strings without their terminating zero.\<close>

definition IFNAMSIZ :: nat where [simp]: "IFNAMSIZ = 16"

definition strncmp_eq :: "string \<Rightarrow> string \<Rightarrow> nat \<Rightarrow> bool" where
  "strncmp_eq a b n \<longleftrightarrow> take n a = take n b"

record kernel =
  if_nametoindex :: "string \<Rightarrow> u32"
  if_indextoname :: "u32 \<Rightarrow> string option"
  SIOCGIFFLAGS :: "string \<Rightarrow> u16 option"
  SIOCGIFMTU :: "string \<Rightarrow> int option"
  SIOCGIFHWADDR :: "string \<Rightarrow> (u16 \<times> byte list) option"
  SIOCGIFADDR :: "string \<Rightarrow> u32 option"
  getifaddrs :: "ifaddrs list option"
  proc_linkmtu :: "string \<Rightarrow> proc_file"
  proc_iface_forwarding :: "string \<Rightarrow> proc_file"
  proc_forwarding :: proc_file
  nl_addresses :: "rta list list option"
  nl_link_attrs :: "u32 \<Rightarrow> (u16 \<times> nat) list option"
  join_result :: "u32 \<Rightarrow> sockopt_result"

record ra_packet =
  pkt_dest :: in6_addr
  pkt_scope_id :: u32
  pkt_ifindex :: u32
  pkt_src :: in6_addr
  pkt_data :: "byte list"

datatype group_op = ADD_MEMBERSHIP u32 in6_addr | DROP_MEMBERSHIP u32 in6_addr

datatype privsep_type =
    SET_INTERFACE_LINKMTU
  | SET_INTERFACE_CURHLIM
  | SET_INTERFACE_REACHTIME
  | SET_INTERFACE_RETRANSTIMER

record privsep_command =
  cmd_type :: privsep_type
  cmd_iface :: string
  cmd_val :: u32

record world =
  kern :: kernel
  clock :: "nat \<Rightarrow> timespec"
  ticks :: nat
  rand_seq :: "nat \<Rightarrow> nat"
  rands :: nat
  sendmsg_result :: "nat \<Rightarrow> int"
  sent :: "ra_packet list"
  group_ops :: "group_op list"
  privsep_out :: "privsep_command list"
  warned :: bool

definition clock_gettime :: "world \<Rightarrow> timespec \<times> world" where
  "clock_gettime w = (clock w (ticks w), w\<lparr>ticks := Suc (ticks w)\<rparr>)"

definition RAND_MAX :: nat where [simp]: "RAND_MAX = 2147483647"

definition c_rand :: "world \<Rightarrow> nat \<times> world" where
  "c_rand w = (rand_seq w (rands w), w\<lparr>rands := Suc (rands w)\<rparr>)"

definition sendmsg :: "ra_packet \<Rightarrow> world \<Rightarrow> int \<times> world" where
  "sendmsg p w = (sendmsg_result w (length (sent w)), w\<lparr>sent := sent w @ [p]\<rparr>)"

text \<open>What the documentation of the C library promises of these calls.\<close>

definition ts_nsecs :: "timespec \<Rightarrow> int" where
  "ts_nsecs t = tv_sec t * 1000000000 + tv_nsec t"

definition monotonic_clock :: "(nat \<Rightarrow> timespec) \<Rightarrow> bool" where
  "monotonic_clock c \<longleftrightarrow>
     (\<forall>i. 0 \<le> tv_nsec (c i) \<and> tv_nsec (c i) < 1000000000) \<and>
     (\<forall>i j. i \<le> j \<longrightarrow> ts_nsecs (c i) \<le> ts_nsecs (c j))"

definition rand_in_range :: "(nat \<Rightarrow> nat) \<Rightarrow> bool" where
  "rand_in_range r \<longleftrightarrow> (\<forall>i. r i \<le> RAND_MAX)"

subsection \<open>timer.c and the random interval of util.c\<close>

text \<open>
  Arithmetic on \<^verbatim>\<open>double\<close> rounds to the nearest number with 53 significant bits, to the even one of
  two equally near; \<open>binary_exponent x\<close> is the position of the leading bit. Numbers so small or so large
  that the range of the exponents matters do not occur in times.
\<close>

definition binary_exponent :: "rat \<Rightarrow> int" where
  "binary_exponent x =
     (let (n, d) = quotient_of \<bar>x\<bar>; e = bitlen n - bitlen d
      in if 2 powi e \<le> \<bar>x\<bar> then e else e - 1)"

definition round_half_even :: "rat \<Rightarrow> int" where
  "round_half_even x =
     (let n = \<lfloor>x\<rfloor>; r = x - of_int n
      in if r < 1 / 2 \<or> r = 1 / 2 \<and> even n then n else n + 1)"

definition double_round :: "rat \<Rightarrow> rat" where
  "double_round x =
     (if x = 0 then 0
      else let u = 2 powi (binary_exponent x - 52) in of_int (round_half_even (x / u)) * u)"

text \<open>
  \<open>next\<close> is the value of the \<^verbatim>\<open>double\<close>. Taking its integral part away is exact; the product and the
  sum with \<^verbatim>\<open>tv_nsec\<close> are rounded, and the conversion to \<^verbatim>\<open>long\<close> cuts the fraction off.
\<close>

definition next_timespec :: "rat \<Rightarrow> world \<Rightarrow> timespec \<times> world" where
  "next_timespec next w =
     (let (ts, w) = clock_gettime w;
          ts = ts\<lparr>tv_sec := tv_sec ts + c_trunc next\<rparr>;
          ts = ts\<lparr>tv_nsec :=
            c_trunc (double_round (of_int (tv_nsec ts) +
              double_round (1000000000 * (next - of_int (c_trunc next)))))\<rparr>
      in (ts, w))"

definition timespecdiff :: "timespec \<Rightarrow> timespec \<Rightarrow> int" where
  "timespecdiff a b =
     (tv_sec a - tv_sec b) * 1000 + c_div (tv_nsec a - tv_nsec b) (1000 * 1000)"

definition next_time_msec :: "Interface \<Rightarrow> world \<Rightarrow> int \<times> world" where
  "next_time_msec iface w =
     (let (ts, w) = clock_gettime w;
          diff_ms = timespecdiff (next_multicast (times iface)) ts
      in if diff_ms \<le> 0 then (0, w) else (diff_ms, w))"

definition rand_between :: "rat \<Rightarrow> rat \<Rightarrow> world \<Rightarrow> rat \<times> world" where
  "rand_between lower upper w =
     (let (r, w) = c_rand w
      in ((upper - lower) / (of_nat RAND_MAX + 1) * of_nat r + lower, w))"

subsection \<open>Lemmas\<close>

lemma clock_gettime_simps [simp]:
  "fst (clock_gettime w) = clock w (ticks w)"
  "snd (clock_gettime w) = w\<lparr>ticks := Suc (ticks w)\<rparr>"
  by (simp_all add: clock_gettime_def)

lemma binary_exponent_lower:
  assumes "x \<noteq> 0"
  shows "2 powi binary_exponent x \<le> \<bar>x\<bar>"
proof -
  obtain n d where q: "quotient_of \<bar>x\<bar> = (n, d)" by (cases "quotient_of \<bar>x\<bar>")
  have d: "0 < d" and x: "\<bar>x\<bar> = of_int n / of_int d"
    using quotient_of_denom_pos [OF q] quotient_of_div [OF q] by simp_all
  have "0 < (of_int n :: rat) / of_int d" using assms x by simp
  then have n: "0 < n" using d by (simp add: zero_less_divide_iff)
  have "2 powi (bitlen n - bitlen d - 1) \<le> \<bar>x\<bar>"
  proof -
    have bn: "2 ^ nat (bitlen n - 1) \<le> n" and bd: "d < 2 ^ nat (bitlen d)"
      using bitlen_bounds [OF n] bitlen_bounds [OF d] by simp_all
    have pos: "0 < bitlen n" using n bitlen_eq_zero_iff [of n] bitlen_nonneg [of n] by linarith
    have "(2 :: rat) powi (bitlen n - 1) = of_int (2 ^ nat (bitlen n - 1))"
      using pos by (simp add: power_int_def)
    also have "\<dots> \<le> of_int n" using bn by (simp only: of_int_le_iff)
    finally have 1: "(2 :: rat) powi (bitlen n - 1) \<le> of_int n" .
    have "(of_int d :: rat) \<le> of_int (2 ^ nat (bitlen d))" using bd by (simp only: of_int_le_iff)
    also have "\<dots> = 2 powi bitlen d" by (simp add: power_int_def bitlen_nonneg)
    finally have 2: "(of_int d :: rat) \<le> 2 powi bitlen d" .
    have "2 powi (bitlen n - bitlen d - 1) = (2 :: rat) powi (bitlen n - 1) / 2 powi bitlen d"
      by (simp add: power_int_diff [symmetric] algebra_simps)
    also have "\<dots> \<le> of_int n / of_int d"
      using 1 2 d n by (intro frac_le) simp_all
    finally show ?thesis by (simp add: x)
  qed
  then show ?thesis
    by (simp add: binary_exponent_def q Let_def)
qed

lemma round_half_even_near: "\<bar>of_int (round_half_even x) - x\<bar> \<le> 1 / 2"
proof -
  have "0 \<le> x - of_int \<lfloor>x\<rfloor>" "x - of_int \<lfloor>x\<rfloor> < 1" by linarith+
  then show ?thesis by (auto simp: round_half_even_def Let_def abs_le_iff)
qed

text \<open>Rounding changes a number by at most one part in \<open>2 ^ 53\<close>.\<close>

lemma double_round_near: "\<bar>double_round x - x\<bar> \<le> \<bar>x\<bar> / 2 ^ 53"
proof (cases "x = 0")
  case False
  define u :: rat where "u = 2 powi (binary_exponent x - 52)"
  have u: "0 < u" by (simp add: u_def)
  have "\<bar>double_round x - x\<bar> = \<bar>of_int (round_half_even (x / u)) - x / u\<bar> * u"
  proof -
    have "double_round x - x = (of_int (round_half_even (x / u)) - x / u) * u"
      using False u by (simp add: double_round_def u_def [symmetric] algebra_simps)
    then show ?thesis using u by (simp add: abs_mult)
  qed
  also have "\<dots> \<le> 1 / 2 * u"
    using u by (intro mult_right_mono round_half_even_near) simp
  also have "u = 2 powi binary_exponent x / 2 ^ 52"
    unfolding u_def power_int_diff [of "2 :: rat", simplified] by simp
  also have "1 / 2 * (2 powi binary_exponent x / 2 ^ 52) \<le> 1 / 2 * (\<bar>x\<bar> / 2 ^ 52)"
    using binary_exponent_lower [OF False] by (simp add: divide_right_mono)
  finally show ?thesis by simp
qed (simp add: double_round_def)

lemma c_trunc_near: "\<bar>of_int (c_trunc x) - x\<bar> < 1"
  unfolding c_trunc_def by (auto simp: abs_less_iff) linarith+

text \<open>A deadline is as far in the future as asked, to two nanoseconds.\<close>

definition ts_seconds :: "timespec \<Rightarrow> rat" where
  "ts_seconds t = of_int (tv_sec t) + of_int (tv_nsec t) / 1000000000"

lemma next_timespec_near:
  assumes "0 \<le> tv_nsec (clock w (ticks w))" and "tv_nsec (clock w (ticks w)) < 1000000000"
  shows "\<bar>ts_seconds (fst (next_timespec next w)) - (ts_seconds (clock w (ticks w)) + next)\<bar> < 2 / 1000000000"
proof -
  let ?n = "of_int (tv_nsec (clock w (ticks w))) :: rat" and ?f = "1000000000 * (next - of_int (c_trunc next))"
  define y where "y = ?n + double_round ?f"
  have n: "0 \<le> ?n" "?n < 1000000000" using assms by simp_all
  have f: "\<bar>?f\<bar> \<le> 1000000000"
    using c_trunc_near [of "next"] by (simp add: abs_minus_commute abs_mult)
  have r: "\<bar>double_round ?f - ?f\<bar> \<le> 1 / 4"
    using double_round_near [of ?f] f by simp
  then have y: "\<bar>y\<bar> \<le> 3000000000"
    using n f unfolding y_def by linarith
  have "\<bar>double_round y - y\<bar> \<le> 1 / 4"
    using double_round_near [of y] y by simp
  with r c_trunc_near [of "double_round y"] have "\<bar>of_int (c_trunc (double_round y)) - (?n + ?f)\<bar> < 2"
    unfolding y_def by linarith
  moreover have "ts_seconds (fst (next_timespec next w)) - (ts_seconds (clock w (ticks w)) + next) =
      (of_int (c_trunc (double_round y)) - (?n + ?f)) / 1000000000"
    by (simp add: next_timespec_def ts_seconds_def y_def clock_gettime_def field_simps)
  ultimately show ?thesis by (simp only: abs_div_pos [symmetric]) (simp add: divide_less_eq)
qed

lemma rand_between_range:
  assumes "rand_in_range (rand_seq w)" and "lower \<le> upper"
  shows "lower \<le> fst (rand_between lower upper w) \<and> fst (rand_between lower upper w) \<le> upper"
proof -
  let ?r = "rand_seq w (rands w)"
  have r: "(of_nat ?r :: rat) \<le> 2147483647"
    using assms(1) of_nat_mono [of ?r 2147483647] by (simp add: rand_in_range_def)
  have d: "0 \<le> (upper - lower) / 2147483648"
    using assms(2) by simp
  have "(upper - lower) / 2147483648 * of_nat ?r \<le> (upper - lower) / 2147483648 * 2147483647"
    by (rule mult_left_mono [OF r d])
  also have "\<dots> \<le> upper - lower"
    using assms(2) by (simp add: field_simps)
  finally show ?thesis
    using d by (simp add: rand_between_def c_rand_def)
qed

end
