(* ===== verification/Addr_Util.thy ===== *)
theory Addr_Util
  imports Radvd_Types
begin

text \<open>
  Operations on IPv6 addresses and prefixes: the helpers of \<^verbatim>\<open>util.c\<close>, \<open>addr_match\<close> of
  \<^verbatim>\<open>process.c\<close>, \<open>prefix_match\<close> of \<^verbatim>\<open>netlink.c\<close> and the address macros of \<^verbatim>\<open>netinet/in.h\<close>.
  Each bytewise loop is related to the operation on the 128-bit value that it stands for.
\<close>

subsection \<open>Definitions\<close>

definition IN6_IS_ADDR_UNSPECIFIED :: "in6_addr \<Rightarrow> bool" where
  "IN6_IS_ADDR_UNSPECIFIED a \<longleftrightarrow> a = 0"

definition IN6_IS_ADDR_LINKLOCAL :: "in6_addr \<Rightarrow> bool" where
  "IN6_IS_ADDR_LINKLOCAL a \<longleftrightarrow> s6_addr a ! 0 = 0xfe \<and> s6_addr a ! 1 AND 0xc0 = 0x80"

definition IN6_IS_ADDR_MC_LINKLOCAL :: "in6_addr \<Rightarrow> bool" where
  "IN6_IS_ADDR_MC_LINKLOCAL a \<longleftrightarrow> s6_addr a ! 0 = 0xff \<and> s6_addr a ! 1 AND 0x0f = 2"

text \<open>The loop of \<open>countbits\<close> clears the lowest set bit until none is left.\<close>

lemma word_and_minus_1_less: "b \<noteq> 0 \<Longrightarrow> b AND (b - 1) < b" for b :: "'a::len word"
proof -
  assume b: "b \<noteq> 0"
  have "b AND (b - 1) \<le> b - 1"
    by (rule word_and_le1)
  also have "b - 1 < b"
    using b by (simp add: word_less_nat_alt unat_minus_one unat_gt_0)
  finally show ?thesis .
qed

function countbits_loop :: "u32 \<Rightarrow> nat \<Rightarrow> nat" where
  "countbits_loop b count = (if b \<noteq> 0 then countbits_loop (b AND (b - 1)) (count + 1) else count)"
  by pat_completeness auto
termination
  by (relation "measure (\<lambda>(b, count). unat b)") (auto intro: unat_mono word_and_minus_1_less)

declare countbits_loop.simps [simp del]

definition countbits :: "u32 \<Rightarrow> nat" where
  "countbits b = countbits_loop b 0"

definition count_mask :: "in6_addr \<Rightarrow> nat" where
  "count_mask m = fold (\<lambda>i count. count + countbits (ucast (s6_addr m ! i))) [0..<16] 0"

definition get_prefix6 :: "in6_addr \<Rightarrow> in6_addr \<Rightarrow> in6_addr" where
  "get_prefix6 addr msk = from_be (map2 (AND) (s6_addr addr) (s6_addr msk))"

definition addr_match :: "in6_addr \<Rightarrow> in6_addr \<Rightarrow> nat \<Rightarrow> bool" where
  "addr_match a1 a2 prefixlen =
     (let pdw = prefixlen div 32;
          pbi = prefixlen mod 32
      in if pdw \<noteq> 0 \<and> take (4 * pdw) (s6_addr a1) \<noteq> take (4 * pdw) (s6_addr a2) then False
         else if pbi \<noteq> 0 then
           let w1 = from_be (take 4 (drop (4 * pdw) (s6_addr a1))) :: u32;
               w2 = from_be (take 4 (drop (4 * pdw) (s6_addr a2))) :: u32;
               msk = push_bit (32 - pbi) (0xffffffff :: u32)
           in (w1 XOR w2) AND msk = 0
         else True)"

text \<open>
  \<^verbatim>\<open>char mask = 1 << (8 - (i % 8))\<close> keeps the low eight bits of the shifted value only.
\<close>

definition prefix_match :: "AdvPrefix \<Rightarrow> in6_addr \<Rightarrow> bool" where
  "prefix_match prefix addr =
     (if unat (PrefixLen prefix) mod 8 = 0 then
        take (unat (PrefixLen prefix) div 8) (s6_addr (Prefix prefix)) =
        take (unat (PrefixLen prefix) div 8) (s6_addr addr)
      else
        list_all (\<lambda>i.
          let msk = word_of_nat (2 ^ (8 - i mod 8)) :: byte;
              index = i div 8
          in s6_addr (Prefix prefix) ! index AND msk = s6_addr addr ! index AND msk)
        [0..<unat (PrefixLen prefix)])"

fun check_rdnss_presence :: "AdvRDNSS list \<Rightarrow> in6_addr \<Rightarrow> bool" where
  "check_rdnss_presence [] addr = False"
| "check_rdnss_presence (rdnss # rest) addr =
     (if list_ex (\<lambda>a. a = addr) (AdvRDNSSAddr rdnss) then True
      else check_rdnss_presence rest addr)"

fun check_dnssl_presence :: "AdvDNSSL list \<Rightarrow> string \<Rightarrow> bool" where
  "check_dnssl_presence [] suffix = False"
| "check_dnssl_presence (dnssl # rest) suffix =
     (if list_ex (\<lambda>s. s = suffix) (AdvDNSSLSuffixes dnssl) then True
      else check_dnssl_presence rest suffix)"

text \<open>The specification: the first \<open>n\<close> bits of two addresses agree.\<close>

definition same_prefix :: "nat \<Rightarrow> in6_addr \<Rightarrow> in6_addr \<Rightarrow> bool" where
  "same_prefix n a b \<longleftrightarrow> (\<forall>i < n. bit a (127 - i) = bit b (127 - i))"

lemma same_prefix_drop_bit:
  assumes "n \<le> 128"
  shows "same_prefix n a b \<longleftrightarrow> drop_bit (128 - n) a = drop_bit (128 - n) b"
  using all_less_reflect [OF assms, of "\<lambda>k. bit a k = bit b k"]
  by (auto simp: same_prefix_def drop_bit_word_eq_iff)

subsection \<open>Counting bits\<close>

text \<open>The number of set bits drops by one when the lowest of them is cleared.\<close>

lemma bit_minus_1_iff:
  fixes b :: "'a::len word"
  assumes b: "bit b l" and low: "\<And>k. k < l \<Longrightarrow> \<not> bit b k"
  shows "bit (b AND (b - 1)) k \<longleftrightarrow> bit b k \<and> k \<noteq> l"
proof -
  have l: "l < LENGTH('a)"
    using b by (rule bit_imp_le_length)
  define c where "c = b AND NOT (push_bit l 1)"
  have "b = c + push_bit l 1"
  proof -
    have "b = c OR push_bit l 1"
      using b l by (auto simp: c_def bit_simps intro!: bit_word_eqI)
    also have "\<dots> = c + push_bit l 1"
      by (rule disjunctive_add [symmetric]) (auto simp: c_def bit_simps)
    finally show ?thesis .
  qed
  then have "b - 1 = c + (push_bit l 1 - 1)"
    by simp
  also have "push_bit l 1 - 1 = (mask l :: 'a word)"
    by (simp add: mask_eq_exp_minus_1 push_bit_eq_mult)
  also have "c + mask l = c OR mask l"
    by (rule disjunctive_add) (auto simp: c_def bit_simps low)
  finally have "b AND (b - 1) = b AND (c OR mask l)"
    by simp
  then show ?thesis
    using low [of k] by (auto simp: c_def bit_simps dest: bit_imp_le_length)
qed

lemma card_bits_clear_lowest:
  fixes b :: "'a::len word"
  assumes "b \<noteq> 0"
  shows "card {k. bit b k} = Suc (card {k. bit (b AND (b - 1)) k})"
proof -
  have ex: "\<exists>k. bit b k"
    using assms by (metis bit_0_eq bot_apply bot_bool_def bit_eq_iff)
  define l where "l = (LEAST k. bit b k)"
  have l: "bit b l" and low: "\<And>k. k < l \<Longrightarrow> \<not> bit b k"
    unfolding l_def using ex by (auto intro: LeastI_ex dest: not_less_Least)
  have "{k. bit (b AND (b - 1)) k} = {k. bit b k} - {l}"
    using bit_minus_1_iff [OF l low] by auto
  moreover have "finite {k. bit b k}"
    by (rule finite_subset [of _ "{..<LENGTH('a)}"]) (auto dest: bit_imp_le_length)
  ultimately show ?thesis
    using l by (simp only: card.remove [of "{k. bit b k}" l] mem_Collect_eq)
qed

lemma countbits_loop_card: "countbits_loop b count = count + card {k. bit b k}"
proof (induction b count rule: countbits_loop.induct)
  case (1 b count)
  then show ?case
    by (cases "b = 0") (simp_all add: countbits_loop.simps [of b] countbits_loop.simps [of 0] card_bits_clear_lowest bot_fun_def)
qed

lemma countbits_card: "countbits b = card {k. bit b k}"
  by (simp add: countbits_def countbits_loop_card)

lemma card_bits_bytes:
  fixes w :: "'a::len word"
  assumes "LENGTH('a) \<le> 8 * n"
  shows "card {k. bit w k} = (\<Sum>i = 0..<n. card {k. bit (be n w ! i) k})"
proof -
  have "{k. bit w k} = (\<Union>i \<in> {0..<n}. (\<lambda>k. 8 * (n - Suc i) + k) ` {k. bit (be n w ! i) k})"
  proof (intro equalityI subsetI)
    fix k
    assume "k \<in> {k. bit w k}"
    then have k: "bit w k" "k < 8 * n"
      using assms by (auto dest: bit_imp_le_length)
    define i where "i = n - Suc (k div 8)"
    have "i < n" "8 * (n - Suc i) + k mod 8 = k"
      using k(2) by (auto simp: i_def Suc_diff_Suc less_mult_imp_div_less mult.commute)
    with k(1) show "k \<in> (\<Union>i \<in> {0..<n}. (\<lambda>k. 8 * (n - Suc i) + k) ` {k. bit (be n w ! i) k})"
      by (auto simp: bit_be_nth image_iff simp del: be_nth
          intro!: bexI [of _ i] exI [of _ "k mod 8"])
  next
    fix k
    assume "k \<in> (\<Union>i \<in> {0..<n}. (\<lambda>k. 8 * (n - Suc i) + k) ` {k. bit (be n w ! i) k})"
    then show "k \<in> {k. bit w k}"
      by (auto simp: bit_be_nth simp del: be_nth)
  qed
  also have "card \<dots> = (\<Sum>i = 0..<n. card ((\<lambda>k. 8 * (n - Suc i) + k) ` {k. bit (be n w ! i) k}))"
  proof (rule card_UN_disjoint, goal_cases)
    case 2
    show ?case
      by (auto intro!: finite_imageI finite_subset [of _ "{..<8}"] dest: bit_imp_le_length)
  next
    case 3
    show ?case
      by (auto simp: bit_be_nth simp del: be_nth)
  qed simp
  also have "\<dots> = (\<Sum>i = 0..<n. card {k. bit (be n w ! i) k})"
    by (simp add: card_image)
  finally show ?thesis .
qed

lemma fold_add_sum: "fold (\<lambda>i c. c + f i) [0..<n] a = a + (\<Sum>i = 0..<n. f i)" for a :: nat
  by (induction n) auto

lemma count_mask_card: "count_mask m = card {k. bit m k}"
proof -
  have "countbits (ucast b) = card {k. bit b k}" for b :: byte
    by (auto simp: countbits_card bit_ucast_iff dest: bit_imp_le_length intro!: arg_cong [of _ _ card])
  then show ?thesis
    by (simp only: count_mask_def fold_add_sum add_0_left card_bits_bytes [of 16 m] len_num1
        len_bit0 len_bit1)
qed

subsection \<open>Masks and prefixes\<close>

lemma get_prefix6_and: "get_prefix6 addr msk = addr AND msk"
proof (rule bit_word_eqI)
  fix k
  assume k: "k < LENGTH(128)"
  then have "k div 8 < 16" by simp
  then show "bit (get_prefix6 addr msk) k = bit (addr AND msk) k"
    using k by (simp add: get_prefix6_def bit_from_be [OF refl] bit_simps bit_be_nth del: be_nth)
qed

text \<open>Comparing the top \<open>m\<close> bits of two 32-bit words under the shifted mask.\<close>

lemma xor_and_high_mask:
  fixes w1 w2 :: u32
  assumes "m \<le> 32"
  shows "(w1 XOR w2) AND push_bit (32 - m) 0xffffffff = 0 \<longleftrightarrow>
    (\<forall>k < m. bit w1 (31 - k) = bit w2 (31 - k))"
proof -
  have ones: "(0xffffffff :: u32) = -1"
    by simp
  have "(w1 XOR w2) AND push_bit (32 - m) 0xffffffff = 0 \<longleftrightarrow>
      (\<forall>j < 32. 32 - m \<le> j \<longrightarrow> bit w1 j = bit w2 j)"
    unfolding ones bit_eq_iff
    by (auto simp: bit_simps dest: bit_imp_le_length)
  then show ?thesis
    using all_less_reflect [OF assms, of "\<lambda>k. bit w1 k = bit w2 k"] by simp
qed

lemma same_prefix_add:
  "same_prefix (m + n) a b \<longleftrightarrow>
     same_prefix m a b \<and> (\<forall>k < n. bit a (127 - (m + k)) = bit b (127 - (m + k)))"
proof -
  have "(\<forall>i < m + n. P i) \<longleftrightarrow> (\<forall>i < m. P i) \<and> (\<forall>k < n. P (m + k))" for P
  proof (intro iffI conjI allI impI)
    fix i
    assume *: "(\<forall>i < m. P i) \<and> (\<forall>k < n. P (m + k))" "i < m + n"
    show "P i"
    proof (cases "i < m")
      case False
      then have "i - m < n" "m + (i - m) = i"
        using *(2) by simp_all
      with * show ?thesis by metis
    qed (use * in simp)
  qed simp_all
  then show ?thesis
    by (simp add: same_prefix_def)
qed

lemma same_prefix_bytes:
  "k \<le> 16 \<Longrightarrow> take k (s6_addr a) = take k (s6_addr b) \<longleftrightarrow> same_prefix (8 * k) a b"
  by (simp add: take_be_eq_iff same_prefix_drop_bit right_diff_distrib')

lemma addr_match_same_prefix:
  assumes "prefixlen \<le> 128"
  shows "addr_match a b prefixlen \<longleftrightarrow> same_prefix prefixlen a b"
proof -
  define pdw pbi where "pdw = prefixlen div 32" and "pbi = prefixlen mod 32"
  have len: "prefixlen = 32 * pdw + pbi" and "pbi < 32" and "pdw \<le> 4"
    using assms by (simp_all add: pdw_def pbi_def)
  define w where "w x = (from_be (take 4 (drop (4 * pdw) (s6_addr x))) :: u32)" for x :: in6_addr
  have w: "bit (w x) (31 - k) \<longleftrightarrow> bit x (127 - (32 * pdw + k))" if "k < pbi" for x k
  proof -
    have "pdw < 4" "31 - k < 32" using assms that len by (simp, arith)
    from \<open>pdw < 4\<close> have "w x = ucast (drop_bit (8 * (12 - 4 * pdw)) x)"
      by (simp add: w_def drop_be take_be from_be_be_ucast)
    with \<open>31 - k < 32\<close> have "bit (w x) (31 - k) \<longleftrightarrow> bit x (8 * (12 - 4 * pdw) + (31 - k))"
      by (simp add: bit_simps less_Suc_eq_le)
    also have "8 * (12 - 4 * pdw) + (31 - k) = 127 - (32 * pdw + k)"
      using \<open>pdw < 4\<close> \<open>pbi < 32\<close> that by simp
    finally show ?thesis .
  qed
  have "addr_match a b prefixlen \<longleftrightarrow>
      take (4 * pdw) (s6_addr a) = take (4 * pdw) (s6_addr b) \<and>
      (pbi = 0 \<or> (w a XOR w b) AND push_bit (32 - pbi) 0xffffffff = 0)"
    by (auto simp: addr_match_def Let_def pdw_def [symmetric] pbi_def [symmetric] w_def)
  also have "\<dots> \<longleftrightarrow> same_prefix (32 * pdw) a b \<and> (\<forall>k < pbi. bit (w a) (31 - k) = bit (w b) (31 - k))"
    using \<open>pdw \<le> 4\<close> \<open>pbi < 32\<close> same_prefix_bytes [of "4 * pdw" a b]
      xor_and_high_mask [of pbi "w a" "w b"] by auto
  also have "\<dots> \<longleftrightarrow> same_prefix prefixlen a b"
    by (auto simp: len same_prefix_add w)
  finally show ?thesis .
qed

text \<open>
  \<open>prefix_match\<close> compares whole bytes exactly. When the length is not a multiple of eight, its
  mask is shifted by one: it looks at the prefix bits before the last, and never at the last
  bit of a byte.
\<close>

lemma prefix_match_aligned_same_prefix:
  assumes "unat (PrefixLen p) mod 8 = 0" and "unat (PrefixLen p) \<le> 128"
  shows "prefix_match p a \<longleftrightarrow> same_prefix (unat (PrefixLen p)) (Prefix p) a"
  using same_prefix_bytes [of "unat (PrefixLen p) div 8" "Prefix p" a] assms
  by (auto simp: prefix_match_def)

lemma byte_and_single_bit:
  fixes x y :: byte
  shows "x AND 2 ^ j = y AND 2 ^ j \<longleftrightarrow> (j < 8 \<longrightarrow> bit x j = bit y j)"
proof -
  have "x AND 2 ^ j = y AND 2 ^ j \<longleftrightarrow> (\<forall>k < 8. (bit x k \<and> k = j) = (bit y k \<and> k = j))"
    by (auto simp: bit_eq_iff [of "_ AND _"] bit_simps dest: bit_imp_le_length)
  then show ?thesis by auto
qed

lemma prefix_match_unaligned_bits:
  assumes "unat (PrefixLen p) mod 8 \<noteq> 0" and "unat (PrefixLen p) \<le> 128"
  shows "prefix_match p a \<longleftrightarrow>
    (\<forall>j < unat (PrefixLen p) - 1. j mod 8 \<noteq> 7 \<longrightarrow> bit (Prefix p) (127 - j) = bit a (127 - j))"
proof -
  let ?n = "unat (PrefixLen p)"
  have byte: "bit (s6_addr x ! (i div 8)) (8 - i mod 8) \<longleftrightarrow> bit x (127 - (i - 1))"
    if "i < ?n" "i mod 8 \<noteq> 0" for i and x :: in6_addr
  proof -
    have "i div 8 < 16" using that assms(2) by simp
    moreover have "8 * (16 - Suc (i div 8)) + (8 - i mod 8) = 127 - (i - 1)"
      using that assms(2) div_mult_mod_eq [of i 8] \<open>i div 8 < 16\<close> by linarith
    moreover have "8 - i mod 8 < 8" using that by simp
    ultimately show ?thesis
      by (simp add: bit_be_nth del: be_nth)
  qed
  have "prefix_match p a \<longleftrightarrow> (\<forall>i < ?n. i mod 8 \<noteq> 0 \<longrightarrow>
      bit (s6_addr (Prefix p) ! (i div 8)) (8 - i mod 8) = bit (s6_addr a ! (i div 8)) (8 - i mod 8))"
    using assms by (auto simp: prefix_match_def list_all_iff byte_and_single_bit Let_def
        simp del: be_nth)
  also have "\<dots> \<longleftrightarrow> (\<forall>i < ?n. i mod 8 \<noteq> 0 \<longrightarrow> bit (Prefix p) (127 - (i - 1)) = bit a (127 - (i - 1)))"
    using byte by blast
  also have "\<dots> \<longleftrightarrow> (\<forall>j < ?n - 1. j mod 8 \<noteq> 7 \<longrightarrow> bit (Prefix p) (127 - j) = bit a (127 - j))"
  proof (rule iffI; intro allI impI)
    fix j
    assume *: "\<forall>i < ?n. i mod 8 \<noteq> 0 \<longrightarrow> bit (Prefix p) (127 - (i - 1)) = bit a (127 - (i - 1))"
      "j < ?n - 1" "j mod 8 \<noteq> 7"
    then have "Suc j < ?n" "Suc j mod 8 \<noteq> 0"
      by (auto simp: mod_Suc)
    with * show "bit (Prefix p) (127 - j) = bit a (127 - j)" by force
  next
    fix i
    assume *: "\<forall>j < ?n - 1. j mod 8 \<noteq> 7 \<longrightarrow> bit (Prefix p) (127 - j) = bit a (127 - j)"
      "i < ?n" "i mod 8 \<noteq> 0"
    then have "i - 1 < ?n - 1" "(i - 1) mod 8 \<noteq> 7"
      by (cases i; auto simp: mod_Suc split: if_splits)+
    with *(1) show "bit (Prefix p) (127 - (i - 1)) = bit a (127 - (i - 1))" by blast
  qed
  finally show ?thesis .
qed

end
