(* ===== verification/Prefix_Lifetimes.thy ===== *)
theory Prefix_Lifetimes
  imports World Addr_Util
begin

text \<open>
  The lifetimes of the advertised prefixes: their decrement with the time since the last
  advertisement (\<open>decrement_lifetime\<close>, \<open>update_iface_times\<close> of \<^verbatim>\<open>send.c\<close>), their reset on SIGUSR1
  (\<open>reset_prefix_lifetimes\<close> of \<^verbatim>\<open>radvd.c\<close>) and their limit by the lifetimes of the addresses the
  kernel holds in the prefix (\<open>netlink_get_address_lifetimes\<close> of \<^verbatim>\<open>netlink.c\<close>,
  \<open>limit_prefix_lifetimes\<close> of \<^verbatim>\<open>send.c\<close>).
\<close>

subsection \<open>Definitions\<close>

text \<open>\<^verbatim>\<open>*lifetime > secs\<close> compares as \<^verbatim>\<open>time_t\<close>; the subtraction is done only when it cannot wrap.\<close>

definition decrement_lifetime :: "int \<Rightarrow> u32 \<Rightarrow> u32" where
  "decrement_lifetime secs lifetime =
     (if uint lifetime > secs then lifetime - word_of_int secs else 0)"

definition update_prefix_times :: "bool \<Rightarrow> int \<Rightarrow> AdvPrefix \<Rightarrow> AdvPrefix" where
  "update_prefix_times cease secs prefix =
     (if \<not> DecrementLifetimesFlag prefix \<or> curr_preferredlft prefix > 0 then
        if \<not> (cease \<and> DeprecatePrefixFlag prefix) then
          if DecrementLifetimesFlag prefix then
            prefix\<lparr>curr_validlft := decrement_lifetime secs (curr_validlft prefix),
                   curr_preferredlft := decrement_lifetime secs (curr_preferredlft prefix)\<rparr>
          else prefix
        else prefix
      else prefix)"

definition update_iface_times :: "Interface \<Rightarrow> world \<Rightarrow> Interface \<times> world" where
  "update_iface_times iface w =
     (let last_time = last_ra_time (times iface);
          (now, w) = clock_gettime w;
          iface = iface\<lparr>times := (times iface)\<lparr>last_ra_time := now\<rparr>\<rparr>;
          secs_since_last_ra = c_div (timespecdiff now last_time) 1000;
          secs_since_last_ra = (if secs_since_last_ra < 0 then 0 else secs_since_last_ra)
      in (iface\<lparr>AdvPrefixList :=
            map (update_prefix_times (cease_adv (state_info iface)) secs_since_last_ra)
              (AdvPrefixList iface)\<rparr>, w))"

definition reset_prefix_lifetime :: "AdvPrefix \<Rightarrow> AdvPrefix" where
  "reset_prefix_lifetime prefix =
     (if DecrementLifetimesFlag prefix then
        prefix\<lparr>curr_validlft := AdvValidLifetime prefix,
               curr_preferredlft := AdvPreferredLifetime prefix\<rparr>
      else prefix)"

definition reset_prefix_lifetimes_foo :: "Interface \<Rightarrow> Interface" where
  "reset_prefix_lifetimes_foo iface =
     iface\<lparr>AdvPrefixList := map reset_prefix_lifetime (AdvPrefixList iface)\<rparr>"

definition reset_prefix_lifetimes :: "Interface list \<Rightarrow> Interface list" where
  "reset_prefix_lifetimes ifaces = map reset_prefix_lifetimes_foo ifaces"

text \<open>
  The walk over one address message: \<open>(found, valid, preferred, ret)\<close> are the local variables of
  \<open>netlink_get_address_lifetimes\<close>; \<open>found\<close> starts at 0 in every message.
\<close>

type_synonym nl_scan = "bool \<times> u32 \<times> u32 \<times> bool"

fun nl_scan_attr :: "AdvPrefix \<Rightarrow> rta \<Rightarrow> nl_scan \<Rightarrow> nl_scan" where
  "nl_scan_attr prefix (IFA_ADDRESS tmp) (found, valid, preferred, ret) =
     (prefix_match prefix tmp, valid, preferred, ret)"
| "nl_scan_attr prefix (IFA_CACHEINFO cpref cvalid) (found, valid, preferred, ret) =
     (if found then
        (False, (if cvalid > valid then cvalid else valid),
         (if cpref > preferred then cpref else preferred), True)
      else (found, valid, preferred, ret))"
| "nl_scan_attr prefix IFA_OTHER s = s"

definition nl_scan_msg :: "AdvPrefix \<Rightarrow> rta list \<Rightarrow> u32 \<times> u32 \<times> bool \<Rightarrow> u32 \<times> u32 \<times> bool" where
  "nl_scan_msg prefix attrs s =
     (let (valid, preferred, ret) = s
      in snd (fold (nl_scan_attr prefix) attrs (False, valid, preferred, ret)))"

definition netlink_get_address_lifetimes :: "kernel \<Rightarrow> AdvPrefix \<Rightarrow> u32 \<times> u32 \<times> bool" where
  "netlink_get_address_lifetimes k prefix =
     (case nl_addresses k of
        None \<Rightarrow> (0, 0, False)
      | Some msgs \<Rightarrow> fold (nl_scan_msg prefix) msgs (0, 0, False))"

definition get_prefix_lifetimes :: "kernel \<Rightarrow> AdvPrefix \<Rightarrow> u32 \<times> u32 \<times> bool" where
  "get_prefix_lifetimes k prefix = netlink_get_address_lifetimes k prefix"

definition limit_prefix_lifetimes :: "kernel \<Rightarrow> AdvPrefix \<Rightarrow> AdvPrefix" where
  "limit_prefix_lifetimes k prefix =
     (let (valid, preferred, ret) = get_prefix_lifetimes k prefix
      in if ret then
           prefix\<lparr>curr_validlft := min valid (curr_validlft prefix),
                  curr_preferredlft := min preferred (curr_preferredlft prefix)\<rparr>
         else prefix)"

text \<open>The current lifetimes never exceed the configured ones.\<close>

definition prefix_ok :: "AdvPrefix \<Rightarrow> bool" where
  "prefix_ok p \<longleftrightarrow> curr_validlft p \<le> AdvValidLifetime p \<and>
     curr_preferredlft p \<le> AdvPreferredLifetime p \<and>
     (curr_preferredlft p \<le> curr_validlft p)"

subsection \<open>Decrement\<close>

lemma uint_decrement_lifetime:
  assumes "0 \<le> secs"
  shows "uint (decrement_lifetime secs l) = max 0 (uint l - secs)"
proof (cases "secs < uint l")
  case True
  then have "uint (word_of_int secs :: u32) = secs"
    using assms uint_bounded [of l] by (simp add: uint_word_of_int_eq take_bit_int_eq_self)
  with True have "uint (l - word_of_int secs) = uint l - secs"
    by (subst uint_sub_lem [THEN iffD1]) (simp_all add: word_le_def)
  with True show ?thesis by (simp add: decrement_lifetime_def)
qed (simp add: decrement_lifetime_def)

lemma decrement_lifetime_le: "0 \<le> secs \<Longrightarrow> decrement_lifetime secs l \<le> l"
  using uint_decrement_lifetime [of secs l] by (simp add: word_le_def)

lemma decrement_lifetime_mono:
  "0 \<le> secs \<Longrightarrow> l \<le> l' \<Longrightarrow> decrement_lifetime secs l \<le> decrement_lifetime secs l'"
  by (auto simp: word_le_def uint_decrement_lifetime)

lemma decrement_lifetime_add:
  "0 \<le> s \<Longrightarrow> 0 \<le> t \<Longrightarrow>
     decrement_lifetime t (decrement_lifetime s l) = decrement_lifetime (s + t) l"
  by (rule word_uint_eqI) (simp add: uint_decrement_lifetime)

lemma decrement_lifetime_0 [simp]: "decrement_lifetime 0 l = l"
  by (rule word_uint_eqI) (simp add: uint_decrement_lifetime)

lemma update_prefix_times_ok:
  "0 \<le> secs \<Longrightarrow> prefix_ok p \<Longrightarrow> prefix_ok (update_prefix_times c secs p)"
  unfolding prefix_ok_def update_prefix_times_def
  by (auto simp: decrement_lifetime_mono intro: order_trans [OF decrement_lifetime_le])

subsection \<open>The lifetimes the kernel reports\<close>

lemma limit_prefix_lifetimes_le:
  "curr_validlft (limit_prefix_lifetimes k p) \<le> curr_validlft p"
  "curr_preferredlft (limit_prefix_lifetimes k p) \<le> curr_preferredlft p"
  by (auto simp: limit_prefix_lifetimes_def Let_def split: prod.splits)

lemma limit_prefix_lifetimes_frame [frame_simps]:
  "Prefix (limit_prefix_lifetimes k p) = Prefix p"
  "PrefixLen (limit_prefix_lifetimes k p) = PrefixLen p"
  "AdvOnLinkFlag (limit_prefix_lifetimes k p) = AdvOnLinkFlag p"
  "AdvAutonomousFlag (limit_prefix_lifetimes k p) = AdvAutonomousFlag p"
  "DeprecatePrefixFlag (limit_prefix_lifetimes k p) = DeprecatePrefixFlag p"
  by (auto simp: limit_prefix_lifetimes_def Let_def split: prod.splits)

end
