(* ===== verification/Safe_Buffer.thy ===== *)
theory Safe_Buffer
  imports Prelude
begin

text \<open>
  The growable byte buffers of \<^verbatim>\<open>util.c\<close>, in which every Router Advertisement is assembled.

  A buffer cell is \<open>None\<close> while the program has not written it: \<^verbatim>\<open>realloc\<close> returns cells of
  indeterminate value. Allocation is taken to succeed, as the sources do (the results of
  \<^verbatim>\<open>malloc\<close> and \<^verbatim>\<open>realloc\<close> are not checked). A \<^verbatim>\<open>size_t\<close> is a natural number: all sizes are those
  of live objects and the capacity is capped at 64 KiB, so no sum of two of them wraps.
  The list of buffers is the list from its root to its tail, and the pointer the option builders
  pass around is always the tail, so an operation on it is an operation on the last buffer.
\<close>

subsection \<open>Definitions\<close>

record safe_buffer =
  should_free :: bool
  allocated :: nat
  used :: nat
  buffer :: "byte option list"

definition SAFE_BUFFER_INIT :: safe_buffer where
  "SAFE_BUFFER_INIT = \<lparr>should_free = False, allocated = 0, used = 0, buffer = []\<rparr>"

definition new_safe_buffer :: safe_buffer where
  "new_safe_buffer = SAFE_BUFFER_INIT\<lparr>should_free := True\<rparr>"

text \<open>The C library on memory: the kept prefix and the fresh cells, and a copy at an offset.\<close>

definition realloc :: "byte option list \<Rightarrow> nat \<Rightarrow> byte option list" where
  "realloc p n = take n p @ replicate (n - length p) None"

definition memcpy_at :: "byte option list \<Rightarrow> nat \<Rightarrow> byte list \<Rightarrow> byte option list" where
  "memcpy_at p off m = take off p @ map Some m @ drop (off + length m) p"

definition safe_buffer_resize :: "safe_buffer \<Rightarrow> nat \<Rightarrow> safe_buffer option" where
  "safe_buffer_resize sb n =
     (if allocated sb < n then
        let blocksize = 64;
            n = (if n mod blocksize > 0 then (n OR (blocksize - 1)) + 1 else n)
        in if n > 64 * 1024 then None
           else Some (sb\<lparr>allocated := n, buffer := realloc (buffer sb) n\<rparr>)
      else Some sb)"

definition safe_buffer_pad :: "safe_buffer \<Rightarrow> nat \<Rightarrow> (nat \<times> safe_buffer) option" where
  "safe_buffer_pad sb count = do {
     sb \<leftarrow> safe_buffer_resize sb (used sb + count);
     let sb = sb\<lparr>buffer := memcpy_at (buffer sb) (used sb) (replicate count 0)\<rparr>;
     Some (count, sb\<lparr>used := used sb + count\<rparr>)
   }"

definition safe_buffer_append :: "safe_buffer \<Rightarrow> byte list \<Rightarrow> (nat \<times> safe_buffer) option" where
  "safe_buffer_append sb m = do {
     sb \<leftarrow> safe_buffer_resize sb (used sb + length m);
     let sb = sb\<lparr>buffer := memcpy_at (buffer sb) (used sb) m\<rparr>;
     Some (length m, sb\<lparr>used := used sb + length m\<rparr>)
   }"

type_synonym safe_buffer_list = "safe_buffer list"

definition new_safe_buffer_list :: safe_buffer_list where
  "new_safe_buffer_list = [new_safe_buffer]"

definition safe_buffer_list_append :: "safe_buffer_list \<Rightarrow> safe_buffer_list" where
  "safe_buffer_list_append sbl =
     (if used (last sbl) > 0 then sbl @ new_safe_buffer_list else sbl)"

fun safe_buffer_list_to_safe_buffer ::
    "safe_buffer_list \<Rightarrow> safe_buffer \<Rightarrow> safe_buffer option" where
  "safe_buffer_list_to_safe_buffer [] sb = Some sb"
| "safe_buffer_list_to_safe_buffer (cur # rest) sb = do {
     (_, sb) \<leftarrow> safe_buffer_append sb (map the (take (used cur) (buffer cur)));
     safe_buffer_list_to_safe_buffer rest sb
   }"

text \<open>The bytes a buffer holds, and the invariant every operation keeps.\<close>

definition contents :: "safe_buffer \<Rightarrow> byte list" where
  "contents sb = map the (take (used sb) (buffer sb))"

definition sb_inv :: "safe_buffer \<Rightarrow> bool" where
  "sb_inv sb \<longleftrightarrow> length (buffer sb) = allocated sb \<and> used sb \<le> allocated sb \<and>
     None \<notin> set (take (used sb) (buffer sb)) \<and> allocated sb \<le> 64 * 1024 \<and> 64 dvd allocated sb"

subsection \<open>The rounding of a capacity\<close>

lemma or_63_Suc: "(n OR 63) + 1 = 64 * (n div 64 + 1)" for n :: nat
proof -
  have "n OR 63 = n OR mask 6"
    by (simp add: mask_numeral)
  also have "\<dots> = push_bit 6 (drop_bit 6 n) + mask 6"
    by (simp add: bit_eq_iff disjunctive_add bit_simps) (auto simp: bit_simps)
  finally show ?thesis
    by (simp add: push_bit_eq_mult drop_bit_eq_div mask_eq_exp_minus_1)
qed

text \<open>The capacity that a request is rounded to: the next multiple of 64.\<close>

lemma resize_rounding:
  fixes n :: nat
  defines "m \<equiv> (if n mod 64 > 0 then (n OR 63) + 1 else n)"
  shows "64 dvd m" and "n \<le> m" and "m < n + 64"
proof -
  define q r where "q = n div 64" and "r = n mod 64"
  then have "n = 64 * q + r" "r < 64" by simp_all
  moreover have "m = (if r > 0 then 64 * (q + 1) else n)"
    unfolding m_def or_63_Suc q_def r_def by (rule refl)
  ultimately show "n \<le> m" "m < n + 64"
    by (cases "r > 0"; simp)+
  show "64 dvd m"
    unfolding m_def or_63_Suc by (auto simp: mod_eq_0_iff_dvd)
qed

subsection \<open>The contract of a byte buffer\<close>

text \<open>
  What a client that assembles a message relies on: a buffer holds a sequence of bytes, an append
  extends it as long as the capacity is not exceeded, and ends the process otherwise.
  \<open>writes b m r\<close> says that the computation with the result \<open>r\<close> appended exactly \<open>m\<close> to \<open>b\<close>.
\<close>

locale byte_buffer =
  fixes inv :: "'b \<Rightarrow> bool"
    and bytes :: "'b \<Rightarrow> byte list"
    and append :: "'b \<Rightarrow> byte list \<Rightarrow> (nat \<times> 'b) option"
    and cap :: nat
  assumes append_fits: "inv b \<Longrightarrow> length (bytes b) + length m \<le> cap \<Longrightarrow>
      \<exists>b'. append b m = Some (length m, b') \<and> inv b' \<and> bytes b' = bytes b @ m"
    and append_full: "inv b \<Longrightarrow> cap < length (bytes b) + length m \<Longrightarrow> append b m = None"
begin

definition writes :: "'b \<Rightarrow> byte list \<Rightarrow> 'b option \<Rightarrow> bool" where
  "writes b m r \<longleftrightarrow>
     (if length (bytes b) + length m \<le> cap
      then (\<exists>b'. r = Some b' \<and> inv b' \<and> bytes b' = bytes b @ m)
      else r = None)"

lemma writes_return: "inv b \<Longrightarrow> length (bytes b) \<le> cap \<Longrightarrow> writes b [] (Some b)"
  by (simp add: writes_def)

lemma writes_fits:
  assumes "writes b m r" and "length (bytes b) + length m \<le> cap"
  obtains b' where "r = Some b'" and "inv b'" and "bytes b' = bytes b @ m"
  using assms by (auto simp: writes_def)

lemma writes_Some:
  "writes b m (Some b') \<Longrightarrow> inv b' \<and> bytes b' = bytes b @ m \<and> length (bytes b') \<le> cap"
  by (auto simp: writes_def split: if_splits)

text \<open>An append, followed by the rest of the builder.\<close>

lemma writes_append_bind:
  assumes b: "inv b"
    and rest: "\<And>b'. inv b' \<Longrightarrow> length (bytes b') \<le> cap \<Longrightarrow> writes b' m' (f b')"
  shows "writes b (m @ m') (append b m \<bind> (\<lambda>(_, b'). f b'))"
proof (cases "length (bytes b) + length m \<le> cap")
  case True
  with append_fits [OF b, of m] obtain b' where
    b': "append b m = Some (length m, b')" "inv b'" "bytes b' = bytes b @ m"
    by auto
  with True rest [of b'] show ?thesis
    by (simp add: writes_def add.assoc split: if_splits)
next
  case False
  with append_full [OF b, of m] show ?thesis
    by (simp add: writes_def)
qed

lemma writes_append:
  "inv b \<Longrightarrow> writes b m (append b m \<bind> (\<lambda>(_, b'). Some b'))"
  using writes_append_bind [of b "[]" Some m] by (simp add: writes_return)

end

subsection \<open>The safe buffer meets the contract\<close>

lemma new_safe_buffer_simps [simp]:
  "used new_safe_buffer = 0" "contents new_safe_buffer = []" "sb_inv new_safe_buffer"
  by (simp_all add: new_safe_buffer_def SAFE_BUFFER_INIT_def contents_def sb_inv_def)

lemma SAFE_BUFFER_INIT_simps [simp]:
  "contents SAFE_BUFFER_INIT = []" "sb_inv SAFE_BUFFER_INIT"
  by (simp_all add: SAFE_BUFFER_INIT_def contents_def sb_inv_def)

lemma length_contents [simp]: "sb_inv sb \<Longrightarrow> length (contents sb) = used sb"
  by (simp add: contents_def sb_inv_def)

lemma used_le_cap: "sb_inv sb \<Longrightarrow> used sb \<le> 65536"
  by (simp add: sb_inv_def)

lemma map_Some_the: "None \<notin> set xs \<Longrightarrow> map (Some \<circ> the) xs = xs"
  by (rule map_idI) (metis comp_apply option.collapse)

lemma contents_cells: "sb_inv sb \<Longrightarrow> take (used sb) (buffer sb) = map Some (contents sb)"
  by (simp add: sb_inv_def contents_def map_Some_the)

lemma resize_keeps:
  assumes inv: "sb_inv sb" and n: "n \<le> 65536"
  obtains sb' where "safe_buffer_resize sb n = Some sb'" and "sb_inv sb'"
    and "used sb' = used sb" and "contents sb' = contents sb" and "n \<le> allocated sb'"
proof (cases "allocated sb < n")
  case False
  then show ?thesis
    using that [of sb] inv by (simp add: safe_buffer_resize_def)
next
  case True
  define m where "m = (if n mod 64 > 0 then (n OR 63) + 1 else n)"
  have m: "64 dvd m" "n \<le> m" "m < n + 64"
    unfolding m_def by (rule resize_rounding)+
  have "m \<le> 65536"
    using m n by (auto simp: dvd_def)
  let ?sb = "sb\<lparr>allocated := m, buffer := realloc (buffer sb) m\<rparr>"
  have "safe_buffer_resize sb n = Some ?sb"
    using True \<open>m \<le> 65536\<close> by (simp add: safe_buffer_resize_def m_def Let_def split: if_splits)
  moreover have "take (used sb) (realloc (buffer sb) m) = take (used sb) (buffer sb)"
    using inv True m by (simp add: realloc_def sb_inv_def)
  ultimately show ?thesis
    using that [of ?sb] inv True m \<open>m \<le> 65536\<close>
    by (simp add: sb_inv_def contents_def realloc_def)
qed

lemma resize_exits: "sb_inv sb \<Longrightarrow> 65536 < n \<Longrightarrow> safe_buffer_resize sb n = None"
  using resize_rounding(2) [of n] by (auto simp: safe_buffer_resize_def sb_inv_def Let_def)

text \<open>Copying bytes to the end of the used part of a large enough buffer.\<close>

lemma memcpy_at_used:
  assumes inv: "sb_inv sb" and room: "used sb + length m \<le> allocated sb"
  defines "sb' \<equiv> sb\<lparr>buffer := memcpy_at (buffer sb) (used sb) m, used := used sb + length m\<rparr>"
  shows "sb_inv sb'" and "contents sb' = contents sb @ m"
proof -
  have *: "take (used sb + length m) (memcpy_at (buffer sb) (used sb) m) =
      take (used sb) (buffer sb) @ map Some m"
    using inv room by (simp add: memcpy_at_def sb_inv_def)
  show "contents sb' = contents sb @ m"
    unfolding sb'_def contents_def by (simp add: * comp_def)
  show "sb_inv sb'"
    using inv room unfolding sb'_def sb_inv_def by (auto simp: * memcpy_at_def)
qed

lemma safe_buffer_append_fits:
  assumes inv: "sb_inv sb" and room: "used sb + length m \<le> 65536"
  shows "\<exists>sb'. safe_buffer_append sb m = Some (length m, sb') \<and> sb_inv sb' \<and>
    contents sb' = contents sb @ m"
proof -
  from resize_keeps [OF inv room] obtain sb1 where
    sb1: "safe_buffer_resize sb (used sb + length m) = Some sb1" "sb_inv sb1"
      "used sb1 = used sb" "contents sb1 = contents sb" "used sb + length m \<le> allocated sb1" .
  with memcpy_at_used [of sb1 m] show ?thesis
    by (simp add: safe_buffer_append_def)
qed

lemma safe_buffer_append_full:
  "sb_inv sb \<Longrightarrow> 65536 < used sb + length m \<Longrightarrow> safe_buffer_append sb m = None"
  by (simp add: safe_buffer_append_def resize_exits)

interpretation sb: byte_buffer sb_inv contents safe_buffer_append 65536
  by unfold_locales (use safe_buffer_append_fits safe_buffer_append_full in auto)

lemma safe_buffer_pad_append: "safe_buffer_pad sb n = safe_buffer_append sb (replicate n 0)"
  by (simp add: safe_buffer_pad_def safe_buffer_append_def)

text \<open>A reservation of exactly what is written next changes nothing but the capacity.\<close>

lemma writes_reserve:
  assumes inv: "sb_inv sb" and n: "n = used sb + length m"
    and rest: "\<And>sb'. sb_inv sb' \<Longrightarrow> sb.writes sb' m (f sb')"
  shows "sb.writes sb m (safe_buffer_resize sb n \<bind> f)"
proof (cases "n \<le> 65536")
  case True
  from resize_keeps [OF inv True] obtain sb' where
    sb': "safe_buffer_resize sb n = Some sb'" "sb_inv sb'" "contents sb' = contents sb" .
  with rest [of sb'] show ?thesis
    by (auto simp: sb.writes_def simp del: length_contents split: if_splits)
next
  case False
  with inv n show ?thesis
    by (simp add: resize_exits sb.writes_def)
qed

subsection \<open>Lists of buffers\<close>

definition sbl_inv :: "safe_buffer_list \<Rightarrow> bool" where
  "sbl_inv sbl \<longleftrightarrow> sbl \<noteq> [] \<and> (\<forall>sb \<in> set sbl. sb_inv sb)"

text \<open>The blocks a list holds: the contents of its buffers, the empty ones left out.\<close>

definition blocks :: "safe_buffer_list \<Rightarrow> byte list list" where
  "blocks sbl = filter (\<lambda>m. m \<noteq> []) (map contents sbl)"

lemma new_safe_buffer_list_simps [simp]:
  "sbl_inv new_safe_buffer_list" "blocks new_safe_buffer_list = []"
  by (simp_all add: sbl_inv_def blocks_def new_safe_buffer_list_def)

lemma sbl_inv_append [simp]: "sbl_inv sbl \<Longrightarrow> sbl_inv (sbl @ new_safe_buffer_list)"
  by (auto simp: sbl_inv_def new_safe_buffer_list_def)

lemma blocks_append [simp]: "blocks (xs @ ys) = blocks xs @ blocks ys"
  by (simp add: blocks_def)

text \<open>The tail of the list after \<open>safe_buffer_list_append\<close> is an empty buffer.\<close>

lemma safe_buffer_list_append_tail:
  assumes "sbl_inv sbl"
  shows "sbl_inv (safe_buffer_list_append sbl)"
    and "contents (last (safe_buffer_list_append sbl)) = []"
    and "blocks (safe_buffer_list_append sbl) = blocks sbl"
    and "blocks (butlast (safe_buffer_list_append sbl)) = blocks sbl"
proof -
  let ?t = "safe_buffer_list_append sbl"
  show inv: "sbl_inv ?t"
    using assms by (simp add: safe_buffer_list_append_def)
  have last: "sb_inv (last sbl)" "sbl \<noteq> []"
    using assms by (simp_all add: sbl_inv_def)
  show c: "contents (last ?t) = []"
    using last length_contents [of "last sbl"]
    by (auto simp: safe_buffer_list_append_def new_safe_buffer_list_def simp del: length_contents)
  show "blocks ?t = blocks sbl"
    by (simp add: safe_buffer_list_append_def)
  moreover have "blocks ?t = blocks (butlast ?t) @ blocks [last ?t]"
    using inv by (subst append_butlast_last_id [symmetric], simp add: sbl_inv_def)
      (simp del: append_butlast_last_id)
  ultimately show "blocks (butlast ?t) = blocks sbl"
    using c by (simp add: blocks_def)
qed

text \<open>Writing one option into the tail of the list.\<close>

definition sbl_update_last :: "(safe_buffer \<Rightarrow> safe_buffer option) \<Rightarrow> safe_buffer_list \<Rightarrow>
    safe_buffer_list option" where
  "sbl_update_last f sbl = map_option (\<lambda>sb. butlast sbl @ [sb]) (f (last sbl))"

lemma sbl_write_tail:
  assumes inv: "sbl_inv sbl" and empty: "contents (last sbl) = []" and m: "length m \<le> 65536"
    and w: "\<And>sb. sb_inv sb \<Longrightarrow> sb.writes sb m (f sb)"
  obtains sbl' where "sbl_update_last f sbl = Some sbl'" and "sbl_inv sbl'"
    and "map contents sbl' = map contents (butlast sbl) @ [m]"
proof -
  have last: "sb_inv (last sbl)"
    using inv by (simp add: sbl_inv_def)
  from sb.writes_fits [OF w [OF last]] empty m obtain sb' where
    "f (last sbl) = Some sb'" "sb_inv sb'" "contents sb' = m"
    by auto
  moreover have "\<forall>sb \<in> set (butlast sbl). sb_inv sb"
    using inv by (auto simp: sbl_inv_def dest: in_set_butlastD)
  ultimately show ?thesis
    using that [of "butlast sbl @ [sb']"] by (simp add: sbl_update_last_def sbl_inv_def)
qed

end
