(* ===== verification/Ra_Options.thy ===== *)
theory Ra_Options
  imports Safe_Buffer Prefix_Lifetimes
begin

text \<open>
  The options of a Router Advertisement as \<^verbatim>\<open>send.c\<close> lays them out: the header and the options
  that take a single block. Each builder fills a struct, whose memory image is the byte list
  \<open>..._image\<close> (fields in their order, integers in network byte order, reserved fields zero as
  \<^verbatim>\<open>memset\<close> leaves them), and appends that image to a safe buffer.
\<close>

subsection \<open>Definitions\<close>

definition c_flag :: "bool \<Rightarrow> byte \<Rightarrow> byte" where
  "c_flag b f = (if b then f else 0)"

text \<open>\<^verbatim>\<open>(preference << ND_OPT_RI_PRF_SHIFT) & ND_OPT_RI_PRF_MASK\<close>, stored in a byte.\<close>

definition preference_bits :: "int \<Rightarrow> byte" where
  "preference_bits p = word_of_int (push_bit 3 p AND ND_OPT_RI_PRF_MASK)"

definition ra_header_image :: "ra_header_info \<Rightarrow> bool \<Rightarrow> byte list" where
  "ra_header_image info cease =
     [ND_ROUTER_ADVERT, 0, 0, 0, AdvCurHopLimit info,
      c_flag (AdvManagedFlag info) ND_RA_FLAG_MANAGED OR
      c_flag (AdvOtherConfigFlag info) ND_RA_FLAG_OTHER OR
      c_flag (AdvHomeAgentFlag info) ND_RA_FLAG_HOME_AGENT OR
      c_flag (AdvSNACRouterFlag info) ND_RA_FLAG_SNAC_ROUTER OR
      preference_bits (AdvDefaultPreference info)] @
     (if cease then [0, 0] else htons (word_of_int (AdvDefaultLifetime info))) @
     htonl (AdvReachableTime info) @ htonl (AdvRetransTimer info)"

definition add_ra_header :: "safe_buffer \<Rightarrow> ra_header_info \<Rightarrow> bool \<Rightarrow> safe_buffer option" where
  "add_ra_header sb info cease = do {
     (_, sb) \<leftarrow> safe_buffer_append sb (ra_header_image info cease);
     Some sb
   }"

definition prefix_option_image :: "AdvPrefix \<Rightarrow> bool \<Rightarrow> byte list" where
  "prefix_option_image prefix cease =
     [ND_OPT_PREFIX_INFORMATION, 4, PrefixLen prefix,
      c_flag (AdvOnLinkFlag prefix) ND_OPT_PI_FLAG_ONLINK OR
      c_flag (AdvAutonomousFlag prefix) ND_OPT_PI_FLAG_AUTO OR
      c_flag (AdvRouterAddr prefix) ND_OPT_PI_FLAG_RADDR OR
      c_flag (AdvDHCPv6PDPreferredFlag prefix) ND_OPT_PI_FLAG_DHCPv6_PD_PREF] @
     (if cease \<and> DeprecatePrefixFlag prefix then
        (if curr_validlft prefix < MIN_AdvValidLifetime then htonl (curr_validlft prefix)
         else htonl MIN_AdvValidLifetime) @ [0, 0, 0, 0]
      else htonl (curr_validlft prefix) @ htonl (curr_preferredlft prefix)) @
     [0, 0, 0, 0] @ s6_addr (Prefix prefix)"

definition add_ra_option_prefix :: "safe_buffer \<Rightarrow> AdvPrefix \<Rightarrow> bool \<Rightarrow> safe_buffer option" where
  "add_ra_option_prefix sb prefix cease = do {
     (_, sb) \<leftarrow> safe_buffer_append sb (prefix_option_image prefix cease);
     Some sb
   }"

definition prefix_length_code :: "byte \<Rightarrow> byte" where
  "prefix_length_code len =
     (if len = 96 then 0 else if len = 64 then 1 else if len = 56 then 2 else if len = 48 then 3
      else if len = 40 then 4 else if len = 32 then 5 else 0)"

definition nat64prefix_option_image :: "NAT64Prefix \<Rightarrow> byte list" where
  "nat64prefix_option_image prefix =
     [ND_OPT_PREF64, 2] @
     htons (ucast (((NAT64_curr_validlft prefix + 7) AND 0xFFF8) OR
        (ucast (prefix_length_code (NAT64_PrefixLen prefix)) AND 0x7))) @
     take 12 (s6_addr (NAT64_Prefix prefix))"

definition add_ra_option_nat64prefix :: "safe_buffer \<Rightarrow> NAT64Prefix \<Rightarrow> safe_buffer option" where
  "add_ra_option_nat64prefix sb prefix = do {
     (_, sb) \<leftarrow> safe_buffer_append sb (nat64prefix_option_image prefix);
     Some sb
   }"

text \<open>\<^verbatim>\<open>nd_opt_ri_len\<close> stays 0 for a prefix length above 128, and nothing is appended then.\<close>

definition route_option_len :: "byte \<Rightarrow> byte" where
  "route_option_len plen =
     (if plen = 0 then 1 else if plen > 0 \<and> plen \<le> 64 then 2
      else if plen > 64 \<and> plen \<le> 128 then 3 else 0)"

definition route_info_image :: "AdvRoute \<Rightarrow> bool \<Rightarrow> byte list" where
  "route_info_image route cease =
     [ND_OPT_ROUTE_INFORMATION, route_option_len (Route_PrefixLen route), Route_PrefixLen route,
      preference_bits (AdvRoutePreference route)] @
     (if cease \<and> RemoveRouteFlag route then [0, 0, 0, 0] else htonl (AdvRouteLifetime route)) @
     s6_addr (Route_Prefix route)"

definition add_ra_option_route :: "safe_buffer \<Rightarrow> AdvRoute \<Rightarrow> bool \<Rightarrow> safe_buffer option" where
  "add_ra_option_route sb route cease = do {
     (_, sb) \<leftarrow> safe_buffer_append sb
        (take (unat (route_option_len (Route_PrefixLen route)) * 8) (route_info_image route cease));
     Some sb
   }"

text \<open>\<^verbatim>\<open>if_hwaddr_len\<close> is in bits; the builder is called when it is positive.\<close>

definition add_ra_option_sllao :: "safe_buffer \<Rightarrow> sllao \<Rightarrow> safe_buffer option" where
  "add_ra_option_sllao sb s = do {
     let sllao_bytes = nat (if_hwaddr_len s) div 8 + 2;
     let sllao_len = (sllao_bytes + 7) div 8;
     (_, sb) \<leftarrow> safe_buffer_append sb [ND_OPT_SOURCE_LINKADDR, word_of_nat sllao_len];
     (_, sb) \<leftarrow> safe_buffer_append sb (take (nat (if_hwaddr_len s) div 8) (if_hwaddr s));
     (_, sb) \<leftarrow> safe_buffer_pad sb (sllao_len * 8 - sllao_bytes);
     Some sb
   }"

definition mtu_option_image :: "u32 \<Rightarrow> byte list" where
  "mtu_option_image mtu = [ND_OPT_MTU, 1, 0, 0] @ htonl mtu"

definition add_ra_option_mtu :: "safe_buffer \<Rightarrow> u32 \<Rightarrow> safe_buffer option" where
  "add_ra_option_mtu sb mtu = do {
     (_, sb) \<leftarrow> safe_buffer_append sb (mtu_option_image mtu);
     Some sb
   }"

definition rtr_adv_interval_msecs :: "rat \<Rightarrow> u32" where
  "rtr_adv_interval_msecs ival =
     (if ival < Cautious_MaxRtrAdvInterval
      then word_of_int (c_trunc (1000 * (ival + Cautious_MaxRtrAdvInterval_Leeway)))
      else word_of_int (c_trunc (1000 * ival)))"

definition rtr_adv_interval_image :: "rat \<Rightarrow> byte list" where
  "rtr_adv_interval_image ival =
     [ND_OPT_RTR_ADV_INTERVAL, 1, 0, 0] @ htonl (rtr_adv_interval_msecs ival)"

definition add_ra_option_mipv6_rtr_adv_interval :: "safe_buffer \<Rightarrow> rat \<Rightarrow> safe_buffer option" where
  "add_ra_option_mipv6_rtr_adv_interval sb ival = do {
     (_, sb) \<leftarrow> safe_buffer_append sb (rtr_adv_interval_image ival);
     Some sb
   }"

text \<open>\<^verbatim>\<open>ND_OPT_HAI_FLAG_SUPPORT_MR\<close> is chosen per byte order so that its image is 0x80, 0x00.\<close>

definition home_agent_info_image :: "mipv6 \<Rightarrow> byte list" where
  "home_agent_info_image m =
     [ND_OPT_HOME_AGENT_INFO, 1, c_flag (AdvMobRtrSupportFlag m) 0x80, 0] @
     htons (HomeAgentPreference m) @ htons (word_of_int (HomeAgentLifetime m))"

definition add_ra_option_mipv6_home_agent_info :: "safe_buffer \<Rightarrow> mipv6 \<Rightarrow> safe_buffer option" where
  "add_ra_option_mipv6_home_agent_info sb m = do {
     (_, sb) \<leftarrow> safe_buffer_append sb (home_agent_info_image m);
     Some sb
   }"

definition lowpanco_image :: "AdvLowpanCo \<Rightarrow> byte list" where
  "lowpanco_image co =
     [ND_OPT_6CO, 3, ContextLength co,
      push_bit 4 (if ContextCompressionFlag co then 1 else 0) OR (AdvContextID co AND 0x0F), 0, 0] @
     htons (AdvLifeTime co) @ s6_addr (AdvContextPrefix co)"

definition add_ra_option_lowpanco :: "safe_buffer \<Rightarrow> AdvLowpanCo \<Rightarrow> safe_buffer option" where
  "add_ra_option_lowpanco sb co = do {
     (_, sb) \<leftarrow> safe_buffer_append sb (lowpanco_image co);
     Some sb
   }"

definition abro_image :: "AdvAbro \<Rightarrow> byte list" where
  "abro_image a =
     [ND_OPT_ABRO, 3] @ htons (Version1 a) @ htons (Version0 a) @ htons (ValidLifeTime a) @
     s6_addr (LBRaddress a)"

definition add_ra_option_abro :: "safe_buffer \<Rightarrow> AdvAbro \<Rightarrow> safe_buffer option" where
  "add_ra_option_abro sb a = do {
     (_, sb) \<leftarrow> safe_buffer_append sb (abro_image a);
     Some sb
   }"

definition string_bytes :: "string \<Rightarrow> byte list" where
  "string_bytes s = map of_char s"

definition add_ra_option_capport :: "safe_buffer \<Rightarrow> string \<Rightarrow> safe_buffer option" where
  "add_ra_option_capport sb captive_portal = do {
     let capport_strlen = length captive_portal;
     let capport_bytes = capport_strlen + 2;
     let capport_len = (capport_bytes + 7) div 8;
     (_, sb) \<leftarrow> safe_buffer_append sb [ND_OPT_CAPTIVE_PORTAL, word_of_nat capport_len];
     (_, sb) \<leftarrow> safe_buffer_append sb (string_bytes captive_portal);
     (_, sb) \<leftarrow> safe_buffer_pad sb (capport_len * 8 - capport_bytes);
     Some sb
   }"

subsection \<open>What the builders append\<close>

text \<open>An option is well formed on the wire when its second byte counts its groups of 8 bytes.\<close>

definition nd_opt_wf :: "byte list \<Rightarrow> bool" where
  "nd_opt_wf m \<longleftrightarrow> 2 \<le> length m \<and> m ! 1 \<noteq> 0 \<and> length m = 8 * unat (m ! 1)"

definition sllao_option_image :: "sllao \<Rightarrow> byte list" where
  "sllao_option_image s =
     (let n = nat (if_hwaddr_len s) div 8; len = (n + 2 + 7) div 8
      in [ND_OPT_SOURCE_LINKADDR, word_of_nat len] @ take n (if_hwaddr s) @
         replicate (len * 8 - (n + 2)) 0)"

definition capport_option_image :: "string \<Rightarrow> byte list" where
  "capport_option_image s =
     (let len = (length s + 2 + 7) div 8
      in [ND_OPT_CAPTIVE_PORTAL, word_of_nat len] @ string_bytes s @
         replicate (len * 8 - (length s + 2)) 0)"

lemma length_string_bytes [simp]: "length (string_bytes s) = length s"
  by (simp add: string_bytes_def)

lemmas option_builder_defs =
  add_ra_header_def add_ra_option_prefix_def add_ra_option_nat64prefix_def
  add_ra_option_mtu_def add_ra_option_mipv6_rtr_adv_interval_def
  add_ra_option_mipv6_home_agent_info_def add_ra_option_lowpanco_def add_ra_option_abro_def
  add_ra_option_route_def

lemma single_block_writes:
  assumes "sb_inv sb"
  shows "sb.writes sb (ra_header_image info cease) (add_ra_header sb info cease)"
    and "sb.writes sb (prefix_option_image p cease) (add_ra_option_prefix sb p cease)"
    and "sb.writes sb (nat64prefix_option_image n) (add_ra_option_nat64prefix sb n)"
    and "sb.writes sb (take (unat (route_option_len (Route_PrefixLen r)) * 8) (route_info_image r cease))
      (add_ra_option_route sb r cease)"
    and "sb.writes sb (mtu_option_image mtu) (add_ra_option_mtu sb mtu)"
    and "sb.writes sb (rtr_adv_interval_image x) (add_ra_option_mipv6_rtr_adv_interval sb x)"
    and "sb.writes sb (home_agent_info_image m) (add_ra_option_mipv6_home_agent_info sb m)"
    and "sb.writes sb (lowpanco_image co) (add_ra_option_lowpanco sb co)"
    and "sb.writes sb (abro_image a) (add_ra_option_abro sb a)"
  using sb.writes_append [OF assms] by (simp_all add: option_builder_defs)

text \<open>A type and length byte, the value and the padding make one write.\<close>

lemma tlv_padded_writes:
  assumes "sb_inv sb"
  shows "sb.writes sb (hdr @ val @ replicate n 0)
    (safe_buffer_append sb hdr \<bind> (\<lambda>(_, sb). safe_buffer_append sb val \<bind>
       (\<lambda>(_, sb). safe_buffer_pad sb n \<bind> (\<lambda>(_, sb). Some sb))))"
  unfolding safe_buffer_pad_append by (intro sb.writes_append_bind sb.writes_append assms)

lemma sllao_writes:
  "sb_inv sb \<Longrightarrow> sb.writes sb (sllao_option_image s) (add_ra_option_sllao sb s)"
  unfolding add_ra_option_sllao_def sllao_option_image_def Let_def by (rule tlv_padded_writes)

lemma capport_writes:
  "sb_inv sb \<Longrightarrow> sb.writes sb (capport_option_image s) (add_ra_option_capport sb s)"
  unfolding add_ra_option_capport_def capport_option_image_def Let_def by (rule tlv_padded_writes)

subsection \<open>Lengths on the wire\<close>

lemma image_lengths [simp]:
  "length (ra_header_image info cease) = 16"
  "length (prefix_option_image p cease) = 32"
  "length (nat64prefix_option_image n) = 16"
  "length (route_info_image r cease) = 24"
  "length (mtu_option_image mtu) = 8"
  "length (rtr_adv_interval_image x) = 8"
  "length (home_agent_info_image m) = 8"
  "length (lowpanco_image co) = 24"
  "length (abro_image a) = 24"
  by (simp_all add: ra_header_image_def prefix_option_image_def nat64prefix_option_image_def
      route_info_image_def mtu_option_image_def rtr_adv_interval_image_def
      home_agent_info_image_def lowpanco_image_def abro_image_def)

lemma fixed_options_wf:
  "nd_opt_wf (prefix_option_image p cease)"
  "nd_opt_wf (nat64prefix_option_image n)"
  "nd_opt_wf (mtu_option_image mtu)"
  "nd_opt_wf (rtr_adv_interval_image x)"
  "nd_opt_wf (home_agent_info_image m)"
  "nd_opt_wf (lowpanco_image co)"
  "nd_opt_wf (abro_image a)"
  by (simp_all add: nd_opt_wf_def)
     (simp_all add: prefix_option_image_def nat64prefix_option_image_def mtu_option_image_def
      rtr_adv_interval_image_def home_agent_info_image_def lowpanco_image_def abro_image_def)

lemma route_option_wf:
  assumes "Route_PrefixLen r \<le> 128"
  shows "nd_opt_wf (take (unat (route_option_len (Route_PrefixLen r)) * 8) (route_info_image r cease))"
proof -
  have "route_option_len (Route_PrefixLen r) \<in> {1, 2, 3}"
    using assms by (auto simp: route_option_len_def word_gt_0 not_le)
  then have "unat (route_option_len (Route_PrefixLen r)) \<in> {1, 2, 3}"
    by auto
  moreover have "route_info_image r cease ! 1 = route_option_len (Route_PrefixLen r)"
    by (simp add: route_info_image_def)
  ultimately show ?thesis
    by (auto simp: nd_opt_wf_def unat_eq_0)
qed

text \<open>The length byte of a padded option: the number of 8-byte groups that hold the value.\<close>

lemma padded_option_wf:
  assumes "length val = n" and "n \<le> 2038"
  shows "nd_opt_wf ([t, word_of_nat ((n + 2 + 7) div 8)] @ val @
    replicate ((n + 2 + 7) div 8 * 8 - (n + 2)) 0)"
proof -
  define g where "g = (n + 2 + 7) div 8"
  have "g < 256" "0 < g" "n + 2 \<le> g * 8"
    using assms(2) by (simp_all add: g_def)
  then have "unat (word_of_nat g :: byte) = g"
    by (simp add: unat_of_nat take_bit_nat_eq_self)
  with \<open>0 < g\<close> \<open>n + 2 \<le> g * 8\<close> assms(1) show ?thesis
    unfolding g_def [symmetric] by (auto simp: nd_opt_wf_def unat_eq_0 [symmetric])
qed

lemma sllao_option_wf:
  "nat (if_hwaddr_len s) div 8 \<le> length (if_hwaddr s) \<Longrightarrow> length (if_hwaddr s) \<le> 2038 \<Longrightarrow>
     nd_opt_wf (sllao_option_image s)"
  using padded_option_wf [of "take (nat (if_hwaddr_len s) div 8) (if_hwaddr s)"
      "nat (if_hwaddr_len s) div 8" ND_OPT_SOURCE_LINKADDR]
  by (simp add: sllao_option_image_def Let_def)

lemma capport_option_wf: "length s \<le> 2038 \<Longrightarrow> nd_opt_wf (capport_option_image s)"
  using padded_option_wf [of "string_bytes s" "length s" ND_OPT_CAPTIVE_PORTAL]
  by (simp add: capport_option_image_def Let_def)

end
