(* ===== verification/Domain_Names.thy ===== *)
theory Domain_Names
  imports Ra_Options
begin

text \<open>
  \<open>serialize_domain_names\<close> of \<^verbatim>\<open>send.c\<close>: the search list of a DNSSL option in the encoding of
  RFC 1035, section 3.1. A label pointer is the rest of the string it points into. The loop is
  total: each turn appends at least the length byte, so the 64 KiB cap of the buffer ends it
  even where a label length of a multiple of 256 leaves the pointer in place.
\<close>

subsection \<open>Definitions\<close>

text \<open>\<^verbatim>\<open>label_len\<close> is an \<^verbatim>\<open>unsigned char\<close>.\<close>

definition label_length :: "string \<Rightarrow> byte" where
  "label_length label =
     (if CHR ''.'' \<notin> set label then word_of_nat (length label)
      else word_of_nat (length (takeWhile (\<lambda>c. c \<noteq> CHR ''.'') label)))"

text \<open>One turn of the loop: the new length, buffer and label pointer.\<close>

definition serialize_label ::
    "safe_buffer \<Rightarrow> nat \<Rightarrow> string \<Rightarrow> (nat \<times> safe_buffer \<times> string) option" where
  "serialize_label sb len label = do {
     let label_len = label_length label;
     sb \<leftarrow> safe_buffer_resize sb (used sb + 1 + unat label_len + 8);
     (n, sb) \<leftarrow> safe_buffer_append sb [label_len];
     let len = len + n;
     (n, sb) \<leftarrow> safe_buffer_append sb (string_bytes (take (unat label_len) label));
     let len = len + n;
     let label = drop (unat label_len) label;
     let label = (case label of [] \<Rightarrow> [] | c # rest \<Rightarrow> if c = CHR ''.'' then rest else label);
     if label = [] then do {
       (n, sb) \<leftarrow> safe_buffer_append sb [0];
       Some (len + n, sb, label)
     } else Some (len, sb, label)
   }"

lemma resize_Some_bounds:
  "safe_buffer_resize sb n = Some sb' \<Longrightarrow>
     used sb' = used sb \<and> n \<le> allocated sb' \<and> allocated sb' \<le> max 65536 (allocated sb)"
  using resize_rounding(2) [of n] by (auto simp: safe_buffer_resize_def Let_def split: if_splits)

lemma append_Some_bounds:
  "safe_buffer_append sb m = Some (n, sb') \<Longrightarrow>
     n = length m \<and> used sb' = used sb + length m \<and> used sb' \<le> allocated sb' \<and>
     allocated sb' \<le> max 65536 (allocated sb)"
  by (auto simp: safe_buffer_append_def bind_eq_Some_conv dest!: resize_Some_bounds)

lemma serialize_label_grows:
  assumes "serialize_label sb len label = Some (len', sb', label')"
  shows "used sb < used sb' \<and> used sb' \<le> max 65536 (allocated sb') \<and>
    max 65536 (allocated sb') \<le> max 65536 (allocated sb)"
proof -
  from assms obtain s1 n2 s2 n3 s3 where
    1: "safe_buffer_resize sb (used sb + 1 + unat (label_length label) + 8) = Some s1" and
    2: "safe_buffer_append s1 [label_length label] = Some (n2, s2)" and
    3: "safe_buffer_append s2 (string_bytes (take (unat (label_length label)) label)) = Some (n3, s3)" and
    4: "sb' = s3 \<or> (\<exists>n4. safe_buffer_append s3 [0] = Some (n4, sb'))"
    by (auto simp: serialize_label_def bind_eq_Some_conv Let_def split: if_splits)
  note bounds = resize_Some_bounds [OF 1] append_Some_bounds [OF 2] append_Some_bounds [OF 3]
  from 4 bounds show ?thesis
    by (auto dest!: append_Some_bounds simp: le_max_iff_disj)
qed

function serialize_labels ::
    "safe_buffer \<Rightarrow> nat \<Rightarrow> string \<Rightarrow> (nat \<times> safe_buffer) option" where
  "serialize_labels sb len label =
     (if label = [] then Some (len, sb)
      else do {
        (len, sb, label) \<leftarrow> serialize_label sb len label;
        serialize_labels sb len label
      })"
  by pat_completeness auto
termination
  by (relation "measure (\<lambda>(sb, len, label). Suc (max 65536 (allocated sb)) - used sb)")
     (auto dest!: serialize_label_grows)

declare serialize_labels.simps [simp del]

fun serialize_domain_names ::
    "safe_buffer \<Rightarrow> nat \<Rightarrow> string list \<Rightarrow> (nat \<times> safe_buffer) option" where
  "serialize_domain_names sb len [] = Some (len, sb)"
| "serialize_domain_names sb len (label # suffixes) = do {
     (len, sb) \<leftarrow> serialize_labels sb len label;
     serialize_domain_names sb len suffixes
   }"

text \<open>
  The specification: a name is a list of labels, written with a dot between two of them and
  possibly a last dot; on the wire every label is preceded by its length, and a zero ends the name.
\<close>

fun join_labels :: "string list \<Rightarrow> string" where
  "join_labels [] = []"
| "join_labels [l] = l"
| "join_labels (l # ls) = l @ CHR ''.'' # join_labels ls"

definition wire_name :: "string list \<Rightarrow> byte list" where
  "wire_name ls = concat (map (\<lambda>l. word_of_nat (length l) # string_bytes l) ls) @ [0]"

definition label_ok :: "string \<Rightarrow> bool" where
  "label_ok l \<longleftrightarrow> l \<noteq> [] \<and> length l \<le> 255 \<and> CHR ''.'' \<notin> set l"

subsection \<open>The loop writes the wire form\<close>

lemma label_length_ok:
  assumes "label_ok l" and "rest = [] \<or> (\<exists>r. rest = CHR ''.'' # r)"
  shows "unat (label_length (l @ rest)) = length l"
    and "label_length (l @ rest) = word_of_nat (length l)"
proof -
  have dotless: "\<And>c. c \<in> set l \<Longrightarrow> c \<noteq> CHR ''.''"
    using assms(1) by (auto simp: label_ok_def)
  show *: "label_length (l @ rest) = word_of_nat (length l)"
    using assms(2)
  proof (elim disjE exE)
    assume "rest = []"
    with dotless show ?thesis by (auto simp: label_length_def)
  next
    fix r
    assume "rest = CHR ''.'' # r"
    with takeWhile_append2 [of l "\<lambda>c. c \<noteq> CHR ''.''" rest] dotless show ?thesis
      by (simp add: label_length_def)
  qed
  show "unat (label_length (l @ rest)) = length l"
    using assms(1) unfolding * by (simp add: label_ok_def unat_of_nat take_bit_nat_eq_self)
qed

lemma serialize_label_correct:
  assumes inv: "sb_inv sb" and l: "label_ok l" and room: "used sb + length l + 9 \<le> 65536"
    and rest: "rest = [] \<or> (\<exists>r. rest = CHR ''.'' # r)"
  obtains sb' where "sb_inv sb'"
    and "serialize_label sb len (l @ rest) = Some
      (len + length l + (if tl rest = [] then 2 else 1), sb', tl rest)"
    and "contents sb' = contents sb @ (word_of_nat (length l) # string_bytes l) @
      (if tl rest = [] then [0] else [])"
proof -
  note ll = label_length_ok [OF l rest]
  have room': "used sb + 1 + length l + 8 \<le> 65536"
    using room by simp
  from resize_keeps [OF inv room'] obtain s1 where
    s1: "safe_buffer_resize sb (used sb + 1 + length l + 8) = Some s1" "sb_inv s1"
      "used s1 = used sb" "contents s1 = contents sb" .
  from safe_buffer_append_fits [OF s1(2), of "[word_of_nat (length l)]"] s1(3) room obtain s2 where
    s2: "safe_buffer_append s1 [word_of_nat (length l)] = Some (1, s2)" "sb_inv s2"
      "contents s2 = contents sb @ [word_of_nat (length l)]"
    by (auto simp: s1(4))
  have u2: "used s2 = used sb + 1"
    using length_contents [OF s2(2)] length_contents [OF inv] by (simp add: s2(3))
  from safe_buffer_append_fits [OF s2(2), of "string_bytes l"] u2 room obtain s3 where
    s3: "safe_buffer_append s2 (string_bytes l) = Some (length l, s3)" "sb_inv s3"
      "contents s3 = contents sb @ word_of_nat (length l) # string_bytes l"
    by (auto simp: s2(3))
  have u3: "used s3 = used sb + 1 + length l"
    using length_contents [OF s3(2)] length_contents [OF inv] by (simp add: s3(3))
  from safe_buffer_append_fits [OF s3(2), of "[0]"] u3 room obtain s4 where
    s4: "safe_buffer_append s3 [0] = Some (1, s4)" "sb_inv s4"
      "contents s4 = contents sb @ word_of_nat (length l) # string_bytes l @ [0]"
    by (auto simp: s3(3))
  have step: "serialize_label sb len (l @ rest) =
      (if tl rest = [] then Some (len + length l + 2, s4, tl rest)
       else Some (len + length l + 1, s3, tl rest))"
    using s1(1) s2(1) s3(1) s4(1) rest
    unfolding serialize_label_def Let_def ll(1) by (auto simp: ll(2))
  show ?thesis
  proof (cases "tl rest = []")
    case True
    then show ?thesis using that [of s4] step s4 by simp
  next
    case False
    then show ?thesis using that [of s3] step s3 by simp
  qed
qed

lemma join_labels_Cons:
  "join_labels (l # ls) = l @ (if ls = [] then [] else CHR ''.'' # join_labels ls)"
  by (cases ls) simp_all

lemma wire_name_Cons:
  "wire_name (l # ls) = (word_of_nat (length l) # string_bytes l) @ wire_name ls"
  by (simp add: wire_name_def)

lemma length_wire_name_pos: "0 < length (wire_name ls)"
  by (simp add: wire_name_def)

text \<open>\<open>dot\<close> is the empty string or the final dot of an absolute name.\<close>

lemma serialize_labels_correct:
  assumes "sb_inv sb" and "ls \<noteq> []" and "\<forall>l \<in> set ls. label_ok l"
    and "dot = [] \<or> dot = ''.''" and "used sb + length (wire_name ls) + 8 \<le> 65536"
  shows "\<exists>sb'. serialize_labels sb len (join_labels ls @ dot) =
      Some (len + length (wire_name ls), sb') \<and> sb_inv sb' \<and>
    contents sb' = contents sb @ wire_name ls"
  using assms
proof (induction ls arbitrary: sb len)
  case Nil
  then show ?case by simp
next
  case (Cons l ls)
  define rest where "rest = (if ls = [] then dot else CHR ''.'' # join_labels ls @ dot)"
  have rest: "rest = [] \<or> (\<exists>r. rest = CHR ''.'' # r)" and "join_labels (l # ls) @ dot = l @ rest"
    using Cons.prems(4) by (auto simp: rest_def join_labels_Cons)
  have l: "label_ok l" and "l \<noteq> []"
    using Cons.prems(3) by (auto simp: label_ok_def)
  have tl: "tl rest = (if ls = [] then [] else join_labels ls @ dot)"
    using Cons.prems(4) by (auto simp: rest_def)
  have tl_Nil: "tl rest = [] \<longleftrightarrow> ls = []"
    using Cons.prems(3) unfolding tl by (cases ls) (auto simp: join_labels_Cons label_ok_def)
  have room: "used sb + length l + 9 \<le> 65536"
    using Cons.prems(5) length_wire_name_pos [of ls] by (simp add: wire_name_Cons)
  from serialize_label_correct [OF Cons.prems(1) l room rest, of len] obtain sb' where
    sb': "sb_inv sb'" "serialize_label sb len (l @ rest) =
        Some (len + length l + (if ls = [] then 2 else 1), sb', tl rest)"
      "contents sb' = contents sb @ (word_of_nat (length l) # string_bytes l) @
        (if ls = [] then [0] else [])"
    unfolding tl_Nil .
  have unfold: "serialize_labels sb len (join_labels (l # ls) @ dot) =
      serialize_labels sb' (len + length l + (if ls = [] then 2 else 1)) (tl rest)"
    using \<open>l \<noteq> []\<close> sb'(2) \<open>join_labels (l # ls) @ dot = l @ rest\<close>
    by (simp add: serialize_labels.simps [of sb])
  show ?case
  proof (cases "ls = []")
    case True
    then show ?thesis
      using sb' unfold by (simp add: tl serialize_labels.simps [of sb'] wire_name_def)
  next
    case False
    have "used sb' = used sb + length l + 1"
      using length_contents [OF sb'(1)] length_contents [OF Cons.prems(1)] False
      by (simp add: sb'(3))
    then have "used sb' + length (wire_name ls) + 8 \<le> 65536"
      using Cons.prems(5) by (simp add: wire_name_Cons)
    from Cons.IH [OF sb'(1) False _ Cons.prems(4) this, of "len + length l + 1"] Cons.prems(3)
    show ?thesis
      using unfold False sb'(3) by (auto simp: tl wire_name_Cons add.commute add.left_commute)
  qed
qed

subsection \<open>Names as strings\<close>

text \<open>The labels of a configured suffix, without the empty one behind a final dot.\<close>

fun split_dots :: "string \<Rightarrow> string list" where
  "split_dots [] = [[]]"
| "split_dots (c # s) =
     (if c = CHR ''.'' then [] # split_dots s
      else (case split_dots s of [] \<Rightarrow> [[c]] | l # ls \<Rightarrow> (c # l) # ls))"

definition name_labels :: "string \<Rightarrow> string list" where
  "name_labels s = (let ls = split_dots s in if last ls = [] then butlast ls else ls)"

definition name_ok :: "string \<Rightarrow> bool" where
  "name_ok s \<longleftrightarrow> name_labels s \<noteq> [] \<and> list_all label_ok (name_labels s)"

definition wire_domain :: "string \<Rightarrow> byte list" where
  "wire_domain s = wire_name (name_labels s)"

lemma split_dots_not_Nil [simp]: "split_dots s \<noteq> []"
  by (induction s) (auto split: list.splits)

lemma join_split_dots: "join_labels (split_dots s) = s"
proof (induction s)
  case (Cons c s)
  then show ?case
    by (cases "split_dots s") (auto simp: join_labels_Cons)
qed simp

lemma join_labels_snoc_Nil: "ls \<noteq> [] \<Longrightarrow> join_labels (ls @ [[]]) = join_labels ls @ ''.''"
  by (induction ls) (auto simp: join_labels_Cons)

lemma name_ok_decomposes:
  assumes "name_ok s"
  obtains dot where "dot = [] \<or> dot = ''.''" and "s = join_labels (name_labels s) @ dot"
proof (cases "last (split_dots s) = []")
  case True
  then have "split_dots s = name_labels s @ [[]]"
    using append_butlast_last_id [OF split_dots_not_Nil, of s] by (simp add: name_labels_def)
  moreover have "name_labels s \<noteq> []"
    using assms by (simp add: name_ok_def)
  ultimately have "s = join_labels (name_labels s) @ ''.''"
    using join_split_dots [of s] join_labels_snoc_Nil [of "name_labels s"] by simp
  with that show ?thesis by blast
next
  case False
  then have "s = join_labels (name_labels s) @ []"
    using join_split_dots [of s] by (simp add: name_labels_def)
  with that show ?thesis by blast
qed

text \<open>The whole search list: the wire forms of its names, one after the other.\<close>

lemma serialize_domain_names_wire:
  assumes "sb_inv sb" and "list_all name_ok suffixes"
    and "used sb + length (concat (map wire_domain suffixes)) + 8 \<le> 65536"
  shows "\<exists>sb'. serialize_domain_names sb len suffixes =
      Some (len + length (concat (map wire_domain suffixes)), sb') \<and> sb_inv sb' \<and>
    contents sb' = contents sb @ concat (map wire_domain suffixes)"
  using assms
proof (induction suffixes arbitrary: sb len)
  case Nil
  then show ?case by simp
next
  case (Cons s suffixes)
  have s: "name_ok s"
    using Cons.prems(2) by simp
  from name_ok_decomposes [OF s] obtain dot where
    dot: "dot = [] \<or> dot = ''.''" "s = join_labels (name_labels s) @ dot" .
  have "name_labels s \<noteq> []" "\<forall>l \<in> set (name_labels s). label_ok l"
    using s by (simp_all add: name_ok_def list_all_iff)
  moreover have "used sb + length (wire_name (name_labels s)) + 8 \<le> 65536"
    using Cons.prems(3) by (simp add: wire_domain_def)
  ultimately obtain sb1 where
    sb1: "serialize_labels sb len s = Some (len + length (wire_domain s), sb1)" "sb_inv sb1"
      "contents sb1 = contents sb @ wire_domain s"
    using serialize_labels_correct [OF Cons.prems(1) _ _ dot(1), of "name_labels s" len] dot(2)
    unfolding wire_domain_def by metis
  have "used sb1 = used sb + length (wire_domain s)"
    using length_contents [OF sb1(2)] length_contents [OF Cons.prems(1)] by (simp add: sb1(3))
  then have "used sb1 + length (concat (map wire_domain suffixes)) + 8 \<le> 65536"
    using Cons.prems(3) by simp
  from Cons.IH [OF sb1(2) _ this, of "len + length (wire_domain s)"] Cons.prems(2) sb1 show ?case
    by (auto simp: add.assoc)
qed

text \<open>Whatever the names are, the loop only appends, and counts what it appends.\<close>

definition extends :: "safe_buffer \<Rightarrow> nat \<Rightarrow> nat \<times> safe_buffer \<Rightarrow> bool" where
  "extends sb len r \<longleftrightarrow> sb_inv (snd r) \<and>
     (\<exists>m. contents (snd r) = contents sb @ m \<and> fst r = len + length m)"

lemma extends_trans:
  "extends sb len (len1, sb1) \<Longrightarrow> extends sb1 len1 r \<Longrightarrow> extends sb len r"
  by (auto simp: extends_def)

lemma resize_Some_inv:
  "sb_inv sb \<Longrightarrow> safe_buffer_resize sb n = Some sb' \<Longrightarrow> sb_inv sb' \<and> contents sb' = contents sb"
  by (metis not_le option.distinct(1) option.sel resize_exits resize_keeps)

lemma append_Some_inv:
  assumes "sb_inv sb" and a: "safe_buffer_append sb m = Some (n, sb')"
  shows "n = length m \<and> sb_inv sb' \<and> contents sb' = contents sb @ m"
proof (cases "used sb + length m \<le> 65536")
  case True
  from safe_buffer_append_fits [OF assms(1) True] a show ?thesis
    by auto
next
  case False
  with safe_buffer_append_full [OF assms(1), of m] a show ?thesis
    by simp
qed

lemma serialize_label_extends:
  assumes inv: "sb_inv sb" and s: "serialize_label sb len label = Some (len', sb', label')"
  shows "extends sb len (len', sb')"
proof -
  from s obtain s1 n2 s2 n3 s3 where
    1: "safe_buffer_resize sb (used sb + 1 + unat (label_length label) + 8) = Some s1" and
    2: "safe_buffer_append s1 [label_length label] = Some (n2, s2)" and
    3: "safe_buffer_append s2 (string_bytes (take (unat (label_length label)) label)) = Some (n3, s3)" and
    4: "sb' = s3 \<and> len' = len + n2 + n3 \<or>
      (\<exists>n4. safe_buffer_append s3 [0] = Some (n4, sb') \<and> len' = len + n2 + n3 + n4)"
    by (auto simp: serialize_label_def bind_eq_Some_conv Let_def split: if_splits)
  from resize_Some_inv [OF inv 1] have i1: "sb_inv s1" "contents s1 = contents sb" by simp_all
  from append_Some_inv [OF i1(1) 2] i1(2)
  have i2: "sb_inv s2" "extends sb len (len + n2, s2)" by (simp_all add: extends_def)
  from append_Some_inv [OF i2(1) 3]
  have i3: "sb_inv s3" "extends s2 (len + n2) (len + n2 + n3, s3)" by (simp_all add: extends_def)
  note e3 = extends_trans [OF i2(2) i3(2)]
  from 4 show ?thesis
  proof (elim disjE exE conjE)
    assume "sb' = s3" "len' = len + n2 + n3"
    then show ?thesis using e3 by simp
  next
    fix n4 assume 5: "safe_buffer_append s3 [0] = Some (n4, sb')" "len' = len + n2 + n3 + n4"
    with append_Some_inv [OF i3(1) 5(1)]
    have "extends s3 (len + n2 + n3) (len', sb')" by (simp add: extends_def)
    from extends_trans [OF e3 this] show ?thesis .
  qed
qed

lemma serialize_labels_extends:
  "sb_inv sb \<Longrightarrow> serialize_labels sb len label = Some r \<Longrightarrow> extends sb len r"
proof (induction sb len label arbitrary: r rule: serialize_labels.induct)
  case (1 sb len label)
  show ?case
  proof (cases "label = []")
    case True
    with 1 show ?thesis by (auto simp: serialize_labels.simps [of sb] extends_def)
  next
    case False
    with "1.prems" obtain len1 sb1 label1 where
      s: "serialize_label sb len label = Some (len1, sb1, label1)" and
      r: "serialize_labels sb1 len1 label1 = Some r"
      by (auto simp: serialize_labels.simps [of sb] bind_eq_Some_conv)
    from serialize_label_extends [OF "1.prems"(1) s] have e: "extends sb len (len1, sb1)" .
    then have "sb_inv sb1" by (simp add: extends_def)
    from extends_trans [OF e "1.IH" [OF False s refl refl this r]] show ?thesis .
  qed
qed

lemma serialize_domain_names_extends:
  "sb_inv sb \<Longrightarrow> serialize_domain_names sb len suffixes = Some r \<Longrightarrow> extends sb len r"
proof (induction suffixes arbitrary: sb len)
  case Nil
  then show ?case by (auto simp: extends_def)
next
  case (Cons s suffixes)
  then obtain len1 sb1 where
    s: "serialize_labels sb len s = Some (len1, sb1)" and
    r: "serialize_domain_names sb1 len1 suffixes = Some r"
    by (auto simp: bind_eq_Some_conv)
  from serialize_labels_extends [OF Cons.prems(1) s] have e: "extends sb len (len1, sb1)" .
  then have "sb_inv sb1" by (simp add: extends_def)
  from extends_trans [OF e Cons.IH [OF this r]] show ?case .
qed

end
