(* ===== verification/Ra_Build.thy ===== *)
theory Ra_Build
  imports Prefix_Lifetimes Ra_Options Domain_Names
begin

text \<open>
  The options of an advertisement: \<open>build_ra_options\<close> of \<^verbatim>\<open>send.c\<close> and the builders that add no,
  one or several options to the list of buffers, one buffer for each option.
  The specification is \<open>ra_option_images\<close>, the list of the options as bytes, computed from the
  configuration without buffers; \<open>build_ra_options_refines\<close> shows that the builders implement it.
\<close>

subsection \<open>Definitions\<close>

text \<open>Every option is scheduled: \<open>schedule_helper\<close> answers 1, the cases of RFC 7772 are comments.\<close>

definition schedule_helper :: "in6_addr \<Rightarrow> Interface \<Rightarrow> int \<Rightarrow> bool" where
  "schedule_helper dest iface option_lifetime = True"

definition schedule_option_prefix :: "in6_addr \<Rightarrow> Interface \<Rightarrow> AdvPrefix \<Rightarrow> bool" where
  "schedule_option_prefix dest iface p = schedule_helper dest iface (sint (curr_preferredlft p))"

definition schedule_option_route :: "in6_addr \<Rightarrow> Interface \<Rightarrow> AdvRoute \<Rightarrow> bool" where
  "schedule_option_route dest iface r = schedule_helper dest iface (sint (AdvRouteLifetime r))"

definition schedule_option_rdnss :: "in6_addr \<Rightarrow> Interface \<Rightarrow> AdvRDNSS \<Rightarrow> bool" where
  "schedule_option_rdnss dest iface r = schedule_helper dest iface (sint (AdvRDNSSLifetime r))"

definition schedule_option_dnssl :: "in6_addr \<Rightarrow> Interface \<Rightarrow> AdvDNSSL \<Rightarrow> bool" where
  "schedule_option_dnssl dest iface d = schedule_helper dest iface (sint (AdvDNSSLLifetime d))"

text \<open>The options for the MTU, the link-layer address, the interval and the captive portal.\<close>

definition schedule_option_default :: "in6_addr \<Rightarrow> Interface \<Rightarrow> bool" where
  "schedule_option_default dest iface =
     schedule_helper dest iface (AdvDefaultLifetime (ra_header_info iface))"

definition schedule_option_mipv6_home_agent_info :: "in6_addr \<Rightarrow> Interface \<Rightarrow> bool" where
  "schedule_option_mipv6_home_agent_info dest iface =
     schedule_helper dest iface (HomeAgentLifetime (mipv6 iface))"

definition schedule_option_lowpanco :: "in6_addr \<Rightarrow> Interface \<Rightarrow> bool" where
  "schedule_option_lowpanco dest iface =
     schedule_helper dest iface (uint (AdvLifeTime (hd (AdvLowpanCoList iface))))"

definition schedule_option_abro :: "in6_addr \<Rightarrow> Interface \<Rightarrow> bool" where
  "schedule_option_abro dest iface =
     schedule_helper dest iface (uint (ValidLifeTime (hd (AdvAbroList iface))))"

text \<open>
  The two ways to get the buffer of the next option: \<open>safe_buffer_list_append\<close>, which keeps an
  empty tail, and the \<^verbatim>\<open>cur->next = new_safe_buffer_list()\<close> of \<open>build_ra_options\<close>, which does not.
\<close>

definition add_block ::
    "(safe_buffer \<Rightarrow> safe_buffer option) \<Rightarrow> safe_buffer_list \<Rightarrow> safe_buffer_list option" where
  "add_block f sbl = sbl_update_last f (safe_buffer_list_append sbl)"

definition add_new_block ::
    "(safe_buffer \<Rightarrow> safe_buffer option) \<Rightarrow> safe_buffer_list \<Rightarrow> safe_buffer_list option" where
  "add_new_block f sbl = sbl_update_last f (sbl @ new_safe_buffer_list)"

definition get_v4addr :: "kernel \<Rightarrow> string \<Rightarrow> u32 option" where
  "get_v4addr k ifn = SIOCGIFADDR k ifn"

text \<open>The 6to4 prefix: 2002, the IPv4 address, and the rest of the configured address.\<close>

definition prefix_6to4 :: "AdvPrefix \<Rightarrow> u32 \<Rightarrow> AdvPrefix" where
  "prefix_6to4 p dst =
     p\<lparr>Prefix := from_be (htons 0x2002 @ htonl dst @ drop 6 (s6_addr (Prefix p))),
       PrefixLen := 64\<rparr>"

definition add_auto_prefixes_6to4 :: "kernel \<Rightarrow> safe_buffer_list \<Rightarrow> Interface \<Rightarrow> AdvPrefix \<Rightarrow> bool \<Rightarrow>
    in6_addr \<Rightarrow> safe_buffer_list option" where
  "add_auto_prefixes_6to4 k sbl iface prefix cease dest =
     (case get_v4addr k (if6to4 prefix) of
        None \<Rightarrow> Some sbl
      | Some dst \<Rightarrow>
          let xprefix = limit_prefix_lifetimes k (prefix_6to4 prefix dst)
          in if cease \<or> schedule_option_prefix dest iface xprefix
             then add_block (\<lambda>sb. add_ra_option_prefix sb xprefix cease) sbl
             else Some sbl)"

definition autogen_ignored :: "Interface \<Rightarrow> in6_addr \<Rightarrow> in6_addr \<Rightarrow> bool" where
  "autogen_ignored iface prefix6 netmask =
     list_ex (\<lambda>c. prefix6 = get_prefix6 (Ignore_Prefix c) (Ignore_Mask c) \<and> netmask = Ignore_Mask c)
       (IgnorePrefixList iface)"

text \<open>The prefix generated from one interface address; \<open>None\<close> is a \<^verbatim>\<open>continue\<close>.\<close>

definition auto_prefix :: "Interface \<Rightarrow> string \<Rightarrow> AdvPrefix \<Rightarrow> ifaddrs \<Rightarrow> AdvPrefix option" where
  "auto_prefix iface ifname prefix ifa =
     (if \<not> strncmp_eq (ifa_name ifa) ifname IFNAMSIZ then None
      else case ifa_addr ifa of
        None \<Rightarrow> None
      | Some AF_OTHER \<Rightarrow> None
      | Some (AF_INET6 s6) \<Rightarrow>
          if IN6_IS_ADDR_LINKLOCAL s6 then None
          else let prefix6 = get_prefix6 s6 (ifa_netmask ifa)
               in if autogen_ignored iface prefix6 (ifa_netmask ifa) then None
                  else Some (prefix\<lparr>Prefix := prefix6,
                                    PrefixLen := word_of_nat (count_mask (ifa_netmask ifa))\<rparr>))"

fun add_auto_prefixes_loop :: "kernel \<Rightarrow> safe_buffer_list \<Rightarrow> Interface \<Rightarrow> string \<Rightarrow> AdvPrefix \<Rightarrow> bool \<Rightarrow>
    in6_addr \<Rightarrow> ifaddrs list \<Rightarrow> safe_buffer_list option" where
  "add_auto_prefixes_loop k sbl iface ifname prefix cease dest [] = Some sbl"
| "add_auto_prefixes_loop k sbl iface ifname prefix cease dest (ifa # ifap) =
     (case auto_prefix iface ifname prefix ifa of
        None \<Rightarrow> add_auto_prefixes_loop k sbl iface ifname prefix cease dest ifap
      | Some p \<Rightarrow> do {
          let xprefix = limit_prefix_lifetimes k p;
          sbl \<leftarrow> (if cease \<or> schedule_option_prefix dest iface xprefix
                 then add_block (\<lambda>sb. add_ra_option_prefix sb xprefix cease) sbl
                 else Some sbl);
          add_auto_prefixes_loop k sbl iface ifname prefix cease dest ifap
        })"

text \<open>When \<^verbatim>\<open>getifaddrs\<close> fails the list stays empty, and only a message is logged.\<close>

definition add_auto_prefixes :: "kernel \<Rightarrow> safe_buffer_list \<Rightarrow> Interface \<Rightarrow> string \<Rightarrow> AdvPrefix \<Rightarrow> bool \<Rightarrow>
    in6_addr \<Rightarrow> safe_buffer_list option" where
  "add_auto_prefixes k sbl iface ifname prefix cease dest =
     add_auto_prefixes_loop k sbl iface ifname prefix cease dest
       (case getifaddrs k of None \<Rightarrow> [] | Some ifap \<Rightarrow> ifap)"

fun add_ra_options_nat64prefix :: "safe_buffer_list \<Rightarrow> NAT64Prefix list \<Rightarrow> safe_buffer_list option" where
  "add_ra_options_nat64prefix sbl [] = Some sbl"
| "add_ra_options_nat64prefix sbl (p # ps) = do {
     sbl \<leftarrow> add_block (\<lambda>sb. add_ra_option_nat64prefix sb p) sbl;
     add_ra_options_nat64prefix sbl ps
   }"

text \<open>One turn of the loop over the configured prefixes.\<close>

definition add_ra_options_one_prefix :: "kernel \<Rightarrow> safe_buffer_list \<Rightarrow> Interface \<Rightarrow> AdvPrefix \<Rightarrow> bool \<Rightarrow>
    in6_addr \<Rightarrow> safe_buffer_list option" where
  "add_ra_options_one_prefix k sbl iface prefix cease dest =
     (if \<not> DecrementLifetimesFlag prefix \<or> curr_preferredlft prefix > 0 then
        if if6to4 prefix \<noteq> [] \<or> if6 prefix \<noteq> [] \<or> Prefix prefix = 0 then do {
          sbl \<leftarrow> (if if6to4 prefix \<noteq> [] then add_auto_prefixes_6to4 k sbl iface prefix cease dest
                 else Some sbl);
          sbl \<leftarrow> (if if6 prefix \<noteq> [] then add_auto_prefixes k sbl iface (if6 prefix) prefix cease dest
                 else Some sbl);
          if Prefix prefix = 0
          then add_auto_prefixes k sbl iface (name (props iface)) prefix cease dest
          else Some sbl
        }
        else if cease \<or> schedule_option_prefix dest iface prefix
        then add_block (\<lambda>sb. add_ra_option_prefix sb (limit_prefix_lifetimes k prefix) cease) sbl
        else Some sbl
      else Some sbl)"

fun add_ra_options_prefix :: "kernel \<Rightarrow> safe_buffer_list \<Rightarrow> Interface \<Rightarrow> AdvPrefix list \<Rightarrow> bool \<Rightarrow>
    in6_addr \<Rightarrow> safe_buffer_list option" where
  "add_ra_options_prefix k sbl iface [] cease dest = Some sbl"
| "add_ra_options_prefix k sbl iface (p # ps) cease dest = do {
     sbl \<leftarrow> add_ra_options_one_prefix k sbl iface p cease dest;
     add_ra_options_prefix k sbl iface ps cease dest
   }"

fun add_ra_options_route :: "safe_buffer_list \<Rightarrow> Interface \<Rightarrow> AdvRoute list \<Rightarrow> bool \<Rightarrow> in6_addr \<Rightarrow>
    safe_buffer_list option" where
  "add_ra_options_route sbl iface [] cease dest = Some sbl"
| "add_ra_options_route sbl iface (r # rs) cease dest =
     (if \<not> cease \<and> \<not> schedule_option_route dest iface r
      then add_ra_options_route sbl iface rs cease dest
      else do {
        sbl \<leftarrow> add_block (\<lambda>sb. add_ra_option_route sb r cease) sbl;
        add_ra_options_route sbl iface rs cease dest
      })"

definition rdnss_bytes :: "AdvRDNSS \<Rightarrow> nat" where
  "rdnss_bytes r = 8 + 16 * length (AdvRDNSSAddr r)"

definition rdnss_info_image :: "AdvRDNSS \<Rightarrow> bool \<Rightarrow> byte list" where
  "rdnss_info_image r cease =
     [ND_OPT_RDNSS_INFORMATION, word_of_nat (rdnss_bytes r div 8), 0, 0] @
     (if cease \<and> FlushRDNSSFlag r then [0, 0, 0, 0] else htonl (AdvRDNSSLifetime r))"

fun append_addresses :: "safe_buffer \<Rightarrow> in6_addr list \<Rightarrow> safe_buffer option" where
  "append_addresses sb [] = Some sb"
| "append_addresses sb (a # as) = do {
     (_, sb) \<leftarrow> safe_buffer_append sb (s6_addr a);
     append_addresses sb as
   }"

definition add_ra_option_rdnss :: "safe_buffer \<Rightarrow> AdvRDNSS \<Rightarrow> bool \<Rightarrow> safe_buffer option" where
  "add_ra_option_rdnss sb r cease = do {
     sb \<leftarrow> safe_buffer_resize sb (used sb + rdnss_bytes r);
     (_, sb) \<leftarrow> safe_buffer_append sb (rdnss_info_image r cease);
     append_addresses sb (AdvRDNSSAddr r)
   }"

fun add_ra_options_rdnss :: "safe_buffer_list \<Rightarrow> Interface \<Rightarrow> AdvRDNSS list \<Rightarrow> bool \<Rightarrow> in6_addr \<Rightarrow>
    safe_buffer_list option" where
  "add_ra_options_rdnss sbl iface [] cease dest = Some sbl"
| "add_ra_options_rdnss sbl iface (r # rs) cease dest =
     (if \<not> cease \<and> \<not> schedule_option_rdnss dest iface r
      then add_ra_options_rdnss sbl iface rs cease dest
      else if rdnss_bytes r div 8 > 255
      then add_ra_options_rdnss sbl iface rs cease dest
      else do {
        sbl \<leftarrow> add_block (\<lambda>sb. add_ra_option_rdnss sb r cease) sbl;
        add_ra_options_rdnss sbl iface rs cease dest
      })"

definition dnssl_info_image :: "AdvDNSSL \<Rightarrow> bool \<Rightarrow> nat \<Rightarrow> byte list" where
  "dnssl_info_image d cease len =
     [ND_OPT_DNSSL_INFORMATION, word_of_nat len, 0, 0] @
     (if cease \<and> FlushDNSSLFlag d then [0, 0, 0, 0] else htonl (AdvDNSSLLifetime d))"

definition add_ra_option_dnssl ::
    "safe_buffer \<Rightarrow> safe_buffer \<Rightarrow> nat \<Rightarrow> AdvDNSSL \<Rightarrow> bool \<Rightarrow> safe_buffer option" where
  "add_ra_option_dnssl sb domains domain_name_bytes d cease = do {
     let bytes = 8 + domain_name_bytes;
     let len = (bytes + 7) div 8;
     let padding = len * 8 - bytes;
     sb \<leftarrow> safe_buffer_resize sb (used sb + 8 + domain_name_bytes + padding);
     (_, sb) \<leftarrow> safe_buffer_append sb (dnssl_info_image d cease len);
     (_, sb) \<leftarrow> safe_buffer_append sb (contents domains);
     (_, sb) \<leftarrow> safe_buffer_pad sb padding;
     Some sb
   }"

text \<open>The loop keeps one buffer for the serialised names of all the options.\<close>

fun add_ra_options_dnssl_loop :: "safe_buffer \<Rightarrow> safe_buffer_list \<Rightarrow> Interface \<Rightarrow> AdvDNSSL list \<Rightarrow>
    bool \<Rightarrow> in6_addr \<Rightarrow> safe_buffer_list option" where
  "add_ra_options_dnssl_loop serialized_domains sbl iface [] cease dest = Some sbl"
| "add_ra_options_dnssl_loop serialized_domains sbl iface (d # ds) cease dest =
     (if \<not> cease \<and> \<not> schedule_option_dnssl dest iface d
      then add_ra_options_dnssl_loop serialized_domains sbl iface ds cease dest
      else do {
        (domain_name_bytes, serialized_domains) \<leftarrow>
           serialize_domain_names (serialized_domains\<lparr>used := 0\<rparr>) 0 (AdvDNSSLSuffixes d);
        if (8 + domain_name_bytes + 7) div 8 > 255
        then add_ra_options_dnssl_loop serialized_domains sbl iface ds cease dest
        else do {
          sbl \<leftarrow> add_block
             (\<lambda>sb. add_ra_option_dnssl sb serialized_domains domain_name_bytes d cease) sbl;
          add_ra_options_dnssl_loop serialized_domains sbl iface ds cease dest
        }
      })"

definition add_ra_options_dnssl :: "safe_buffer_list \<Rightarrow> Interface \<Rightarrow> AdvDNSSL list \<Rightarrow> bool \<Rightarrow> in6_addr \<Rightarrow>
    safe_buffer_list option" where
  "add_ra_options_dnssl sbl iface ds cease dest =
     add_ra_options_dnssl_loop new_safe_buffer sbl iface ds cease dest"

definition build_ra_options :: "kernel \<Rightarrow> Interface \<Rightarrow> in6_addr \<Rightarrow> safe_buffer_list option" where
  "build_ra_options k iface dest = do {
     let cur = new_safe_buffer_list;
     let cease = cease_adv (state_info iface);
     cur \<leftarrow> add_ra_options_prefix k cur iface (AdvPrefixList iface) cease dest;
     cur \<leftarrow> add_ra_options_nat64prefix cur (NAT64PrefixList iface);
     cur \<leftarrow> add_ra_options_route cur iface (AdvRouteList iface) cease dest;
     cur \<leftarrow> add_ra_options_rdnss cur iface (AdvRDNSSList iface) cease dest;
     cur \<leftarrow> add_ra_options_dnssl cur iface (AdvDNSSLList iface) cease dest;
     cur \<leftarrow> (if AdvLinkMTU iface \<noteq> 0 \<and> schedule_option_default dest iface
            then add_new_block (\<lambda>sb. add_ra_option_mtu sb (AdvLinkMTU iface)) cur else Some cur);
     cur \<leftarrow> (if AdvSourceLLAddress iface \<and> if_hwaddr_len (sllao iface) > 0 \<and>
              schedule_option_default dest iface
            then add_new_block (\<lambda>sb. add_ra_option_sllao sb (sllao iface)) cur else Some cur);
     cur \<leftarrow> (if AdvIntervalOpt (mipv6 iface) \<and> schedule_option_default dest iface
            then add_new_block
                   (\<lambda>sb. add_ra_option_mipv6_rtr_adv_interval sb (MaxRtrAdvInterval iface)) cur
            else Some cur);
     cur \<leftarrow> (if AdvHomeAgentInfo (mipv6 iface) \<and> schedule_option_mipv6_home_agent_info dest iface \<and>
              (AdvMobRtrSupportFlag (mipv6 iface) \<or> HomeAgentPreference (mipv6 iface) \<noteq> 0 \<or>
               HomeAgentLifetime (mipv6 iface) \<noteq> AdvDefaultLifetime (ra_header_info iface))
            then add_new_block (\<lambda>sb. add_ra_option_mipv6_home_agent_info sb (mipv6 iface)) cur
            else Some cur);
     cur \<leftarrow> (if AdvLowpanCoList iface \<noteq> [] \<and> schedule_option_lowpanco dest iface
            then add_new_block (\<lambda>sb. add_ra_option_lowpanco sb (hd (AdvLowpanCoList iface))) cur
            else Some cur);
     cur \<leftarrow> (if AdvAbroList iface \<noteq> [] \<and> schedule_option_abro dest iface
            then add_new_block (\<lambda>sb. add_ra_option_abro sb (hd (AdvAbroList iface))) cur
            else Some cur);
     (case AdvCaptivePortalAPI iface of
        None \<Rightarrow> Some cur
      | Some url \<Rightarrow>
          if schedule_option_default dest iface
          then add_new_block (\<lambda>sb. add_ra_option_capport sb url) cur else Some cur)
   }"

text \<open>
  The specification. An advertised prefix is one the configuration lists, or one generated from an
  address; the option lists are those of the configuration, without what does not fit an option.
\<close>

definition auto_prefixes :: "kernel \<Rightarrow> Interface \<Rightarrow> string \<Rightarrow> AdvPrefix \<Rightarrow> AdvPrefix list" where
  "auto_prefixes k iface ifname p =
     List.map_filter (auto_prefix iface ifname p) (case getifaddrs k of None \<Rightarrow> [] | Some l \<Rightarrow> l)"

definition advertised_prefixes :: "kernel \<Rightarrow> Interface \<Rightarrow> AdvPrefix \<Rightarrow> AdvPrefix list" where
  "advertised_prefixes k iface p =
     (if DecrementLifetimesFlag p \<and> curr_preferredlft p = 0 then []
      else if if6to4 p = [] \<and> if6 p = [] \<and> Prefix p \<noteq> 0 then [p]
      else (if if6to4 p = [] then []
            else case get_v4addr k (if6to4 p) of None \<Rightarrow> [] | Some dst \<Rightarrow> [prefix_6to4 p dst]) @
           (if if6 p = [] then [] else auto_prefixes k iface (if6 p) p) @
           (if Prefix p = 0 then auto_prefixes k iface (name (props iface)) p else []))"

definition rdnss_option_image :: "AdvRDNSS \<Rightarrow> bool \<Rightarrow> byte list" where
  "rdnss_option_image r cease =
     rdnss_info_image r cease @ concat (map s6_addr (AdvRDNSSAddr r))"

definition dnssl_domains :: "AdvDNSSL \<Rightarrow> byte list" where
  "dnssl_domains d = concat (map wire_domain (AdvDNSSLSuffixes d))"

definition dnssl_groups :: "byte list \<Rightarrow> nat" where
  "dnssl_groups m = (8 + length m + 7) div 8"

definition dnssl_option_image :: "AdvDNSSL \<Rightarrow> bool \<Rightarrow> byte list \<Rightarrow> byte list" where
  "dnssl_option_image d cease m =
     dnssl_info_image d cease (dnssl_groups m) @ m @
     replicate (dnssl_groups m * 8 - (8 + length m)) 0"

definition ra_option_images :: "kernel \<Rightarrow> Interface \<Rightarrow> byte list list" where
  "ra_option_images k iface =
     (let cease = cease_adv (state_info iface); m = mipv6 iface
      in map (\<lambda>p. prefix_option_image (limit_prefix_lifetimes k p) cease)
           (concat (map (advertised_prefixes k iface) (AdvPrefixList iface))) @
         map nat64prefix_option_image (NAT64PrefixList iface) @
         map (\<lambda>r. take (unat (route_option_len (Route_PrefixLen r)) * 8) (route_info_image r cease))
           (AdvRouteList iface) @
         map (\<lambda>r. rdnss_option_image r cease)
           (filter (\<lambda>r. rdnss_bytes r div 8 \<le> 255) (AdvRDNSSList iface)) @
         map (\<lambda>d. dnssl_option_image d cease (dnssl_domains d))
           (filter (\<lambda>d. dnssl_groups (dnssl_domains d) \<le> 255) (AdvDNSSLList iface)) @
         (if AdvLinkMTU iface \<noteq> 0 then [mtu_option_image (AdvLinkMTU iface)] else []) @
         (if AdvSourceLLAddress iface \<and> if_hwaddr_len (sllao iface) > 0
          then [sllao_option_image (sllao iface)] else []) @
         (if AdvIntervalOpt m then [rtr_adv_interval_image (MaxRtrAdvInterval iface)] else []) @
         (if AdvHomeAgentInfo m \<and> (AdvMobRtrSupportFlag m \<or> HomeAgentPreference m \<noteq> 0 \<or>
             HomeAgentLifetime m \<noteq> AdvDefaultLifetime (ra_header_info iface))
          then [home_agent_info_image m] else []) @
         (case AdvLowpanCoList iface of [] \<Rightarrow> [] | co # _ \<Rightarrow> [lowpanco_image co]) @
         (case AdvAbroList iface of [] \<Rightarrow> [] | a # _ \<Rightarrow> [abro_image a]) @
         (case AdvCaptivePortalAPI iface of None \<Rightarrow> [] | Some u \<Rightarrow> [capport_option_image u]))"

text \<open>
  What the configuration has to satisfy: prefix lengths of routes are at most 128, the link-layer
  address lies in its array of 16 bytes, the portal fits an option, and the search lists consist
  of labels of 1 to 255 characters and fit the buffer they are serialised in.
\<close>

definition wire_config_ok :: "Interface \<Rightarrow> bool" where
  "wire_config_ok iface \<longleftrightarrow>
     list_all (\<lambda>r. Route_PrefixLen r \<le> 128) (AdvRouteList iface) \<and>
     nat (if_hwaddr_len (sllao iface)) div 8 \<le> length (if_hwaddr (sllao iface)) \<and>
     length (if_hwaddr (sllao iface)) \<le> 16 \<and>
     (case AdvCaptivePortalAPI iface of None \<Rightarrow> True | Some u \<Rightarrow> length u \<le> 2038)"

definition dnssl_ok :: "AdvDNSSL \<Rightarrow> bool" where
  "dnssl_ok d \<longleftrightarrow> list_all name_ok (AdvDNSSLSuffixes d) \<and> length (dnssl_domains d) + 8 \<le> 65536"

subsection \<open>The contract of a list of option buffers\<close>

text \<open>
  What the builders rely on: \<open>put f l\<close> has \<open>f\<close> write one more option into the list \<open>l\<close>.
  \<open>adds l ms r\<close> says that the computation with the result \<open>r\<close> added the options \<open>ms\<close> to \<open>l\<close>.
\<close>

locale option_list =
  fixes inv :: "'l \<Rightarrow> bool"
    and options :: "'l \<Rightarrow> byte list list"
    and put :: "(safe_buffer \<Rightarrow> safe_buffer option) \<Rightarrow> 'l \<Rightarrow> 'l option"
  assumes put_writes: "inv l \<Longrightarrow> m \<noteq> [] \<Longrightarrow> length m \<le> 65536 \<Longrightarrow>
      (\<And>sb. sb_inv sb \<Longrightarrow> sb.writes sb m (f sb)) \<Longrightarrow>
      \<exists>l'. put f l = Some l' \<and> inv l' \<and> options l' = options l @ [m]"
begin

definition adds :: "'l \<Rightarrow> byte list list \<Rightarrow> 'l option \<Rightarrow> bool" where
  "adds l ms r \<longleftrightarrow> (\<exists>l'. r = Some l' \<and> inv l' \<and> options l' = options l @ ms)"

lemma adds_none: "inv l \<Longrightarrow> adds l [] (Some l)"
  by (simp add: adds_def)

lemma adds_put:
  "inv l \<Longrightarrow> m \<noteq> [] \<Longrightarrow> length m \<le> 65536 \<Longrightarrow>
     (\<And>sb. sb_inv sb \<Longrightarrow> sb.writes sb m (f sb)) \<Longrightarrow> adds l [m] (put f l)"
  using put_writes [of l m f] by (simp add: adds_def)

lemma adds_bind:
  "adds l ms r \<Longrightarrow> (\<And>l'. inv l' \<Longrightarrow> adds l' ms' (f l')) \<Longrightarrow> adds l (ms @ ms') (r \<bind> f)"
  by (fastforce simp: adds_def)

lemma adds_if:
  "(b \<Longrightarrow> adds l ms r) \<Longrightarrow> (\<not> b \<Longrightarrow> adds l ms' r') \<Longrightarrow> adds l (if b then ms else ms') (if b then r else r')"
  by simp

lemma adds_inv: "adds l ms (Some l') \<Longrightarrow> inv l' \<and> options l' = options l @ ms"
  by (simp add: adds_def)

end

lemma add_block_writes:
  assumes "sbl_inv sbl" and "m \<noteq> []" and "length m \<le> 65536"
    and "\<And>sb. sb_inv sb \<Longrightarrow> sb.writes sb m (f sb)"
  shows "\<exists>sbl'. add_block f sbl = Some sbl' \<and> sbl_inv sbl' \<and> blocks sbl' = blocks sbl @ [m]"
proof -
  note tail = safe_buffer_list_append_tail [OF assms(1)]
  from sbl_write_tail [OF tail(1,2) assms(3,4)] obtain sbl' where
    "sbl_update_last f (safe_buffer_list_append sbl) = Some sbl'" "sbl_inv sbl'"
    "map contents sbl' = map contents (butlast (safe_buffer_list_append sbl)) @ [m]"
    by auto
  with tail(4) assms(2) show ?thesis
    by (simp add: add_block_def blocks_def)
qed

lemma add_new_block_writes:
  assumes "sbl_inv sbl" and "m \<noteq> []" and "length m \<le> 65536"
    and "\<And>sb. sb_inv sb \<Longrightarrow> sb.writes sb m (f sb)"
  shows "\<exists>sbl'. add_new_block f sbl = Some sbl' \<and> sbl_inv sbl' \<and> blocks sbl' = blocks sbl @ [m]"
proof -
  have "contents (last (sbl @ new_safe_buffer_list)) = []"
    by (simp add: new_safe_buffer_list_def)
  from sbl_write_tail [OF sbl_inv_append [OF assms(1)] this assms(3,4)] obtain sbl' where
    "sbl_update_last f (sbl @ new_safe_buffer_list) = Some sbl'" "sbl_inv sbl'"
    "map contents sbl' = map contents sbl @ [m]"
    by (auto simp: new_safe_buffer_list_def butlast_append)
  with assms(2) show ?thesis
    by (simp add: add_new_block_def blocks_def)
qed

interpretation opts: option_list sbl_inv blocks add_block
  by unfold_locales (rule add_block_writes)

interpretation new_opts: option_list sbl_inv blocks add_new_block
  by unfold_locales (rule add_new_block_writes)

subsection \<open>The builders implement the specification\<close>

lemmas schedule_defs = schedule_helper_def schedule_option_prefix_def schedule_option_route_def
  schedule_option_rdnss_def schedule_option_dnssl_def schedule_option_default_def
  schedule_option_mipv6_home_agent_info_def schedule_option_lowpanco_def schedule_option_abro_def

lemma adds_prefix:
  "sbl_inv sbl \<Longrightarrow> opts.adds sbl [prefix_option_image p cease]
     (add_block (\<lambda>sb. add_ra_option_prefix sb p cease) sbl)"
  by (rule opts.adds_put) (auto simp: single_block_writes simp flip: length_0_conv)

lemma add_auto_prefixes_adds:
  "sbl_inv sbl \<Longrightarrow>
     opts.adds sbl
       (map (\<lambda>p. prefix_option_image (limit_prefix_lifetimes k p) cease)
          (auto_prefixes k iface ifname p))
       (add_auto_prefixes k sbl iface ifname p cease dest)"
proof -
  define l where "l = (case getifaddrs k of None \<Rightarrow> [] | Some ifap \<Rightarrow> ifap)"
  show "sbl_inv sbl \<Longrightarrow> ?thesis"
    unfolding add_auto_prefixes_def auto_prefixes_def l_def [symmetric]
  proof (induction l arbitrary: sbl)
    case Nil
    then show ?case by (simp add: opts.adds_none)
  next
    case (Cons ifa l)
    show ?case
    proof (cases "auto_prefix iface ifname p ifa")
      case None
      with Cons show ?thesis by simp
    next
      case (Some p')
      from opts.adds_bind [OF adds_prefix [OF Cons.prems] Cons.IH] Some show ?thesis
        by (simp add: schedule_defs)
    qed
  qed
qed

lemma add_ra_options_one_prefix_adds:
  assumes "sbl_inv sbl"
  shows "opts.adds sbl
    (map (\<lambda>p. prefix_option_image (limit_prefix_lifetimes k p) cease) (advertised_prefixes k iface p))
    (add_ra_options_one_prefix k sbl iface p cease dest)"
proof -
  let ?img = "\<lambda>p. prefix_option_image (limit_prefix_lifetimes k p) cease"
  have 6: "opts.adds sbl
      (case get_v4addr k (if6to4 p) of None \<Rightarrow> [] | Some dst \<Rightarrow> [?img (prefix_6to4 p dst)])
      (add_auto_prefixes_6to4 k sbl iface p cease dest)" if "sbl_inv sbl" for sbl
    using that by (auto simp: add_auto_prefixes_6to4_def schedule_defs Let_def opts.adds_none
        adds_prefix split: option.split)
  have auto: "opts.adds sbl
      ((if if6to4 p = [] then [] else
          case get_v4addr k (if6to4 p) of None \<Rightarrow> [] | Some dst \<Rightarrow> [?img (prefix_6to4 p dst)]) @
       (if if6 p = [] then [] else map ?img (auto_prefixes k iface (if6 p) p)) @
       (if Prefix p = 0 then map ?img (auto_prefixes k iface (name (props iface)) p) else []))
     (do {
        sbl \<leftarrow> (if if6to4 p = [] then Some sbl else add_auto_prefixes_6to4 k sbl iface p cease dest);
        sbl \<leftarrow> (if if6 p = [] then Some sbl else add_auto_prefixes k sbl iface (if6 p) p cease dest);
        if Prefix p = 0 then add_auto_prefixes k sbl iface (name (props iface)) p cease dest
        else Some sbl
      })"
    by (intro opts.adds_bind opts.adds_if opts.adds_none 6 add_auto_prefixes_adds assms)
  show ?thesis
  proof (cases "DecrementLifetimesFlag p \<and> curr_preferredlft p = 0")
    case True
    with assms show ?thesis
      by (simp add: add_ra_options_one_prefix_def advertised_prefixes_def opts.adds_none)
  next
    case False
    show ?thesis
    proof (cases "if6to4 p = [] \<and> if6 p = [] \<and> Prefix p \<noteq> 0")
      case True
      with False assms show ?thesis
        by (auto simp: add_ra_options_one_prefix_def advertised_prefixes_def adds_prefix
            schedule_defs word_gt_0)
    next
      case auto_case: False
      then have "add_ra_options_one_prefix k sbl iface p cease dest = do {
        sbl \<leftarrow> (if if6to4 p = [] then Some sbl else add_auto_prefixes_6to4 k sbl iface p cease dest);
        sbl \<leftarrow> (if if6 p = [] then Some sbl else add_auto_prefixes k sbl iface (if6 p) p cease dest);
        if Prefix p = 0 then add_auto_prefixes k sbl iface (name (props iface)) p cease dest
        else Some sbl
      }"
        using False by (auto simp: add_ra_options_one_prefix_def word_gt_0)
      moreover have "map ?img (advertised_prefixes k iface p) =
        (if if6to4 p = [] then [] else
          case get_v4addr k (if6to4 p) of None \<Rightarrow> [] | Some dst \<Rightarrow> [?img (prefix_6to4 p dst)]) @
        (if if6 p = [] then [] else map ?img (auto_prefixes k iface (if6 p) p)) @
        (if Prefix p = 0 then map ?img (auto_prefixes k iface (name (props iface)) p) else [])"
        using False auto_case by (auto simp: advertised_prefixes_def split: option.split)
      ultimately show ?thesis
        using auto by simp
    qed
  qed
qed

lemma add_ra_options_prefix_adds:
  "sbl_inv sbl \<Longrightarrow> opts.adds sbl
     (map (\<lambda>p. prefix_option_image (limit_prefix_lifetimes k p) cease)
        (concat (map (advertised_prefixes k iface) ps)))
     (add_ra_options_prefix k sbl iface ps cease dest)"
proof (induction ps arbitrary: sbl)
  case Nil
  then show ?case by (simp add: opts.adds_none)
next
  case (Cons p ps)
  from opts.adds_bind [OF add_ra_options_one_prefix_adds [OF Cons.prems] Cons.IH] show ?case
    by simp
qed

lemma add_ra_options_nat64prefix_adds:
  "sbl_inv sbl \<Longrightarrow>
     opts.adds sbl (map nat64prefix_option_image ps) (add_ra_options_nat64prefix sbl ps)"
proof (induction ps arbitrary: sbl)
  case Nil
  then show ?case by (simp add: opts.adds_none)
next
  case (Cons p ps)
  have "opts.adds sbl [nat64prefix_option_image p]
      (add_block (\<lambda>sb. add_ra_option_nat64prefix sb p) sbl)"
    by (rule opts.adds_put) (auto simp: single_block_writes Cons.prems simp flip: length_0_conv)
  from opts.adds_bind [OF this Cons.IH] show ?case by simp
qed

lemma nd_opt_wf_bounds: "nd_opt_wf m \<Longrightarrow> m \<noteq> [] \<and> length m \<le> 2040"
  using unsigned_less [of "m ! 1", where ?'a = nat] by (auto simp: nd_opt_wf_def)

text \<open>An option that is well formed on the wire fits its buffer.\<close>

lemma adds_wf:
  "sbl_inv sbl \<Longrightarrow> nd_opt_wf m \<Longrightarrow> (\<And>sb. sb_inv sb \<Longrightarrow> sb.writes sb m (f sb)) \<Longrightarrow>
     opts.adds sbl [m] (add_block f sbl)"
  "sbl_inv sbl \<Longrightarrow> nd_opt_wf m \<Longrightarrow> (\<And>sb. sb_inv sb \<Longrightarrow> sb.writes sb m (f sb)) \<Longrightarrow>
     opts.adds sbl [m] (add_new_block f sbl)"
  using nd_opt_wf_bounds [of m] by (auto intro: opts.adds_put new_opts.adds_put)

lemma add_ra_options_route_adds:
  "sbl_inv sbl \<Longrightarrow> list_all (\<lambda>r. Route_PrefixLen r \<le> 128) rs \<Longrightarrow> opts.adds sbl
     (map (\<lambda>r. take (unat (route_option_len (Route_PrefixLen r)) * 8) (route_info_image r cease)) rs)
     (add_ra_options_route sbl iface rs cease dest)"
proof (induction rs arbitrary: sbl)
  case Nil
  then show ?case by (simp add: opts.adds_none)
next
  case (Cons r rs)
  then have "Route_PrefixLen r \<le> 128" by simp
  note opts.adds_bind [OF adds_wf(1) [OF Cons.prems(1) route_option_wf [OF this]
        single_block_writes(4)] Cons.IH]
  then show ?case
    using Cons.prems by (simp add: schedule_defs)
qed

lemma append_addresses_writes:
  "sb_inv sb \<Longrightarrow> sb.writes sb (concat (map s6_addr as)) (append_addresses sb as)"
proof (induction as arbitrary: sb)
  case Nil
  then show ?case by (simp add: sb.writes_return used_le_cap)
next
  case (Cons a as)
  from sb.writes_append_bind [OF Cons.prems Cons.IH] show ?case by simp
qed

lemma length_addresses [simp]: "length (concat (map s6_addr as)) = 16 * length as"
  by (induction as) (simp_all add: length_be)

lemma length_rdnss_option_image [simp]: "length (rdnss_option_image r cease) = rdnss_bytes r"
  by (simp add: rdnss_option_image_def rdnss_info_image_def rdnss_bytes_def length_be)

lemma rdnss_writes:
  "sb_inv sb \<Longrightarrow> sb.writes sb (rdnss_option_image r cease) (add_ra_option_rdnss sb r cease)"
  unfolding add_ra_option_rdnss_def
  by (rule writes_reserve)
     (auto simp: rdnss_option_image_def intro!: sb.writes_append_bind append_addresses_writes
        simp flip: length_rdnss_option_image [of r cease])

lemma rdnss_option_wf:
  assumes "rdnss_bytes r div 8 \<le> 255"
  shows "nd_opt_wf (rdnss_option_image r cease)"
proof -
  have "unat (word_of_nat (rdnss_bytes r div 8) :: byte) = rdnss_bytes r div 8"
    using assms by (simp add: unat_of_nat take_bit_nat_eq_self)
  moreover have "rdnss_option_image r cease ! 1 = word_of_nat (rdnss_bytes r div 8)"
    by (simp add: rdnss_option_image_def rdnss_info_image_def)
  moreover have "8 * (rdnss_bytes r div 8) = rdnss_bytes r" "8 \<le> rdnss_bytes r"
    by (simp_all add: rdnss_bytes_def)
  ultimately show ?thesis
    by (auto simp: nd_opt_wf_def simp flip: unat_eq_0)
qed

lemma add_ra_options_rdnss_adds:
  "sbl_inv sbl \<Longrightarrow> opts.adds sbl
     (map (\<lambda>r. rdnss_option_image r cease) (filter (\<lambda>r. rdnss_bytes r div 8 \<le> 255) rs))
     (add_ra_options_rdnss sbl iface rs cease dest)"
proof (induction rs arbitrary: sbl)
  case Nil
  then show ?case by (simp add: opts.adds_none)
next
  case (Cons r rs)
  show ?case
  proof (cases "rdnss_bytes r div 8 \<le> 255")
    case True
    from opts.adds_bind [OF adds_wf(1) [OF Cons.prems rdnss_option_wf [OF True] rdnss_writes]
        Cons.IH] True show ?thesis
      by (simp add: schedule_defs)
  next
    case False
    with Cons show ?thesis by (simp add: schedule_defs)
  qed
qed

lemma used_reset:
  "sb_inv sb \<Longrightarrow> sb_inv (sb\<lparr>used := 0\<rparr>)" "contents (sb\<lparr>used := 0\<rparr>) = []"
  by (simp_all add: sb_inv_def contents_def)

lemma length_dnssl_option_image:
  "length (dnssl_option_image d cease m) = dnssl_groups m * 8"
proof -
  have "8 + length m \<le> dnssl_groups m * 8"
    unfolding dnssl_groups_def by linarith
  moreover have "length (dnssl_info_image d cease (dnssl_groups m)) = 8"
    by (simp add: dnssl_info_image_def length_be)
  ultimately show ?thesis
    by (simp add: dnssl_option_image_def)
qed

lemma dnssl_writes:
  assumes "sb_inv sb" and "contents domains = m"
  shows "sb.writes sb (dnssl_option_image d cease m)
    (add_ra_option_dnssl sb domains (length m) d cease)"
proof -
  have n: "used sb + 8 + length m + ((8 + length m + 7) div 8 * 8 - (8 + length m)) =
      used sb + length (dnssl_option_image d cease m)"
    unfolding length_dnssl_option_image dnssl_groups_def by simp
  show ?thesis
    unfolding add_ra_option_dnssl_def Let_def
    by (rule writes_reserve [OF assms(1) n])
       (unfold dnssl_option_image_def dnssl_groups_def assms(2), rule tlv_padded_writes)
qed

lemma dnssl_option_wf:
  assumes "dnssl_groups m \<le> 255"
  shows "nd_opt_wf (dnssl_option_image d cease m)"
proof -
  have "unat (word_of_nat (dnssl_groups m) :: byte) = dnssl_groups m" "0 < dnssl_groups m"
    using assms by (simp_all add: unat_of_nat take_bit_nat_eq_self dnssl_groups_def)
  moreover have "dnssl_option_image d cease m ! 1 = word_of_nat (dnssl_groups m)"
    by (simp add: dnssl_option_image_def dnssl_info_image_def)
  ultimately show ?thesis
    by (auto simp: nd_opt_wf_def length_dnssl_option_image simp flip: unat_eq_0)
qed

text \<open>A search list of well-formed names that is skipped or added.\<close>

lemma add_ra_options_dnssl_loop_adds:
  "sbl_inv sbl \<Longrightarrow> sb_inv sd \<Longrightarrow> list_all dnssl_ok ds \<Longrightarrow> opts.adds sbl
     (map (\<lambda>d. dnssl_option_image d cease (dnssl_domains d))
        (filter (\<lambda>d. dnssl_groups (dnssl_domains d) \<le> 255) ds))
     (add_ra_options_dnssl_loop sd sbl iface ds cease dest)"
proof (induction ds arbitrary: sbl sd)
  case Nil
  then show ?case by (simp add: opts.adds_none)
next
  case (Cons d ds)
  let ?m = "dnssl_domains d"
  have "list_all name_ok (AdvDNSSLSuffixes d)" "used (sd\<lparr>used := 0\<rparr>) + length ?m + 8 \<le> 65536"
    using Cons.prems(3) by (simp_all add: dnssl_ok_def)
  from serialize_domain_names_wire [OF used_reset(1) [OF Cons.prems(2)] this [unfolded dnssl_domains_def],
      of 0] obtain sd' where
    sd': "serialize_domain_names (sd\<lparr>used := 0\<rparr>) 0 (AdvDNSSLSuffixes d) = Some (length ?m, sd')"
      "sb_inv sd'" "contents sd' = ?m"
    unfolding used_reset dnssl_domains_def by auto
  note IH = Cons.IH [OF _ sd'(2)]
  have rest: "list_all dnssl_ok ds" using Cons.prems(3) by simp
  show ?case
  proof (cases "dnssl_groups ?m \<le> 255")
    case True
    from opts.adds_bind [OF adds_wf(1) [OF Cons.prems(1) dnssl_option_wf [OF True]
          dnssl_writes [OF _ sd'(3)]] IH [OF _ rest]] True
    show ?thesis by (simp add: schedule_defs sd' dnssl_groups_def)
  next
    case False
    with IH [OF Cons.prems(1) rest] show ?thesis
      by (simp add: schedule_defs sd' dnssl_groups_def)
  qed
qed

lemma build_ra_options_adds:
  assumes ok: "wire_config_ok iface" and dnssl: "list_all dnssl_ok (AdvDNSSLList iface)"
  shows "opts.adds new_safe_buffer_list (ra_option_images k iface) (build_ra_options k iface dest)"
proof -
  have route: "list_all (\<lambda>r. Route_PrefixLen r \<le> 128) (AdvRouteList iface)"
    and sll: "nd_opt_wf (sllao_option_image (sllao iface))"
    and capp: "AdvCaptivePortalAPI iface = Some u \<Longrightarrow> nd_opt_wf (capport_option_image u)" for u
    using ok by (auto simp: wire_config_ok_def intro: sllao_option_wf capport_option_wf)
  have lowpan: "(case AdvLowpanCoList iface of [] \<Rightarrow> [] | co # _ \<Rightarrow> [lowpanco_image co]) =
      (if AdvLowpanCoList iface \<noteq> [] then [lowpanco_image (hd (AdvLowpanCoList iface))] else [])"
    and abro: "(case AdvAbroList iface of [] \<Rightarrow> [] | a # _ \<Rightarrow> [abro_image a]) =
      (if AdvAbroList iface \<noteq> [] then [abro_image (hd (AdvAbroList iface))] else [])"
    by (simp_all split: list.split)
  have portal: "opts.adds sbl (case AdvCaptivePortalAPI iface of None \<Rightarrow> [] | Some u \<Rightarrow> [capport_option_image u])
      (case AdvCaptivePortalAPI iface of None \<Rightarrow> Some sbl
       | Some url \<Rightarrow> add_new_block (\<lambda>sb. add_ra_option_capport sb url) sbl)" if "sbl_inv sbl" for sbl
    using that capp by (auto simp: opts.adds_none adds_wf(2) capport_writes split: option.split)
  show ?thesis
    unfolding build_ra_options_def ra_option_images_def Let_def add_ra_options_dnssl_def
      lowpan abro schedule_defs simp_thms if_True
    by (intro opts.adds_bind opts.adds_if opts.adds_none adds_wf(2) add_ra_options_prefix_adds
        add_ra_options_nat64prefix_adds add_ra_options_route_adds add_ra_options_rdnss_adds
        add_ra_options_dnssl_loop_adds portal route dnssl sll fixed_options_wf
        single_block_writes sllao_writes new_safe_buffer_list_simps new_safe_buffer_simps)
qed

subsection \<open>Well-formed on the wire, whatever the names of the search lists\<close>

definition wf_blocks :: "safe_buffer_list \<Rightarrow> bool" where
  "wf_blocks sbl \<longleftrightarrow> sbl_inv sbl \<and> list_all nd_opt_wf (blocks sbl)"

lemma adds_wf_blocks:
  "opts.adds sbl ms (Some sbl') \<Longrightarrow> list_all nd_opt_wf ms \<Longrightarrow> wf_blocks sbl \<Longrightarrow> wf_blocks sbl'"
  by (auto simp: opts.adds_def wf_blocks_def)

lemma add_ra_options_dnssl_loop_wf:
  "sb_inv sd \<Longrightarrow> wf_blocks sbl \<Longrightarrow>
     add_ra_options_dnssl_loop sd sbl iface ds cease dest = Some sbl' \<Longrightarrow> wf_blocks sbl'"
proof (induction ds arbitrary: sbl sd)
  case Nil
  then show ?case by simp
next
  case (Cons d ds)
  from Cons.prems(3) obtain n sd' where
    s: "serialize_domain_names (sd\<lparr>used := 0\<rparr>) 0 (AdvDNSSLSuffixes d) = Some (n, sd')"
    by (auto simp: schedule_defs bind_eq_Some_conv)
  from serialize_domain_names_extends [OF used_reset(1) [OF Cons.prems(1)] s] used_reset(2)
  have sd': "sb_inv sd'" "n = length (contents sd')"
    by (auto simp: extends_def)
  let ?m = "contents sd'"
  show ?case
  proof (cases "dnssl_groups ?m \<le> 255")
    case True
    have add: "opts.adds sbl [dnssl_option_image d cease ?m]
        (add_block (\<lambda>sb. add_ra_option_dnssl sb sd' (length ?m) d cease) sbl)"
      using Cons.prems(2) by (intro adds_wf(1) dnssl_option_wf True dnssl_writes refl)
        (simp_all add: wf_blocks_def)
    then obtain sbl1 where
      sbl1: "add_block (\<lambda>sb. add_ra_option_dnssl sb sd' (length ?m) d cease) sbl = Some sbl1"
      by (auto simp: opts.adds_def)
    have "wf_blocks sbl1"
      using adds_wf_blocks [OF add [unfolded sbl1]] Cons.prems(2) dnssl_option_wf [OF True] by simp
    moreover have "add_ra_options_dnssl_loop sd' sbl1 iface ds cease dest = Some sbl'"
      using Cons.prems(3) True
      by (simp only: add_ra_options_dnssl_loop.simps s sd'(2))
         (simp add: schedule_defs sbl1 dnssl_groups_def del: length_contents split: if_splits)
    ultimately show ?thesis
      using Cons.IH [OF sd'(1)] by blast
  next
    case False
    then have "add_ra_options_dnssl_loop sd' sbl iface ds cease dest = Some sbl'"
      using Cons.prems(3)
      by (simp only: add_ra_options_dnssl_loop.simps s sd'(2))
         (simp add: schedule_defs dnssl_groups_def del: length_contents split: if_splits)
    with Cons.IH [OF sd'(1) Cons.prems(2)] show ?thesis by blast
  qed
qed

definition keeps_wf :: "safe_buffer_list \<Rightarrow> safe_buffer_list option \<Rightarrow> bool" where
  "keeps_wf sbl r \<longleftrightarrow> (wf_blocks sbl \<longrightarrow> (\<forall>sbl'. r = Some sbl' \<longrightarrow> wf_blocks sbl'))"

lemma keeps_wf_intros:
  "keeps_wf sbl (Some sbl)"
  "keeps_wf sbl r \<Longrightarrow> (\<And>sbl'. keeps_wf sbl' (f sbl')) \<Longrightarrow> keeps_wf sbl (r \<bind> f)"
  "(b \<Longrightarrow> keeps_wf sbl r) \<Longrightarrow> (\<not> b \<Longrightarrow> keeps_wf sbl r') \<Longrightarrow> keeps_wf sbl (if b then r else r')"
  unfolding keeps_wf_def by (simp, fastforce simp: bind_eq_Some_conv, simp)

lemma keeps_wf_adds:
  "(sbl_inv sbl \<Longrightarrow> opts.adds sbl ms r) \<Longrightarrow> list_all nd_opt_wf ms \<Longrightarrow> keeps_wf sbl r"
  unfolding keeps_wf_def wf_blocks_def using adds_wf_blocks [unfolded wf_blocks_def] by blast

lemma keeps_wf_put:
  "nd_opt_wf m \<Longrightarrow> (\<And>sb. sb_inv sb \<Longrightarrow> sb.writes sb m (f sb)) \<Longrightarrow> keeps_wf sbl (add_new_block f sbl)"
  by (rule keeps_wf_adds [of _ "[m]"]) (simp_all add: adds_wf(2))

lemma keeps_wf_dnssl: "keeps_wf sbl (add_ra_options_dnssl sbl iface ds cease dest)"
  unfolding keeps_wf_def add_ra_options_dnssl_def
  using add_ra_options_dnssl_loop_wf [OF new_safe_buffer_simps(3)] by blast

lemma build_ra_options_keeps_wf:
  assumes ok: "wire_config_ok iface"
  shows "build_ra_options k iface dest = Some sbl \<Longrightarrow> wf_blocks sbl"
proof -
  have route: "list_all (\<lambda>r. Route_PrefixLen r \<le> 128) (AdvRouteList iface)"
    and sll: "nd_opt_wf (sllao_option_image (sllao iface))"
    and capp: "AdvCaptivePortalAPI iface = Some u \<Longrightarrow> nd_opt_wf (capport_option_image u)" for u
    using ok by (auto simp: wire_config_ok_def intro: sllao_option_wf capport_option_wf)
  have lists: "keeps_wf sbl (add_ra_options_prefix k sbl iface ps cease dest)"
    "keeps_wf sbl (add_ra_options_nat64prefix sbl ns)"
    "keeps_wf sbl (add_ra_options_route sbl iface (AdvRouteList iface) cease dest)"
    "keeps_wf sbl (add_ra_options_rdnss sbl iface rs cease dest)" for sbl ps ns rs cease
    using route by (auto simp: list_all_iff fixed_options_wf route_option_wf rdnss_option_wf
        intro: keeps_wf_adds [OF add_ra_options_prefix_adds] keeps_wf_adds [OF add_ra_options_nat64prefix_adds]
          keeps_wf_adds [OF add_ra_options_route_adds] keeps_wf_adds [OF add_ra_options_rdnss_adds])
  have portal: "keeps_wf sbl (case AdvCaptivePortalAPI iface of None \<Rightarrow> Some sbl
       | Some url \<Rightarrow> add_new_block (\<lambda>sb. add_ra_option_capport sb url) sbl)" for sbl
    using capp by (auto simp: keeps_wf_intros keeps_wf_put capport_writes split: option.split)
  have "keeps_wf new_safe_buffer_list (build_ra_options k iface dest)"
    unfolding build_ra_options_def Let_def schedule_defs simp_thms if_True
    by (intro keeps_wf_intros keeps_wf_dnssl lists portal keeps_wf_put [OF sll sllao_writes]
        keeps_wf_put [OF fixed_options_wf(3) single_block_writes(5)]
        keeps_wf_put [OF fixed_options_wf(4) single_block_writes(6)]
        keeps_wf_put [OF fixed_options_wf(5) single_block_writes(7)]
        keeps_wf_put [OF fixed_options_wf(6) single_block_writes(8)]
        keeps_wf_put [OF fixed_options_wf(7) single_block_writes(9)])
  then show "build_ra_options k iface dest = Some sbl \<Longrightarrow> wf_blocks sbl"
    by (simp add: keeps_wf_def wf_blocks_def)
qed

end
