(* ===== verification/Privsep.thy ===== *)
theory Privsep
  imports World
begin

text \<open>
  The privileged helper process, \<^verbatim>\<open>privsep-linux.c\<close>, and the loops \<open>readn\<close> and \<open>writen\<close> of \<^verbatim>\<open>util.c\<close>
  that move its commands through a pipe.

  A command is a struct of 24 bytes: a 32-bit type, a name of 16 bytes and a 32-bit value, in the
  byte order of the machine, here little-endian. The operating system decides how many bytes one
  call of \<^verbatim>\<open>read\<close> or \<^verbatim>\<open>write\<close> moves; a script lists the outcomes of the calls, and the end of the
  script is a call that never returns, the value \<open>None\<close>. The files under \<^verbatim>\<open>/proc/sys\<close> are known by
  what opening and printing to them does; the numbers printed are recorded.
\<close>

subsection \<open>util.c: readn and writen\<close>

text \<open>\<open>Moved k\<close> allows at most \<open>k\<close> bytes; a read at the end of the input moves none.\<close>

datatype io_call = Moved nat | EINTR | Failed

text \<open>The result is the return value, the bytes read, and what is left of the input and the script.\<close>

fun readn_loop :: "io_call list \<Rightarrow> byte list \<Rightarrow> nat \<Rightarrow> byte list \<Rightarrow>
    (int \<times> byte list \<times> byte list \<times> io_call list) option" where
  "readn_loop script inp 0 buf = Some (int (length buf), buf, inp, script)"
| "readn_loop [] inp (Suc n) buf = None"
| "readn_loop (Moved k # script) inp (Suc n) buf =
     (let r = min k (min (Suc n) (length inp))
      in if r = 0 then Some (int (length buf), buf, inp, script)
         else readn_loop script (drop r inp) (Suc n - r) (buf @ take r inp))"
| "readn_loop (EINTR # script) inp (Suc n) buf = readn_loop script inp (Suc n) buf"
| "readn_loop (Failed # script) inp (Suc n) buf = Some (- 1, buf, inp, script)"

definition readn :: "io_call list \<Rightarrow> byte list \<Rightarrow> nat \<Rightarrow>
    (int \<times> byte list \<times> byte list \<times> io_call list) option" where
  "readn script inp count = readn_loop script inp count []"

text \<open>The bytes that \<open>writen\<close> handed to the system, and its return value.\<close>

fun writen_loop :: "io_call list \<Rightarrow> byte list \<Rightarrow> byte list \<Rightarrow> (int \<times> byte list \<times> io_call list) option" where
  "writen_loop script [] out = Some (int (length out), out, script)"
| "writen_loop [] (b # buf) out = None"
| "writen_loop (Moved k # script) (b # buf) out =
     (let r = min k (Suc (length buf))
      in if r = 0 then Some (int (length out), out, script)
         else writen_loop script (drop r (b # buf)) (out @ take r (b # buf)))"
| "writen_loop (EINTR # script) (b # buf) out = writen_loop script (b # buf) out"
| "writen_loop (Failed # script) (b # buf) out = Some (- 1, out, script)"

definition writen :: "io_call list \<Rightarrow> byte list \<Rightarrow> (int \<times> byte list \<times> io_call list) option" where
  "writen script buf = writen_loop script buf []"

subsection \<open>privsep-linux.c: the files under /proc/sys\<close>

datatype open_result = ENOENT | Not_writable | Writable

record procfs =
  open_file :: "string \<Rightarrow> open_result"
  written :: "(string \<times> u32) list"

text \<open>A path with one \<^verbatim>\<open>%s\<close>: what stands before and after it.\<close>

type_synonym proc_var = "string \<times> string"

definition PROC_SYS_IP6_LINKMTU :: proc_var where
  [simp]: "PROC_SYS_IP6_LINKMTU = (''/proc/sys/net/ipv6/conf/'', ''/mtu'')"
definition PROC_SYS_IP6_CURHLIM :: proc_var where
  [simp]: "PROC_SYS_IP6_CURHLIM = (''/proc/sys/net/ipv6/conf/'', ''/hop_limit'')"
definition PROC_SYS_IP6_BASEREACHTIME_MS :: proc_var where
  [simp]: "PROC_SYS_IP6_BASEREACHTIME_MS = (''/proc/sys/net/ipv6/neigh/'', ''/base_reachable_time_ms'')"
definition PROC_SYS_IP6_BASEREACHTIME :: proc_var where
  [simp]: "PROC_SYS_IP6_BASEREACHTIME = (''/proc/sys/net/ipv6/neigh/'', ''/base_reachable_time'')"
definition PROC_SYS_IP6_RETRANSTIMER_MS :: proc_var where
  [simp]: "PROC_SYS_IP6_RETRANSTIMER_MS = (''/proc/sys/net/ipv6/neigh/'', ''/retrans_time_ms'')"
definition PROC_SYS_IP6_RETRANSTIMER :: proc_var where
  [simp]: "PROC_SYS_IP6_RETRANSTIMER = (''/proc/sys/net/ipv6/neigh/'', ''/retrans_time'')"

definition strdupf :: "proc_var \<Rightarrow> string \<Rightarrow> string" where
  "strdupf var iface = fst var @ iface @ snd var"

definition set_interface_var :: "string \<Rightarrow> proc_var \<Rightarrow> u32 \<Rightarrow> procfs \<Rightarrow> int \<times> procfs" where
  "set_interface_var iface var val fs =
     (let spath = strdupf var iface
      in if iface = [] \<or> iface = ''.'' \<or> iface = ''..'' \<or> CHR ''/'' \<in> set iface then (- 1, fs)
         else case open_file fs spath of
           ENOENT \<Rightarrow> (- 1, fs)
         | Not_writable \<Rightarrow> (- 1, fs)
         | Writable \<Rightarrow> (0, fs\<lparr>written := written fs @ [(spath, val)]\<rparr>))"

subsection \<open>privsep-linux.c: commands\<close>

definition USER_HZ :: u32 where [simp]: "USER_HZ = 100"

primrec privsep_code :: "privsep_type \<Rightarrow> u32" where
  "privsep_code SET_INTERFACE_LINKMTU = 0"
| "privsep_code SET_INTERFACE_CURHLIM = 1"
| "privsep_code SET_INTERFACE_REACHTIME = 2"
| "privsep_code SET_INTERFACE_RETRANSTIMER = 3"

definition host_bytes :: "u32 \<Rightarrow> byte list" where
  "host_bytes w = rev (be 4 w)"

definition host_u32 :: "byte list \<Rightarrow> u32" where
  "host_u32 bs = from_be (rev bs)"

text \<open>\<^verbatim>\<open>memset\<close> and \<^verbatim>\<open>strlcpy\<close> into the array of 16 characters.\<close>

definition name_field :: "string \<Rightarrow> byte list" where
  "name_field s = (let b = take 15 (map (\<lambda>c. of_char c) s) in b @ replicate (16 - length b) 0)"

definition command_bytes :: "privsep_command \<Rightarrow> byte list" where
  "command_bytes cmd =
     host_bytes (privsep_code (cmd_type cmd)) @ name_field (cmd_iface cmd) @ host_bytes (cmd_val cmd)"

text \<open>The name the reader sees: the array with its last byte cleared, up to the first zero.\<close>

definition field_name :: "byte list \<Rightarrow> string" where
  "field_name bs = map (\<lambda>b. char_of (unat b)) (takeWhile (\<lambda>b. b \<noteq> 0) (bs[15 := 0]))"

text \<open>The body of the loop for one complete command.\<close>

definition privsep_command_run :: "u32 \<Rightarrow> string \<Rightarrow> u32 \<Rightarrow> procfs \<Rightarrow> procfs" where
  "privsep_command_run type iface val fs =
     (if type = 0 then
        (if val < MIN_AdvLinkMTU \<or> val > MAX_AdvLinkMTU then fs
         else snd (set_interface_var iface PROC_SYS_IP6_LINKMTU val fs))
      else if type = 1 then
        (if val < MIN_AdvCurHopLimit \<or> val > MAX_AdvCurHopLimit then fs
         else snd (set_interface_var iface PROC_SYS_IP6_CURHLIM val fs))
      else if type = 2 then
        (if val < MIN_AdvReachableTime \<or> val > MAX_AdvReachableTime then fs
         else let (ret, fs) = set_interface_var iface PROC_SYS_IP6_BASEREACHTIME_MS val fs
              in if ret = 0 then fs
                 else snd (set_interface_var iface PROC_SYS_IP6_BASEREACHTIME (val div 1000) fs))
      else if type = 3 then
        (if val < MIN_AdvRetransTimer \<or> val > MAX_AdvRetransTimer then fs
         else let (ret, fs) = set_interface_var iface PROC_SYS_IP6_RETRANSTIMER_MS val fs
              in if ret = 0 then fs
                 else snd (set_interface_var iface PROC_SYS_IP6_RETRANSTIMER (val div 1000 * USER_HZ) fs))
      else fs)"

lemma readn_loop_script:
  "readn_loop script inp n buf = Some (r, buf', inp', script') \<Longrightarrow> length script' \<le> length script"
  by (induction script inp n buf rule: readn_loop.induct) (auto simp: Let_def split: if_split_asm)

lemma readn_loop_consumes:
  "readn_loop script inp n buf = Some (r, buf', inp', script') \<Longrightarrow> 0 < n \<Longrightarrow>
     length script' < length script"
proof (induction script inp n buf rule: readn_loop.induct)
  case (3 k script inp n buf)
  then show ?case
    by (auto simp: Let_def less_Suc_eq_le split: if_split_asm dest: readn_loop_script)
qed auto

text \<open>The loop ends at an error, at the end of the input or at a short read.\<close>

function privsep_read_loop :: "io_call list \<Rightarrow> byte list \<Rightarrow> procfs \<Rightarrow> procfs option" where
  "privsep_read_loop script inp fs = do {
     (ret, cmd, inp, script) \<leftarrow> readn script inp 24;
     if ret \<noteq> 24 then Some fs
     else privsep_read_loop script inp
       (privsep_command_run (host_u32 (take 4 cmd)) (field_name (take 16 (drop 4 cmd)))
         (host_u32 (drop 20 cmd)) fs)
   }"
  by pat_completeness auto
termination
  by (relation "measure (\<lambda>(script, inp, fs). length script)")
     (auto simp: readn_def dest: readn_loop_consumes)

declare privsep_read_loop.simps [simp del]

subsection \<open>privsep-linux.c and device-linux.c: the calls of the unprivileged process\<close>

text \<open>
  A command is shorter than the size up to which a write to a pipe is not cut, and all four callers
  ignore the result: the world keeps the commands written, as the helper will read them.
\<close>

definition privsep_command_write :: "privsep_type \<Rightarrow> string \<Rightarrow> u32 \<Rightarrow> world \<Rightarrow> world" where
  "privsep_command_write t ifn v w =
     w\<lparr>privsep_out := privsep_out w @ [\<lparr>cmd_type = t, cmd_iface = take 15 ifn, cmd_val = v\<rparr>]\<rparr>"

definition privsep_interface_linkmtu :: "string \<Rightarrow> u32 \<Rightarrow> world \<Rightarrow> world" where
  "privsep_interface_linkmtu iface mtu = privsep_command_write SET_INTERFACE_LINKMTU iface mtu"
definition privsep_interface_curhlim :: "string \<Rightarrow> u32 \<Rightarrow> world \<Rightarrow> world" where
  "privsep_interface_curhlim iface hlim = privsep_command_write SET_INTERFACE_CURHLIM iface hlim"
definition privsep_interface_reachtime :: "string \<Rightarrow> u32 \<Rightarrow> world \<Rightarrow> world" where
  "privsep_interface_reachtime iface rtime = privsep_command_write SET_INTERFACE_REACHTIME iface rtime"
definition privsep_interface_retranstimer :: "string \<Rightarrow> u32 \<Rightarrow> world \<Rightarrow> world" where
  "privsep_interface_retranstimer iface rettimer =
     privsep_command_write SET_INTERFACE_RETRANSTIMER iface rettimer"

definition set_interface_linkmtu :: "string \<Rightarrow> u32 \<Rightarrow> world \<Rightarrow> world" where
  "set_interface_linkmtu iface mtu = privsep_interface_linkmtu iface mtu"
definition set_interface_curhlim :: "string \<Rightarrow> byte \<Rightarrow> world \<Rightarrow> world" where
  "set_interface_curhlim iface hlim = privsep_interface_curhlim iface (ucast hlim)"
definition set_interface_reachtime :: "string \<Rightarrow> u32 \<Rightarrow> world \<Rightarrow> world" where
  "set_interface_reachtime iface rtime = privsep_interface_reachtime iface rtime"
definition set_interface_retranstimer :: "string \<Rightarrow> u32 \<Rightarrow> world \<Rightarrow> world" where
  "set_interface_retranstimer iface rettimer = privsep_interface_retranstimer iface rettimer"

lemmas set_interface_defs = set_interface_linkmtu_def privsep_interface_linkmtu_def
  set_interface_curhlim_def privsep_interface_curhlim_def
  set_interface_reachtime_def privsep_interface_reachtime_def
  set_interface_retranstimer_def privsep_interface_retranstimer_def privsep_command_write_def

subsection \<open>Complete reads and writes\<close>

fun is_Moved :: "io_call \<Rightarrow> bool" where
  "is_Moved (Moved k) = True"
| "is_Moved c = False"

text \<open>No call fails and none returns zero bytes early.\<close>

definition undisturbed :: "io_call list \<Rightarrow> bool" where
  "undisturbed script \<longleftrightarrow> Failed \<notin> set script \<and> Moved 0 \<notin> set script"

lemma undisturbed_Cons [simp]:
  "undisturbed (c # script) \<longleftrightarrow> c \<noteq> Failed \<and> c \<noteq> Moved 0 \<and> undisturbed script"
  by (auto simp: undisturbed_def)

abbreviation moves :: "io_call list \<Rightarrow> nat" where
  "moves script \<equiv> length (filter is_Moved script)"

text \<open>However the system cuts the transfer into pieces, all bytes asked for arrive in order.\<close>

lemma readn_loop_all:
  "n \<le> length inp \<Longrightarrow> n \<le> moves script \<Longrightarrow> undisturbed script \<Longrightarrow>
     \<exists>script'. readn_loop script inp n buf = Some (int (length buf + n), buf @ take n inp, drop n inp, script') \<and>
       undisturbed script' \<and> moves script \<le> moves script' + n"
proof (induction script inp n buf rule: readn_loop.induct)
  case (3 k script inp n buf)
  define r where "r = min k (min (Suc n) (length inp))"
  have r: "0 < r" "r \<le> Suc n" "r \<le> length inp"
    using "3.prems"(1,3) by (auto simp: r_def)
  have "Suc n - r \<le> length (drop r inp)" "Suc n - r \<le> moves script" "undisturbed script"
    using "3.prems" r by auto
  from "3.IH" [OF r_def _ this] r obtain script' where
    1: "readn_loop script (drop r inp) (Suc n - r) (buf @ take r inp) =
      Some (int (length (buf @ take r inp) + (Suc n - r)),
        (buf @ take r inp) @ take (Suc n - r) (drop r inp), drop (Suc n - r) (drop r inp), script')"
    "undisturbed script'" "moves script \<le> moves script' + (Suc n - r)"
    by auto
  have 2: "(buf @ take r inp) @ take (Suc n - r) (drop r inp) = buf @ take (Suc n) inp"
    using take_add [of r "Suc n - r" inp] r(2) by simp
  have 3: "drop (Suc n - r) (drop r inp) = drop (Suc n) inp"
    using r(2) by simp
  have 4: "length (buf @ take r inp) + (Suc n - r) = length buf + Suc n"
    using r by simp
  have "readn_loop (Moved k # script) inp (Suc n) buf =
      readn_loop script (drop r inp) (Suc n - r) (buf @ take r inp)"
    using r(1) by (simp add: Let_def r_def [symmetric])
  with 1 [unfolded 2 3 4] r(1) show ?case
    by (intro exI [of _ script']) simp
qed (auto simp: le_Suc_eq)

lemma readn_all:
  assumes "n \<le> length inp" and "n \<le> moves script" and "undisturbed script"
  shows "\<exists>script'. readn script inp n = Some (int n, take n inp, drop n inp, script') \<and>
    undisturbed script' \<and> moves script \<le> moves script' + n"
  using readn_loop_all [OF assms, of "[]"] by (simp add: readn_def)

lemma readn_eof:
  "0 < moves script \<Longrightarrow> undisturbed script \<Longrightarrow> 0 < n \<Longrightarrow>
     \<exists>script'. readn script [] n = Some (0, [], [], script')"
  unfolding readn_def
proof (induction script "[] :: byte list" n "[] :: byte list" rule: readn_loop.induct)
qed (auto simp: Let_def)

lemma writen_loop_all:
  "length buf \<le> moves script \<Longrightarrow> undisturbed script \<Longrightarrow>
     \<exists>script'. writen_loop script buf out = Some (int (length out + length buf), out @ buf, script')"
proof (induction script buf out rule: writen_loop.induct)
  case (3 k script b buf out)
  let ?r = "min k (Suc (length buf))"
  have "length (drop ?r (b # buf)) \<le> moves script" "undisturbed script"
    using "3.prems" by auto
  moreover have "?r \<noteq> 0"
    using "3.prems"(2) by auto
  ultimately obtain script' where
    "writen_loop script (drop ?r (b # buf)) (out @ take ?r (b # buf)) =
      Some (int (length (out @ take ?r (b # buf)) + length (drop ?r (b # buf))),
        (out @ take ?r (b # buf)) @ drop ?r (b # buf), script')"
    using "3.IH" [OF refl] by blast
  moreover have "length (take ?r (b # buf)) + length (drop ?r (b # buf)) = Suc (length buf)"
    by simp
  ultimately show ?case
    using "3.prems"(2) by (simp add: Let_def del: take_Suc_Cons drop_Suc_Cons)
qed auto

subsection \<open>Commands through the pipe\<close>

text \<open>A name the reader gets back as it was written.\<close>

definition wire_name_ok :: "string \<Rightarrow> bool" where
  "wire_name_ok s \<longleftrightarrow> length s \<le> 15 \<and> CHR 0x00 \<notin> set s"

lemma host_u32_bytes [simp]: "host_u32 (host_bytes w) = w" "length (host_bytes w) = 4"
  by (simp_all add: host_u32_def host_bytes_def from_be_be)

lemma length_name_field [simp]: "length (name_field s) = 16"
  by (simp add: name_field_def Let_def)

lemma length_command_bytes [simp]: "length (command_bytes cmd) = 24"
  by (simp add: command_bytes_def)

lemma unat_of_char: "unat (of_char c :: byte) = of_char c"
proof -
  have "(of_char c :: nat) < 256"
    using of_char_mod_256 [of c, where 'a = nat] by (metis mod_less_divisor zero_less_numeral)
  then have "unat (word_of_nat (of_char c) :: byte) = of_char c"
    by (simp add: unat_of_nat)
  then show ?thesis
    by (simp add: of_nat_of_char)
qed

lemma of_char_byte_0: "(of_char c :: byte) = 0 \<longleftrightarrow> c = CHR 0x00"
proof -
  have "(of_char c :: byte) = 0 \<longleftrightarrow> (of_char c :: nat) = 0"
    by (subst unat_of_char [symmetric]) (rule unat_eq_zero [symmetric])
  also have "\<dots> \<longleftrightarrow> (of_char c :: nat) = of_char (CHR 0x00)"
    by simp
  finally show ?thesis
    by (simp only: of_char_eq_iff)
qed

lemma field_name_field: "wire_name_ok s \<Longrightarrow> field_name (name_field s) = s"
proof -
  assume s: "wire_name_ok s"
  let ?b = "map of_char s :: byte list"
  have nz: "\<forall>b \<in> set ?b. b \<noteq> 0"
    using s by (auto simp: wire_name_ok_def of_char_byte_0)
  have "name_field s = ?b @ replicate (16 - length s) 0"
    using s by (simp add: name_field_def wire_name_ok_def)
  moreover have "(?b @ replicate (16 - length s) 0)[15 := 0] = ?b @ replicate (16 - length s) 0"
    using s by (intro nth_equalityI) (auto simp: wire_name_ok_def nth_list_update nth_append)
  ultimately have "takeWhile (\<lambda>b. b \<noteq> 0) ((name_field s)[15 := 0]) =
      takeWhile (\<lambda>b. b \<noteq> 0) (?b @ replicate (16 - length s) 0)"
    by simp
  also have "\<dots> = ?b @ takeWhile (\<lambda>b. b \<noteq> 0) (replicate (16 - length s) 0)"
    using nz by (intro takeWhile_append2) blast
  also have "takeWhile (\<lambda>b. b \<noteq> 0) (replicate (16 - length s) (0 :: byte)) = []"
    by (cases "16 - length s") auto
  finally show ?thesis
    by (simp add: field_name_def o_def unat_of_char)
qed

definition run_command :: "privsep_command \<Rightarrow> procfs \<Rightarrow> procfs" where
  "run_command cmd fs = privsep_command_run (privsep_code (cmd_type cmd)) (cmd_iface cmd) (cmd_val cmd) fs"

text \<open>Round trip: the helper runs the commands the daemon wrote, in order, and ends with the pipe.\<close>

lemma privsep_read_loop_runs:
  "list_all (\<lambda>cmd. wire_name_ok (cmd_iface cmd)) cmds \<Longrightarrow> undisturbed script \<Longrightarrow>
     24 * length cmds < moves script \<Longrightarrow>
     privsep_read_loop script (concat (map command_bytes cmds)) fs = Some (fold run_command cmds fs)"
proof (induction cmds arbitrary: script fs)
  case Nil
  then obtain script' where "readn script [] 24 = Some (0, [], [], script')"
    using readn_eof [of script 24] by auto
  then show ?case by (subst privsep_read_loop.simps) simp
next
  case (Cons cmd cmds)
  let ?inp = "command_bytes cmd @ concat (map command_bytes cmds)"
  have "24 \<le> moves script"
    using Cons.prems(3) by simp
  from readn_all [OF _ this Cons.prems(2), of ?inp] obtain script' where
    r: "readn script ?inp 24 = Some (24, command_bytes cmd, concat (map command_bytes cmds), script')"
      "undisturbed script'" "moves script \<le> moves script' + 24"
    by auto
  have "host_u32 (take 4 (command_bytes cmd)) = privsep_code (cmd_type cmd)"
    "field_name (take 16 (drop 4 (command_bytes cmd))) = cmd_iface cmd"
    "host_u32 (drop 20 (command_bytes cmd)) = cmd_val cmd"
    using Cons.prems(1) by (simp_all add: command_bytes_def field_name_field)
  with r Cons.IH [of script' "run_command cmd fs"] Cons.prems show ?case
    by (subst privsep_read_loop.simps) (simp flip: run_command_def)
qed

subsection \<open>What the helper can be made to write\<close>

text \<open>The names that keep a path below its directory, and the writes the helper may do for them.\<close>

definition plain_name :: "string \<Rightarrow> bool" where
  "plain_name s \<longleftrightarrow> s \<noteq> [] \<and> s \<noteq> ''.'' \<and> s \<noteq> ''..'' \<and> CHR ''/'' \<notin> set s \<and> length s \<le> 15"

inductive sysctl_ok :: "string \<times> u32 \<Rightarrow> bool" where
  mtu: "plain_name iface \<Longrightarrow> MIN_AdvLinkMTU \<le> val \<Longrightarrow> val \<le> MAX_AdvLinkMTU \<Longrightarrow>
    sysctl_ok (strdupf PROC_SYS_IP6_LINKMTU iface, val)"
| hop_limit: "plain_name iface \<Longrightarrow> MIN_AdvCurHopLimit \<le> val \<Longrightarrow> val \<le> MAX_AdvCurHopLimit \<Longrightarrow>
    sysctl_ok (strdupf PROC_SYS_IP6_CURHLIM iface, val)"
| reach_ms: "plain_name iface \<Longrightarrow> MIN_AdvReachableTime \<le> val \<Longrightarrow> val \<le> MAX_AdvReachableTime \<Longrightarrow>
    sysctl_ok (strdupf PROC_SYS_IP6_BASEREACHTIME_MS iface, val)"
| reach: "plain_name iface \<Longrightarrow> val \<le> 3600 \<Longrightarrow> sysctl_ok (strdupf PROC_SYS_IP6_BASEREACHTIME iface, val)"
| retrans_ms: "plain_name iface \<Longrightarrow> MIN_AdvRetransTimer \<le> val \<Longrightarrow> val \<le> MAX_AdvRetransTimer \<Longrightarrow>
    sysctl_ok (strdupf PROC_SYS_IP6_RETRANSTIMER_MS iface, val)"
| retrans: "plain_name iface \<Longrightarrow> val \<le> 360000 \<Longrightarrow> sysctl_ok (strdupf PROC_SYS_IP6_RETRANSTIMER iface, val)"

lemma set_interface_var_cases:
  assumes "length iface \<le> 15"
  obtains (refused) "set_interface_var iface var val fs = (- 1, fs)"
  | (set_var) "plain_name iface"
      "set_interface_var iface var val fs = (0, fs\<lparr>written := written fs @ [(strdupf var iface, val)]\<rparr>)"
proof (cases "plain_name iface \<and> open_file fs (strdupf var iface) = Writable")
  case True
  then show ?thesis
    by (intro set_var) (auto simp: set_interface_var_def plain_name_def Let_def)
next
  case False
  with assms show ?thesis
    by (intro refused) (auto simp: set_interface_var_def plain_name_def Let_def split: open_result.split)
qed

lemma set_interface_var_writes:
  assumes "length iface \<le> 15" and "list_all sysctl_ok (written fs)"
    and "plain_name iface \<Longrightarrow> sysctl_ok (strdupf var iface, val)"
  shows "list_all sysctl_ok (written (snd (set_interface_var iface var val fs)))"
  by (rule set_interface_var_cases [OF assms(1), of var val fs]) (use assms(2,3) in simp_all)

lemma div_1000_le:
  fixes val :: u32
  assumes "val \<le> 3600000"
  shows "val div 1000 \<le> 3600" and "val div 1000 * USER_HZ \<le> 360000"
proof -
  have v: "unat val \<le> 3600000"
    using assms by (simp add: word_le_nat_alt)
  then have d: "unat (val div 1000) \<le> 3600"
    by (simp add: unat_div)
  then show "val div 1000 \<le> 3600"
    by (simp add: word_le_nat_alt)
  have "unat (val div 1000 * 100) = unat (val div 1000) * 100"
    using d by (subst unat_mult_lem [THEN iffD1]) simp_all
  with d show "val div 1000 * USER_HZ \<le> 360000"
    by (simp add: word_le_nat_alt)
qed

lemma privsep_command_run_confined:
  assumes n: "length iface \<le> 15" and w: "list_all sysctl_ok (written fs)"
  shows "list_all sysctl_ok (written (privsep_command_run type iface val fs))"
proof -
  note 1 = set_interface_var_writes [OF n w]
  have two: "list_all sysctl_ok (written (let (ret, fs) = set_interface_var iface var val fs
      in if ret = 0 then fs else snd (set_interface_var iface var' val' fs)))"
    if "plain_name iface \<Longrightarrow> sysctl_ok (strdupf var iface, val)"
      "plain_name iface \<Longrightarrow> sysctl_ok (strdupf var' iface, val')" for var var' val val'
    by (rule set_interface_var_cases [OF n, of var val fs])
       (use w that set_interface_var_writes [OF n w, of var' val'] in auto)
  have keep: "list_all sysctl_ok (written (if b then fs else x))"
    if "\<not> b \<Longrightarrow> list_all sysctl_ok (written x)" for b x
    using that w by simp
  have in_range: "\<not> (val < lo \<or> hi < val) \<Longrightarrow> lo \<le> val \<and> val \<le> hi" for lo hi :: u32
    by (simp add: not_less)
  have small: "val div 1000 \<le> 3600" "val div 1000 * USER_HZ \<le> 360000"
    if "\<not> (val < lo \<or> hi < val)" "hi = 3600000" for lo hi
    using div_1000_le [of val] that by (simp_all add: not_less)
  show ?thesis
    unfolding privsep_command_run_def
    apply (intro if_split [where P = "\<lambda>x. list_all sysctl_ok (written x)", THEN iffD2] conjI impI w 1 two)
    apply (erule in_range [THEN conjE]; erule sysctl_ok.intros; assumption)+
    apply (rule sysctl_ok.intros, assumption, erule small, simp)
    apply (erule in_range [THEN conjE]; erule sysctl_ok.intros; assumption)
    apply (rule sysctl_ok.intros, assumption, erule small, simp)
    done
qed

lemma length_field_name: "length bs = 16 \<Longrightarrow> length (field_name bs) \<le> 15"
proof -
  assume l: "length bs = 16"
  let ?n = "length (takeWhile (\<lambda>b. b \<noteq> 0) (bs[15 := 0]))"
  have "\<not> 15 < ?n"
  proof
    assume 15: "15 < ?n"
    then have "takeWhile (\<lambda>b. b \<noteq> 0) (bs[15 := 0]) ! 15 \<noteq> 0"
      using nth_mem [OF 15] by (blast dest: set_takeWhileD)
    with 15 have "bs[15 := 0] ! 15 \<noteq> 0"
      by (simp add: takeWhile_nth)
    with l show False by simp
  qed
  then show ?thesis
    by (simp add: field_name_def)
qed

text \<open>Whatever bytes arrive on the pipe, the helper writes only in-range values to its own files.\<close>

lemma readn_loop_length:
  "readn_loop script inp n buf = Some (r, buf', inp', script') \<Longrightarrow> r = - 1 \<or> r = int (length buf')"
  by (induction script inp n buf rule: readn_loop.induct) (auto simp: Let_def split: if_split_asm)

lemma privsep_read_loop_confined:
  "privsep_read_loop script inp fs = Some fs' \<Longrightarrow> list_all sysctl_ok (written fs) \<Longrightarrow>
     list_all sysctl_ok (written fs')"
proof (induction script inp fs rule: privsep_read_loop.induct)
  case (1 script inp fs)
  from "1.prems"(1) obtain ret cmd inp' script' where
    r: "readn script inp 24 = Some (ret, cmd, inp', script')" and
    rest: "(if ret \<noteq> 24 then Some fs else privsep_read_loop script' inp'
       (privsep_command_run (host_u32 (take 4 cmd)) (field_name (take 16 (drop 4 cmd)))
         (host_u32 (drop 20 cmd)) fs)) = Some fs'"
    by (subst (asm) privsep_read_loop.simps) (auto simp: bind_eq_Some_conv)
  show ?case
  proof (cases "ret = 24")
    case False
    with rest "1.prems"(2) show ?thesis by simp
  next
    case True
    with readn_loop_length [OF r [unfolded readn_def]] have "length cmd = 24"
      by simp
    then have "length (field_name (take 16 (drop 4 cmd))) \<le> 15"
      by (intro length_field_name) simp
    from privsep_command_run_confined [OF this "1.prems"(2)] "1.IH" [OF r refl refl refl] True rest
    show ?thesis by auto
  qed
qed

end
