(* ===== verification/Device.thy ===== *)
theory Device
  imports Privsep Addr_Util
begin

unbundle bit_operations_syntax

text \<open>
  What radvd asks the operating system about an interface: \<^verbatim>\<open>device-common.c\<close>,
  \<^verbatim>\<open>device-linux.c\<close> and the link query of \<^verbatim>\<open>netlink.c\<close>. An operation returns \<open>None\<close> where the code
  calls \<^verbatim>\<open>exit(1)\<close>, and the C return code otherwise.
\<close>

text \<open>
  What the kernel documents of its answers: an MTU is a positive \<^verbatim>\<open>int\<close>, the union that holds the
  link-layer address has 22 bytes after the family, an attribute's payload length is below 64 KiB.
\<close>

definition kernel_ok :: "kernel \<Rightarrow> bool" where
  "kernel_ok k \<longleftrightarrow>
     (\<forall>n mtu. SIOCGIFMTU k n = Some mtu \<longrightarrow> mtu < 2 ^ 31) \<and>
     (\<forall>n fam d. SIOCGIFHWADDR k n = Some (fam, d) \<longrightarrow> 16 \<le> length d) \<and>
     (\<forall>i tb. nl_link_attrs k i = Some tb \<longrightarrow> (\<forall>(t, l) \<in> set tb. l < 65536))"

subsection \<open>device-common.c\<close>

definition check_device :: "kernel \<Rightarrow> Interface \<Rightarrow> int \<times> Interface" where
  "check_device k iface =
     (case SIOCGIFFLAGS k (name (props iface)) of
        None \<Rightarrow> (-1, iface)
      | Some flags \<Rightarrow>
          if flags AND IFF_UP = 0 then (-1, iface)
          else if flags AND IFF_RUNNING = 0 then (-1, iface)
          else if \<not> UnicastOnly iface \<and> flags AND (IFF_MULTICAST OR IFF_POINTOPOINT) = 0
          then (0, iface\<lparr>UnicastOnly := True\<rparr>)
          else (0, iface))"

text \<open>
  The loop over the addresses of the host: the addresses of the interface in the order found, and
  the first of them in \<^verbatim>\<open>fe80::/64\<close>, if any.
\<close>

definition is_ll_prefix :: "in6_addr \<Rightarrow> bool" where
  "is_ll_prefix a \<longleftrightarrow> take 8 (s6_addr a) = [0xfe, 0x80, 0, 0, 0, 0, 0, 0]"

fun get_iface_addrs_loop ::
    "string \<Rightarrow> in6_addr list \<Rightarrow> in6_addr option \<Rightarrow> ifaddrs list \<Rightarrow> in6_addr list \<times> in6_addr option" where
  "get_iface_addrs_loop nam addrs ll [] = (addrs, ll)"
| "get_iface_addrs_loop nam addrs ll (ifa # rest) =
     (case ifa_addr ifa of
        Some (AF_INET6 a6) \<Rightarrow>
          if ifa_name ifa \<noteq> nam then get_iface_addrs_loop nam addrs ll rest
          else if ll \<noteq> None \<or> \<not> is_ll_prefix a6
          then get_iface_addrs_loop nam (addrs @ [a6]) ll rest
          else get_iface_addrs_loop nam (addrs @ [a6]) (Some a6) rest
      | _ \<Rightarrow> get_iface_addrs_loop nam addrs ll rest)"

text \<open>
  The result is the return code, the address to store in \<^verbatim>\<open>*if_addr\<close>, if one was found, and the
  array \<^verbatim>\<open>*if_addrs\<close> with the unspecified address at its end. \<^verbatim>\<open>memcmp\<close> orders addresses as their
  big-endian values.
\<close>

definition get_iface_addrs :: "kernel \<Rightarrow> string \<Rightarrow> int \<times> in6_addr option \<times> in6_addr list" where
  "get_iface_addrs k nam =
     (let (addrs, ll) = get_iface_addrs_loop nam [] None
            (case getifaddrs k of None \<Rightarrow> [] | Some addresses \<Rightarrow> addresses)
      in ((if ll = None then -1 else int (length addrs)), ll, sort addrs @ [0]))"

text \<open>The first configured source address that the interface has, as its position.\<close>

fun find_index :: "('a \<Rightarrow> bool) \<Rightarrow> 'a list \<Rightarrow> nat option" where
  "find_index P [] = None"
| "find_index P (x # xs) = (if P x then Some 0 else map_option Suc (find_index P xs))"

fun select_rasrc :: "in6_addr list \<Rightarrow> in6_addr list \<Rightarrow> rasrc_ptr" where
  "select_rasrc addrs [] = Rasrc_NULL"
| "select_rasrc addrs (current # rest) =
     (case find_index (\<lambda>a. a = current) addrs of
        Some i \<Rightarrow> Rasrc_if_addrs i
      | None \<Rightarrow> select_rasrc addrs rest)"

definition setup_iface_addrs :: "kernel \<Rightarrow> Interface \<Rightarrow> int \<times> Interface" where
  "setup_iface_addrs k iface =
     (let (rc, ll, addrs) = get_iface_addrs k (name (props iface));
          p = props iface;
          p = (case ll of None \<Rightarrow> p | Some a \<Rightarrow> p\<lparr>if_addr := a\<rparr>);
          p = p\<lparr>if_addrs := addrs\<rparr>
      in if rc \<noteq> -1 then
           let p = p\<lparr>addrs_count := rc\<rparr>
           in if AdvRASrcAddressList iface \<noteq> []
              then (rc, iface\<lparr>props := p\<lparr>if_addr_rasrc :=
                      select_rasrc (take (nat rc) (if_addrs p)) (AdvRASrcAddressList iface)\<rparr>\<rparr>)
              else (rc, iface\<lparr>props := p\<lparr>if_addr_rasrc := Rasrc_if_addr\<rparr>\<rparr>)
         else (rc, iface\<lparr>props := p\<rparr>))"

definition update_device_index :: "kernel \<Rightarrow> Interface \<Rightarrow> int \<times> Interface" where
  "update_device_index k iface =
     (let index = if_nametoindex k (name (props iface))
      in if index = 0 then (-1, iface)
         else if if_index (props iface) \<noteq> index
         then (0, iface\<lparr>props := (props iface)\<lparr>if_index := index\<rparr>\<rparr>)
         else (0, iface))"

text \<open>The address \<^verbatim>\<open>*if_addr_rasrc\<close>.\<close>

definition rasrc_address :: "properties \<Rightarrow> in6_addr option" where
  "rasrc_address p =
     (case if_addr_rasrc p of
        Rasrc_NULL \<Rightarrow> None
      | Rasrc_if_addr \<Rightarrow> Some (if_addr p)
      | Rasrc_if_addrs i \<Rightarrow> if i < length (if_addrs p) then Some (if_addrs p ! i) else None)"

subsection \<open>device-linux.c\<close>

definition get_interface_linkmtu :: "kernel \<Rightarrow> string \<Rightarrow> u32 option" where
  "get_interface_linkmtu k ifn =
     (case proc_linkmtu k ifn of
        Proc_value v \<Rightarrow> Some (word_of_int v)
      | Unreadable \<Rightarrow> None
      | No_file \<Rightarrow> Some 1280)"

fun find_link_address :: "(u16 \<times> nat) list \<Rightarrow> int" where
  "find_link_address [] = -1"
| "find_link_address ((type, payload) # tb) =
     (if type AND NOT NLA_F_NESTED = IFLA_ADDRESS then int payload else find_link_address tb)"

definition netlink_get_device_addr_len :: "kernel \<Rightarrow> Interface \<Rightarrow> int" where
  "netlink_get_device_addr_len k iface =
     (case nl_link_attrs k (if_index (props iface)) of
        None \<Rightarrow> -1
      | Some tb \<Rightarrow> find_link_address tb)"

text \<open>The first three steps of the size: RA MTU, link MTU, protocol MTU.\<close>

definition ra_size_limit :: "u32 \<Rightarrow> int \<Rightarrow> u32 \<Rightarrow> u32" where
  "ra_size_limit ramtu maxmtu linkmtu =
     (let size = ramtu;
          size = min size (word_of_int (max maxmtu 1280));
          size = min size (max linkmtu RFC2460_MIN_MTU)
      in size)"

text \<open>
  The switch on the hardware type: the length of the link-layer address and of the prefix, the
  largest MTU, and what the link layer takes off the size of an advertisement.
\<close>

definition hw_params :: "kernel \<Rightarrow> Interface \<Rightarrow> u16 \<Rightarrow> int \<times> int \<times> int \<times> u32" where
  "hw_params k iface family =
     (let maxmtu = if_maxmtu (sllao iface)
      in if family = ARPHRD_ETHER then (48, 64, maxmtu, 14)
         else if family = ARPHRD_FDDI then (48, 64, maxmtu, 22)
         else if family = ARPHRD_ARCNET then (8, -1, -1, 0)
         else if family = ARPHRD_6LOWPAN then
           (let len = netlink_get_device_addr_len k iface
            in if len \<noteq> -1 then (len * 8, 64, maxmtu, 0) else (len, -1, maxmtu, 0))
         else (-1, -1, -1, 0))"

definition update_device_info :: "kernel \<Rightarrow> Interface \<Rightarrow> (int \<times> Interface) option" where
  "update_device_info k iface =
     (case SIOCGIFMTU k (name (props iface)) of
        None \<Rightarrow> Some (-1, iface)
      | Some mtu \<Rightarrow> do {
          let iface = iface\<lparr>sllao := (sllao iface)\<lparr>if_maxmtu := mtu\<rparr>\<rparr>;
          linkmtu \<leftarrow> get_interface_linkmtu k (name (props iface));
          let size = ra_size_limit (AdvRAMTU iface) mtu linkmtu;
          let iface = iface\<lparr>props := (props iface)\<lparr>max_ra_option_size := size\<rparr>\<rparr>;
          case SIOCGIFHWADDR k (name (props iface)) of
            None \<Rightarrow> Some (-1, iface)
          | Some (family, sa_data) \<Rightarrow>
              let (hwlen, plen, maxmtu, overhead) = hw_params k iface family;
                  size = size - overhead;
                  iface = iface\<lparr>sllao := (sllao iface)\<lparr>if_hwaddr_len := hwlen, if_prefix_len := plen,
                                  if_maxmtu := maxmtu\<rparr>,
                                props := (props iface)\<lparr>max_ra_option_size := size\<rparr>\<rparr>;
                  bytes = unat (word_of_int ((hwlen + 7) div 8) :: u32)
              in if hwlen \<noteq> -1 \<and> bytes > 16 then Some (-2, iface)
                 else let iface = (if hwlen \<noteq> -1
                        then iface\<lparr>sllao := (sllao iface)\<lparr>if_hwaddr :=
                               take bytes sa_data @ drop bytes (if_hwaddr (sllao iface))\<rparr>\<rparr>
                        else iface)
                      in Some (0, iface\<lparr>props := (props iface)\<lparr>max_ra_option_size := size - 40 - 16\<rparr>\<rparr>)
        })"

definition all_routers :: in6_addr where
  "all_routers = from_be (htonl 0xFF020000 @ htonl 0 @ htonl 0 @ htonl 0x2)"

definition setup_allrouters_membership :: "Interface \<Rightarrow> world \<Rightarrow> int \<times> world" where
  "setup_allrouters_membership iface w =
     (let idx = if_index (props iface)
      in case join_result (kern w) idx of
           Sockopt_ok \<Rightarrow> (0, w\<lparr>group_ops := group_ops w @ [ADD_MEMBERSHIP idx all_routers]\<rparr>)
         | Sockopt_EADDRINUSE \<Rightarrow> (0, w)
         | Sockopt_error \<Rightarrow> (-1, w))"

definition cleanup_allrouters_membership :: "Interface \<Rightarrow> world \<Rightarrow> int \<times> world" where
  "cleanup_allrouters_membership iface w =
     (0, w\<lparr>group_ops := group_ops w @ [DROP_MEMBERSHIP (if_index (props iface)) all_routers]\<rparr>)"

definition check_ip6_iface_forwarding :: "kernel \<Rightarrow> string \<Rightarrow> int option" where
  "check_ip6_iface_forwarding k ifn =
     (case proc_iface_forwarding k ifn of
        Proc_value v \<Rightarrow> Some v
      | Unreadable \<Rightarrow> None
      | No_file \<Rightarrow> Some (-1))"

text \<open>\<open>warned\<close> is the static variable of the function.\<close>

definition check_ip6_forwarding :: "world \<Rightarrow> (int \<times> world) option" where
  "check_ip6_forwarding w = do {
     value \<leftarrow> (case proc_forwarding (kern w) of
         Proc_value v \<Rightarrow> Some v
       | Unreadable \<Rightarrow> None
       | No_file \<Rightarrow> Some (-1));
     if \<not> warned w \<and> value \<noteq> 1 \<and> value \<noteq> 2
     then Some (-1, w\<lparr>warned := True\<rparr>)
     else Some (0, w)
   }"

subsection \<open>The addresses of an interface\<close>

text \<open>The IPv6 addresses of one interface in the order the system lists them.\<close>

definition inet6_addr :: "string \<Rightarrow> ifaddrs \<Rightarrow> in6_addr option" where
  "inet6_addr nam ifa =
     (case ifa_addr ifa of
        Some (AF_INET6 a) \<Rightarrow> if ifa_name ifa = nam then Some a else None
      | _ \<Rightarrow> None)"

definition host_addrs :: "kernel \<Rightarrow> string \<Rightarrow> in6_addr list" where
  "host_addrs k nam =
     List.map_filter (inet6_addr nam) (case getifaddrs k of None \<Rightarrow> [] | Some l \<Rightarrow> l)"

lemma get_iface_addrs_loop_spec:
  "get_iface_addrs_loop nam addrs ll l =
     (addrs @ List.map_filter (inet6_addr nam) l,
      case ll of Some a \<Rightarrow> Some a | None \<Rightarrow> List.find is_ll_prefix (List.map_filter (inet6_addr nam) l))"
  by (induction l arbitrary: addrs ll)
     (auto simp: map_filter_simps inet6_addr_def split: option.splits sockaddr.splits)

lemma get_iface_addrs_spec:
  "get_iface_addrs k nam =
     (if find is_ll_prefix (host_addrs k nam) = None then -1 else int (length (host_addrs k nam)),
      find is_ll_prefix (host_addrs k nam), sort (host_addrs k nam) @ [0])"
  by (simp add: get_iface_addrs_def get_iface_addrs_loop_spec host_addrs_def)

lemma find_index_Some: "find_index P xs = Some i \<Longrightarrow> i < length xs \<and> P (xs ! i)"
  by (induction xs arbitrary: i) (auto split: if_splits)

lemma find_index_None: "find_index P xs = None \<longleftrightarrow> (\<forall>x \<in> set xs. \<not> P x)"
  by (induction xs) auto

text \<open>The configured addresses are tried in their order.\<close>

lemma select_rasrc_spec:
  "select_rasrc addrs srcs =
     (case find (\<lambda>a. a \<in> set addrs) srcs of
        None \<Rightarrow> Rasrc_NULL
      | Some a \<Rightarrow> Rasrc_if_addrs (the (find_index (\<lambda>x. x = a) addrs)))"
proof (induction srcs)
  case (Cons b srcs)
  have "b \<in> set addrs \<longleftrightarrow> find_index (\<lambda>x. x = b) addrs \<noteq> None"
    by (simp add: find_index_None)
  with Cons show ?case
    by (auto split: option.splits)
qed simp

lemma find_index_eq: "a \<in> set addrs \<Longrightarrow> find_index (\<lambda>x. x = a) addrs = Some i \<Longrightarrow>
    i < length addrs \<and> addrs ! i = a"
  using find_index_Some by fastforce

text \<open>
  The source address of the advertisements of an interface: the first configured one that the
  interface has, or its first link-local address.
\<close>

definition ra_source :: "kernel \<Rightarrow> Interface \<Rightarrow> in6_addr option" where
  "ra_source k iface =
     (if AdvRASrcAddressList iface = [] then find is_ll_prefix (host_addrs k (name (props iface)))
      else find (\<lambda>a. a \<in> set (host_addrs k (name (props iface)))) (AdvRASrcAddressList iface))"

lemma setup_iface_addrs_spec:
  assumes s: "setup_iface_addrs k iface = (rc, iface')"
  defines "addrs \<equiv> host_addrs k (name (props iface))"
  shows "rc = (if \<exists>a \<in> set addrs. is_ll_prefix a then int (length addrs) else -1)"
    and "if_addrs (props iface') = sort addrs @ [0]"
    and "rc \<noteq> -1 \<Longrightarrow> addrs_count (props iface') = int (length addrs)"
    and "rc \<noteq> -1 \<Longrightarrow> rasrc_address (props iface') = ra_source k iface"
proof -
  let ?ll = "find is_ll_prefix addrs"
  have ll: "?ll = None \<longleftrightarrow> \<not> (\<exists>a \<in> set addrs. is_ll_prefix a)"
    by (auto simp: find_None_iff)
  note defs = setup_iface_addrs_def get_iface_addrs_spec addrs_def [symmetric] Let_def
  show "rc = (if \<exists>a \<in> set addrs. is_ll_prefix a then int (length addrs) else -1)"
    using s ll by (auto simp: defs split: if_splits)
  show "if_addrs (props iface') = sort addrs @ [0]"
    using s by (auto simp: defs split: if_splits option.splits)
  show "rc \<noteq> -1 \<Longrightarrow> addrs_count (props iface') = int (length addrs)"
    using s by (auto simp: defs split: if_splits option.splits)
  assume rc: "rc \<noteq> -1"
  then obtain a where a: "?ll = Some a"
    using s by (auto simp: defs split: if_splits option.splits)
  show "rasrc_address (props iface') = ra_source k iface"
  proof (cases "AdvRASrcAddressList iface = []")
    case True
    then show ?thesis
      using s rc a by (auto simp: defs ra_source_def rasrc_address_def)
  next
    case False
    show ?thesis
    proof (cases "find (\<lambda>a. a \<in> set addrs) (AdvRASrcAddressList iface)")
      case None
      then show ?thesis
        using s rc a False
        by (auto simp: defs ra_source_def rasrc_address_def select_rasrc_spec)
    next
      case (Some b)
      then have b: "b \<in> set (sort addrs)"
        by (auto simp: find_Some_iff)
      then obtain i where i: "find_index (\<lambda>x. x = b) (sort addrs) = Some i"
        using find_index_None [of "\<lambda>x. x = b" "sort addrs"] by fastforce
      from find_index_eq [OF b i] have "i < length addrs" "sort addrs ! i = b"
        by simp_all
      then show ?thesis
        using s rc a False Some i
        by (auto simp: defs ra_source_def rasrc_address_def select_rasrc_spec nth_append)
    qed
  qed
qed

lemma setup_iface_addrs_NULL:
  assumes "setup_iface_addrs k iface = (rc, iface')" and "rc \<noteq> -1"
  shows "if_addr_rasrc (props iface') = Rasrc_NULL \<longleftrightarrow> ra_source k iface = None"
  using assms
  by (auto simp: setup_iface_addrs_def get_iface_addrs_spec ra_source_def Let_def select_rasrc_spec
      split: if_splits option.splits)

subsection \<open>The size of an advertisement\<close>

lemma ra_size_limit_bounds:
  assumes "mtu < 2 ^ 31" and "1280 \<le> ramtu"
  shows "1280 \<le> ra_size_limit ramtu mtu linkmtu"
    and "ra_size_limit ramtu mtu linkmtu \<le> ramtu"
    and "uint (ra_size_limit ramtu mtu linkmtu) \<le> max mtu 1280"
proof -
  have u: "uint (word_of_int (max mtu 1280) :: u32) = max mtu 1280"
    using assms(1) by (simp add: uint_word_of_int_eq take_bit_int_eq_self_iff)
  then have "1280 \<le> (word_of_int (max mtu 1280) :: u32)"
    by (simp add: word_le_def)
  with assms(2) show "1280 \<le> ra_size_limit ramtu mtu linkmtu"
    by (simp add: ra_size_limit_def)
  show "ra_size_limit ramtu mtu linkmtu \<le> ramtu"
    by (simp add: ra_size_limit_def min.coboundedI1)
  have "ra_size_limit ramtu mtu linkmtu \<le> word_of_int (max mtu 1280)"
    by (simp add: ra_size_limit_def min.coboundedI1)
  then show "uint (ra_size_limit ramtu mtu linkmtu) \<le> max mtu 1280"
    using u by (simp add: word_le_def)
qed

lemma hw_params_overhead: "hw_params k iface family = (h, p, m, overhead) \<Longrightarrow> overhead \<in> {0, 14, 22}"
  by (auto simp: hw_params_def Let_def split: if_splits)

text \<open>The subtractions do not wrap: the size starts at 1280 at least.\<close>

lemma sub_size:
  fixes size overhead :: u32
  assumes "1280 \<le> size" and "overhead \<in> {0, 14, 22}"
  shows "uint (size - overhead - 40 - 16) = uint size - uint overhead - 56"
proof -
  define b where "b = overhead + 56"
  have b: "uint b = uint overhead + 56" "b \<le> size"
    using assms order_trans [OF _ assms(1), of b] by (auto simp: b_def)
  have "size - overhead - 40 - 16 = size - b"
    by (simp add: b_def)
  moreover have "uint (size - b) = uint size - uint b"
    using b(2) by (subst uint_sub_lem [THEN iffD1]) (simp_all add: word_le_def)
  ultimately show ?thesis
    using b(1) by (simp only:)
qed

text \<open>What a successful query of the device was given and leaves in the interface.\<close>

lemma update_device_info_0:
  assumes u: "update_device_info k iface = Some (0, iface')"
  obtains mtu linkmtu family sa_data iface1 hwlen plen maxmtu overhead hwaddr where
    "SIOCGIFMTU k (name (props iface)) = Some mtu"
    "SIOCGIFHWADDR k (name (props iface)) = Some (family, sa_data)"
    "hw_params k iface1 family = (hwlen, plen, maxmtu, overhead)"
    "hwlen = -1 \<and> hwaddr = if_hwaddr (sllao iface) \<or>
     hwlen \<noteq> -1 \<and> (let bytes = unat (word_of_int ((hwlen + 7) div 8) :: u32)
       in bytes \<le> 16 \<and> hwaddr = take bytes sa_data @ drop bytes (if_hwaddr (sllao iface)))"
    "iface' = iface\<lparr>sllao := (sllao iface)\<lparr>if_hwaddr_len := hwlen,
        if_prefix_len := plen, if_maxmtu := maxmtu, if_hwaddr := hwaddr\<rparr>,
      props := (props iface)\<lparr>max_ra_option_size :=
        ra_size_limit (AdvRAMTU iface) mtu linkmtu - overhead - 40 - 16\<rparr>\<rparr>"
proof -
  from u obtain mtu linkmtu where
    1: "SIOCGIFMTU k (name (props iface)) = Some mtu" and
    2: "get_interface_linkmtu k (name (props iface)) = Some linkmtu"
    by (auto simp: update_device_info_def bind_eq_Some_conv Let_def split: option.splits)
  from u 1 2 obtain family sa_data where
    3: "SIOCGIFHWADDR k (name (props iface)) = Some (family, sa_data)"
    by (auto simp: update_device_info_def Let_def split: option.splits)
  define iface1 where "iface1 = iface\<lparr>sllao := (sllao iface)\<lparr>if_maxmtu := mtu\<rparr>,
     props := (props iface)\<lparr>max_ra_option_size := ra_size_limit (AdvRAMTU iface) mtu linkmtu\<rparr>\<rparr>"
  obtain hwlen plen maxmtu overhead where
    4: "hw_params k iface1 family = (hwlen, plen, maxmtu, overhead)"
    by (metis prod_cases4)
  note eval = update_device_info_def Let_def 1 2 3 4 [unfolded iface1_def]
  show ?thesis
  proof (cases "hwlen = -1")
    case True
    from u True have "iface' = iface\<lparr>sllao := (sllao iface)\<lparr>if_hwaddr_len := hwlen, if_prefix_len := plen,
        if_maxmtu := maxmtu, if_hwaddr := if_hwaddr (sllao iface)\<rparr>,
      props := (props iface)\<lparr>max_ra_option_size :=
        ra_size_limit (AdvRAMTU iface) mtu linkmtu - overhead - 40 - 16\<rparr>\<rparr>"
      by (simp add: eval)
    from that [OF 1 3 4 _ this] True show ?thesis by simp
  next
    case False
    let ?n = "unat (word_of_int ((hwlen + 7) div 8) :: u32)"
    from u False have n: "?n \<le> 16" and
      i: "iface' = iface\<lparr>sllao := (sllao iface)\<lparr>if_hwaddr_len := hwlen, if_prefix_len := plen,
        if_maxmtu := maxmtu, if_hwaddr := take ?n sa_data @ drop ?n (if_hwaddr (sllao iface))\<rparr>,
      props := (props iface)\<lparr>max_ra_option_size :=
        ra_size_limit (AdvRAMTU iface) mtu linkmtu - overhead - 40 - 16\<rparr>\<rparr>"
      by (simp_all add: eval diff_diff_add split: if_splits)
    from that [OF 1 3 4 _ i] n False show ?thesis by (simp add: Let_def)
  qed
qed

lemma update_device_info_size:
  assumes u: "update_device_info k iface = Some (0, iface')"
    and mtu: "SIOCGIFMTU k (name (props iface)) = Some mtu" "mtu < 2 ^ 31"
    and ramtu: "1280 \<le> AdvRAMTU iface"
  shows "1202 \<le> uint (max_ra_option_size (props iface'))"
    and "uint (max_ra_option_size (props iface')) + 56 \<le> uint (AdvRAMTU iface)"
    and "uint (max_ra_option_size (props iface')) + 56 \<le> max mtu 1280"
proof -
  obtain linkmtu overhead where
    o: "overhead \<in> {0, 14, 22}" and
    s: "max_ra_option_size (props iface') =
      ra_size_limit (AdvRAMTU iface) mtu linkmtu - overhead - 40 - 16"
  proof (rule update_device_info_0 [OF u], goal_cases)
    case (1 mtu' linkmtu family sa_data iface1 hwlen plen maxmtu overhead hwaddr)
    then show ?case
      using hw_params_overhead [OF 1(4)] mtu(1) by (intro 1(1) [of overhead linkmtu]) simp_all
  qed
  note b = ra_size_limit_bounds [OF mtu(2) ramtu, of linkmtu]
  have size: "uint (max_ra_option_size (props iface')) =
      uint (ra_size_limit (AdvRAMTU iface) mtu linkmtu) - uint overhead - 56"
    unfolding s by (rule sub_size [OF b(1) o])
  have "0 \<le> uint overhead" "uint overhead \<le> 22"
    using o by auto
  moreover have "1280 \<le> uint (ra_size_limit (AdvRAMTU iface) mtu linkmtu)"
    "uint (ra_size_limit (AdvRAMTU iface) mtu linkmtu) \<le> uint (AdvRAMTU iface)"
    using b by (simp_all add: word_le_def)
  ultimately show "1202 \<le> uint (max_ra_option_size (props iface'))"
    "uint (max_ra_option_size (props iface')) + 56 \<le> uint (AdvRAMTU iface)"
    "uint (max_ra_option_size (props iface')) + 56 \<le> max mtu 1280"
    using size b(3) by linarith+
qed

text \<open>The link-layer address stays in its array, whatever its length.\<close>

lemma find_link_address_bound:
  "\<forall>(t, l) \<in> set tb. l < 65536 \<Longrightarrow> find_link_address tb < 65536"
  by (induction tb) auto

lemma hw_params_hwlen:
  assumes "kernel_ok k" and "hw_params k iface family = (hwlen, p, m, overhead)"
  shows "hwlen < 2 ^ 31"
proof -
  have "netlink_get_device_addr_len k iface < 65536"
    using assms(1) find_link_address_bound
    by (auto simp: netlink_get_device_addr_len_def kernel_ok_def split: option.split)
  with assms(2) show ?thesis
    by (auto simp: hw_params_def Let_def split: if_splits)
qed

lemma hwaddr_bytes:
  assumes "hwlen < 2 ^ 31" and "unat (word_of_int ((hwlen + 7) div 8) :: u32) \<le> 16"
  shows "nat hwlen div 8 \<le> 16"
proof (cases "0 \<le> hwlen")
  case True
  then have "unat (word_of_int ((hwlen + 7) div 8) :: u32) = nat ((hwlen + 7) div 8)"
    using assms(1) by (simp add: unat_eq_nat_uint uint_word_of_int_eq take_bit_int_eq_self)
  with assms(2) True show ?thesis by auto
qed simp

lemma update_device_info_hwaddr:
  assumes u: "update_device_info k iface = Some (0, iface')" and k: "kernel_ok k"
    and len: "length (if_hwaddr (sllao iface)) = 16"
  shows "length (if_hwaddr (sllao iface')) = 16 \<and> nat (if_hwaddr_len (sllao iface')) div 8 \<le> 16"
proof (rule update_device_info_0 [OF u], goal_cases)
  case (1 mtu linkmtu family sa_data iface1 hwlen plen maxmtu overhead hwaddr)
  let ?n = "unat (word_of_int ((hwlen + 7) div 8) :: u32)"
  have "16 \<le> length sa_data"
    using k 1(2) by (auto simp: kernel_ok_def)
  moreover have "hwlen < 2 ^ 31"
    using hw_params_hwlen [OF k 1(3)] .
  ultimately show ?case
    using 1(4,5) len hwaddr_bytes [of hwlen] by (auto simp: Let_def)
qed

text \<open>The rest of the interface is left as it was.\<close>

lemma update_device_info_frame:
  assumes u: "update_device_info k iface = Some (rc, iface')"
    and k: "kernel_ok k" and len: "length (if_hwaddr (sllao iface)) = 16"
  shows "\<exists>s m. iface' = iface\<lparr>sllao := s, props := (props iface)\<lparr>max_ra_option_size := m\<rparr>\<rparr> \<and>
    length (if_hwaddr s) = 16" and "rc \<in> {0, -1, -2}"
proof -
  have "(\<exists>s m. iface' = iface\<lparr>sllao := s, props := (props iface)\<lparr>max_ra_option_size := m\<rparr>\<rparr> \<and>
    length (if_hwaddr s) = 16) \<and> rc \<in> {0, -1, -2}"
  proof (cases "SIOCGIFMTU k (name (props iface))")
    case None
    with u have "rc = -1" "iface' = iface\<lparr>sllao := sllao iface,
        props := (props iface)\<lparr>max_ra_option_size := max_ra_option_size (props iface)\<rparr>\<rparr>"
      by (simp_all add: update_device_info_def)
    then show ?thesis using len by blast
  next
    case (Some mtu)
    with u obtain linkmtu where 2: "get_interface_linkmtu k (name (props iface)) = Some linkmtu"
      by (auto simp: update_device_info_def bind_eq_Some_conv Let_def)
    let ?iface1 = "iface\<lparr>sllao := (sllao iface)\<lparr>if_maxmtu := mtu\<rparr>,
       props := (props iface)\<lparr>max_ra_option_size := ra_size_limit (AdvRAMTU iface) mtu linkmtu\<rparr>\<rparr>"
    show ?thesis
    proof (cases "SIOCGIFHWADDR k (name (props iface))")
      case None
      with u Some 2 have "rc = -1" "iface' = ?iface1"
        by (simp_all add: update_device_info_def Let_def)
      moreover have "length (if_hwaddr ((sllao iface)\<lparr>if_maxmtu := mtu\<rparr>)) = 16"
        using len by simp
      ultimately show ?thesis by blast
    next
      case addr: (Some x)
      obtain family sa_data where x: "x = (family, sa_data)" by (cases x)
      obtain hwlen plen maxmtu overhead where
        4: "hw_params k ?iface1 family = (hwlen, plen, maxmtu, overhead)"
        by (metis prod_cases4)
      have "16 \<le> length sa_data"
        using k addr x by (auto simp: kernel_ok_def)
      then have "\<exists>s m. iface' = ?iface1\<lparr>sllao := s, props := (props ?iface1)\<lparr>max_ra_option_size := m\<rparr>\<rparr> \<and>
          length (if_hwaddr s) = 16" "rc \<in> {0, -1, -2}"
        using u len by (auto simp: update_device_info_def Let_def Some 2 addr x 4 split: if_splits)
      then show ?thesis by auto
    qed
  qed
  then show "\<exists>s m. iface' = iface\<lparr>sllao := s, props := (props iface)\<lparr>max_ra_option_size := m\<rparr>\<rparr> \<and>
    length (if_hwaddr s) = 16" "rc \<in> {0, -1, -2}"
    by blast+
qed

subsection \<open>Names of hardware types\<close>

text \<open>The cases of the switch in their order, with the numbers of \<^verbatim>\<open>linux/if_arp.h\<close>.\<close>

definition hw_names :: "(u16 \<times> string) list" where
  "hw_names =
     [(0, ''ARPHRD_NETROM''), (1, ''ARPHRD_ETHER''), (2, ''ARPHRD_EETHER''),
      (3, ''ARPHRD_AX25''), (4, ''ARPHRD_PRONET''), (5, ''ARPHRD_CHAOS''),
      (6, ''ARPHRD_IEEE802''), (8, ''ARPHRD_APPLETLK''), (15, ''ARPHRD_DLCI''),
      (19, ''ARPHRD_ATM''), (23, ''ARPHRD_METRICOM''), (24, ''ARPHRD_IEEE1394''),
      (27, ''ARPHRD_EUI64''), (32, ''ARPHRD_INFINIBAND''), (256, ''ARPHRD_SLIP''),
      (257, ''ARPHRD_CSLIP''), (258, ''ARPHRD_SLIP6''), (259, ''ARPHRD_CSLIP6''),
      (260, ''ARPHRD_RSRVD''), (264, ''ARPHRD_ADAPT''), (270, ''ARPHRD_ROSE''),
      (271, ''ARPHRD_X25''), (272, ''ARPHRD_HWX25''), (512, ''ARPHRD_PPP''),
      (513, ''ARPHRD_CISCO''), (516, ''ARPHRD_LAPB''), (517, ''ARPHRD_DDCMP''),
      (518, ''ARPHRD_RAWHDLC''), (768, ''ARPHRD_TUNNEL''), (769, ''ARPHRD_TUNNEL6''),
      (770, ''ARPHRD_FRAD''), (771, ''ARPHRD_SKIP''), (772, ''ARPHRD_LOOPBACK''),
      (773, ''ARPHRD_LOCALTLK''), (775, ''ARPHRD_BIF''), (776, ''ARPHRD_SIT''),
      (777, ''ARPHRD_IPDDP''), (778, ''ARPHRD_IPGRE''), (779, ''ARPHRD_PIMREG''),
      (780, ''ARPHRD_HIPPI''), (781, ''ARPHRD_ASH''), (782, ''ARPHRD_ECONET''),
      (783, ''ARPHRD_IRDA''), (784, ''ARPHRD_FCPP''), (785, ''ARPHRD_FCAL''),
      (786, ''ARPHRD_FCPL''), (787, ''ARPHRD_FCFABRIC''), (800, ''ARPHRD_IEEE802_TR''),
      (801, ''ARPHRD_IEEE80211''), (802, ''ARPHRD_IEEE80211_PRISM''),
      (803, ''ARPHRD_IEEE80211_RADIOTAP''), (804, ''ARPHRD_IEEE802154''),
      (805, ''ARPHRD_IEEE802154_MONITOR''), (825, ''ARPHRD_6LOWPAN''), (0xFFFF, ''ARPHRD_VOID''),
      (0xFFFE, ''ARPHRD_NONE'')]"

definition hwstr :: "u16 \<Rightarrow> string" where
  "hwstr sa_family = (case map_of hw_names sa_family of Some n \<Rightarrow> n | None \<Rightarrow> ''unknown'')"

lemma hw_names_distinct: "distinct (map fst hw_names)" "distinct (map snd hw_names)"
  by (simp_all add: hw_names_def)

lemma hwstr_identifies:
  assumes "hwstr f = hwstr g" and "hwstr f \<noteq> ''unknown''"
  shows "f = g"
proof -
  have "f \<in> fst ` set hw_names" "g \<in> fst ` set hw_names"
    using assms by (auto simp: hwstr_def split: option.split_asm dest: map_of_SomeD intro: rev_image_eqI)
  then obtain m n where "map_of hw_names f = Some m" "map_of hw_names g = Some n"
    using map_of_eq_None_iff [of hw_names] by (metis not_None_eq)
  with assms(1) have "(f, m) \<in> set hw_names" "(g, m) \<in> set hw_names"
    by (auto simp: hwstr_def dest: map_of_SomeD)
  with hw_names_distinct(2) show ?thesis
    by (metis distinct_map eq_snd_iff fst_conv inj_on_eq_iff)
qed

end
