(* ===== verification/Iface.thy ===== *)
theory Iface
  imports Device
begin

text \<open>
  The interfaces of the configuration, \<^verbatim>\<open>interface.c\<close>: their defaults, the check of their
  parameters, the setup that makes an interface ready to send, the lookups and the schedule.
\<close>

subsection \<open>Defaults\<close>

definition iface_init_defaults :: Interface where
  "iface_init_defaults = Interface_zero\<lparr>
     state_info := (state_info Interface_zero)\<lparr>changed := True\<rparr>,
     IgnoreIfMissing := True, AdvSendAdvert := False,
     MaxRtrAdvInterval := DFLT_MaxRtrAdvInterval, AdvSourceLLAddress := True,
     RemoveAdvOnExit := True, MinDelayBetweenRAs := MIN_DELAY_BETWEEN_RAS,
     MinRtrAdvInterval := -1, UnicastOnly := False, UnrestrictedUnicast := False,
     AdvRASolicitedUnicast := True,
     ra_header_info := (ra_header_info Interface_zero)\<lparr>AdvDefaultPreference := 0,
       AdvDefaultLifetime := -1, AdvReachableTime := 0, AdvRetransTimer := 0,
       AdvCurHopLimit := DFLT_AdvCurHopLimit, AdvHomeAgentFlag := False,
       AdvSNACRouterFlag := False\<rparr>,
     mipv6 := \<lparr>AdvIntervalOpt = False, AdvHomeAgentInfo = False, HomeAgentPreference = 0,
       HomeAgentLifetime = -1, AdvMobRtrSupportFlag = False\<rparr>,
     AdvLinkMTU := 0, AdvRAMTU := RFC2460_MIN_MTU\<rparr>"

definition prefix_init_defaults :: AdvPrefix where
  "prefix_init_defaults = \<lparr>Prefix = 0, PrefixLen = 0, AdvOnLinkFlag = True, AdvAutonomousFlag = True,
     AdvDHCPv6PDPreferredFlag = False, AdvValidLifetime = DFLT_AdvValidLifetime,
     AdvPreferredLifetime = DFLT_AdvPreferredLifetime, DeprecatePrefixFlag = False,
     DecrementLifetimesFlag = False, curr_validlft = DFLT_AdvValidLifetime,
     curr_preferredlft = DFLT_AdvPreferredLifetime, AdvRouterAddr = False, if6to4 = [], if6 = []\<rparr>"

text \<open>The lifetimes are \<^verbatim>\<open>double\<close> expressions converted to \<^verbatim>\<open>uint32_t\<close>.\<close>

definition three_max_intervals :: "Interface \<Rightarrow> u32" where
  "three_max_intervals iface = word_of_int (c_trunc (3 * MaxRtrAdvInterval iface))"

definition nat64prefix_init_defaults :: "Interface \<Rightarrow> NAT64Prefix" where
  "nat64prefix_init_defaults iface =
     (let lft = word_of_int (c_trunc (min (of_int DFLT_NAT64MaxValidLifetime) (3 * MaxRtrAdvInterval iface)))
      in \<lparr>NAT64_Prefix = 0, NAT64_PrefixLen = 0, NAT64_AdvValidLifetime = lft,
          NAT64_curr_validlft = lft\<rparr>)"

definition route_init_defaults :: "Interface \<Rightarrow> AdvRoute" where
  "route_init_defaults iface = \<lparr>Route_Prefix = 0, Route_PrefixLen = 0, AdvRoutePreference = 0,
     AdvRouteLifetime = three_max_intervals iface, RemoveRouteFlag = True\<rparr>"

definition rdnss_init_defaults :: "Interface \<Rightarrow> AdvRDNSS" where
  "rdnss_init_defaults iface = \<lparr>AdvRDNSSLifetime = three_max_intervals iface,
     FlushRDNSSFlag = True, AdvRDNSSAddr = []\<rparr>"

definition dnssl_init_defaults :: "Interface \<Rightarrow> AdvDNSSL" where
  "dnssl_init_defaults iface = \<lparr>AdvDNSSLLifetime = three_max_intervals iface,
     FlushDNSSLFlag = True, AdvDNSSLSuffixes = []\<rparr>"

subsection \<open>The check of the parameters\<close>

text \<open>The loop that looks for \<^verbatim>\<open>AdvRouterAddr\<close>: its flag and the prefixes it has not visited.\<close>

fun mipv6_scan :: "bool \<Rightarrow> AdvPrefix list \<Rightarrow> bool \<times> AdvPrefix list" where
  "mipv6_scan m [] = (m, [])"
| "mipv6_scan m (p # ps) = (if m then (m, p # ps) else mipv6_scan (AdvRouterAddr p) ps)"

definition MAX_MinRtrAdvInterval :: "Interface \<Rightarrow> rat" where
  "MAX_MinRtrAdvInterval iface = 3 / 4 * MaxRtrAdvInterval iface"

definition MIN_AdvDefaultLifetime :: "Interface \<Rightarrow> rat" where
  "MIN_AdvDefaultLifetime iface = max 1 (MaxRtrAdvInterval iface)"

text \<open>The defaults filled in on the way, and the groups of checks between them.\<close>

definition default_min_interval :: "Interface \<Rightarrow> Interface" where
  "default_min_interval iface =
     (if MinRtrAdvInterval iface < 0
      then iface\<lparr>MinRtrAdvInterval := 33 / 100 * MaxRtrAdvInterval iface\<rparr> else iface)"

definition intervals_ok :: "bool \<Rightarrow> Interface \<Rightarrow> bool" where
  "intervals_ok MIPv6 iface \<longleftrightarrow>
     \<not> (MinRtrAdvInterval iface
          < (if MIPv6 then MIN_MinRtrAdvInterval_MIPv6 else MIN_MinRtrAdvInterval) \<or>
        MinRtrAdvInterval iface > MAX_MinRtrAdvInterval iface) \<and>
     \<not> (MaxRtrAdvInterval iface
          < (if MIPv6 then MIN_MaxRtrAdvInterval_MIPv6 else MIN_MaxRtrAdvInterval) \<or>
        MaxRtrAdvInterval iface > MAX_MaxRtrAdvInterval) \<and>
     \<not> (MinDelayBetweenRAs iface
          < (if MIPv6 then MIN_DELAY_BETWEEN_RAS_MIPv6 else MIN_DELAY_BETWEEN_RAS))"

definition link_ok :: "Interface \<Rightarrow> bool" where
  "link_ok iface \<longleftrightarrow>
     \<not> (AdvLinkMTU iface \<noteq> 0 \<and>
        (AdvLinkMTU iface < MIN_AdvLinkMTU \<or>
         if_maxmtu (sllao iface) \<noteq> -1 \<and>
         AdvLinkMTU iface > word_of_int (if_maxmtu (sllao iface)))) \<and>
     \<not> AdvReachableTime (ra_header_info iface) > MAX_AdvReachableTime"

definition default_lifetime :: "Interface \<Rightarrow> Interface" where
  "default_lifetime iface =
     (if AdvDefaultLifetime (ra_header_info iface) < 0
      then iface\<lparr>ra_header_info := (ra_header_info iface)\<lparr>AdvDefaultLifetime :=
             max 1 (c_trunc (3 * MaxRtrAdvInterval iface))\<rparr>\<rparr>
      else iface)"

definition lifetime_ok :: "Interface \<Rightarrow> bool" where
  "lifetime_ok iface \<longleftrightarrow>
     (let lifetime = AdvDefaultLifetime (ra_header_info iface)
      in \<not> (lifetime \<noteq> 0 \<and>
            (lifetime > MAX_AdvDefaultLifetime \<or> of_int lifetime < MIN_AdvDefaultLifetime iface)))"

definition default_ha_lifetime :: "Interface \<Rightarrow> Interface" where
  "default_ha_lifetime iface =
     (if HomeAgentLifetime (mipv6 iface) < 0
      then iface\<lparr>mipv6 := (mipv6 iface)\<lparr>HomeAgentLifetime :=
             AdvDefaultLifetime (ra_header_info iface)\<rparr>\<rparr>
      else iface)"

definition home_agent_ok :: "Interface \<Rightarrow> bool" where
  "home_agent_ok iface \<longleftrightarrow>
     \<not> (AdvHomeAgentInfo (mipv6 iface) \<and>
        (HomeAgentLifetime (mipv6 iface) > MAX_HomeAgentLifetime \<or>
         HomeAgentLifetime (mipv6 iface) < MIN_HomeAgentLifetime)) \<and>
     \<not> (AdvHomeAgentInfo (mipv6 iface) \<and> \<not> AdvHomeAgentFlag (ra_header_info iface)) \<and>
     \<not> (AdvMobRtrSupportFlag (mipv6 iface) \<and> \<not> AdvHomeAgentInfo (mipv6 iface))"

definition prefixes_ok :: "AdvPrefix list \<Rightarrow> bool" where
  "prefixes_ok prefix \<longleftrightarrow>
     list_all (\<lambda>p. \<not> PrefixLen p > MAX_PrefixLen \<and> \<not> AdvPreferredLifetime p > AdvValidLifetime p) prefix"

definition routes_ok :: "AdvRoute list \<Rightarrow> bool" where
  "routes_ok route \<longleftrightarrow> list_all (\<lambda>r. \<not> Route_PrefixLen r > MAX_PrefixLen) route"

text \<open>
  The loop over the prefixes starts at the element the Mobile IPv6 loop stopped at: the source
  has the assignment that would restart it in a comment. The flap of a default route only logs.
\<close>

definition check_iface :: "kernel \<Rightarrow> Interface \<Rightarrow> (int \<times> Interface) option" where
  "check_iface k iface = do {
     let MIPv6 = (AdvHomeAgentFlag (ra_header_info iface) \<or> AdvHomeAgentInfo (mipv6 iface) \<or>
                  AdvIntervalOpt (mipv6 iface));
     _ \<leftarrow> check_ip6_iface_forwarding k (name (props iface));
     let (MIPv6, prefix) = mipv6_scan MIPv6 (AdvPrefixList iface);
     let iface = default_min_interval iface;
     let ok1 = (intervals_ok MIPv6 iface \<and> link_ok iface);
     let iface = default_lifetime iface;
     let ok2 = lifetime_ok iface;
     let iface = default_ha_lifetime iface;
     let ok3 = home_agent_ok iface;
     let ok4 = (prefixes_ok prefix \<and> routes_ok (AdvRouteList iface));
     Some (if ok1 \<and> ok2 \<and> ok3 \<and> ok4 then 0 else -1, iface)
   }"

subsection \<open>The schedule\<close>

definition IFACE_SETUP_DELAY :: rat where [simp]: "IFACE_SETUP_DELAY = 1"

definition reschedule_delay :: "Interface \<Rightarrow> rat \<Rightarrow> rat" where
  "reschedule_delay iface next =
     (if \<not> changed (state_info iface) \<and> \<not> ready (state_info iface)
      then 10 * MaxRtrAdvInterval iface
      else if next = 0 then IFACE_SETUP_DELAY
      else if racount (state_info iface) < MAX_INITIAL_RTR_ADVERTISEMENTS
      then min MAX_INITIAL_RTR_ADVERT_INTERVAL (MaxRtrAdvInterval iface)
      else next)"

definition reschedule_iface :: "Interface \<Rightarrow> rat \<Rightarrow> world \<Rightarrow> Interface \<times> world" where
  "reschedule_iface iface next w =
     (let (ts, w) = next_timespec (reschedule_delay iface next) w
      in (iface\<lparr>times := (times iface)\<lparr>next_multicast := ts\<rparr>\<rparr>, w))"

definition touch_iface :: "Interface \<Rightarrow> world \<Rightarrow> Interface \<times> world" where
  "touch_iface iface w =
     reschedule_iface (iface\<lparr>state_info := (state_info iface)\<lparr>changed := True, ready := False,
       racount := 0\<rparr>\<rparr>) 0 w"

subsection \<open>Setup\<close>

definition setup_iface :: "Interface \<Rightarrow> world \<Rightarrow> (int \<times> Interface \<times> world) option" where
  "setup_iface iface w = do {
     let iface = iface\<lparr>state_info := (state_info iface)\<lparr>changed := False, ready := False\<rparr>\<rparr>;
     let (rc, iface) = update_device_index (kern w) iface;
     if rc < 0 then Some (-1, iface, w) else do {
     let (rc, iface) = check_device (kern w) iface;
     if rc < 0 then Some (-2, iface, w) else do {
     (rc, iface) \<leftarrow> update_device_info (kern w) iface;
     if rc < 0 then Some (-3, iface, w) else do {
     (rc, iface) \<leftarrow> check_iface (kern w) iface;
     if rc < 0 then Some (-4, iface, w) else do {
     let (rc, iface) = setup_iface_addrs (kern w) iface;
     if rc < 0 then Some (-5, iface, w)
     else if if_addr_rasrc (props iface) = Rasrc_NULL then Some (-6, iface, w) else do {
     let (rc, w) = setup_allrouters_membership iface w;
     if rc < 0 then Some (-7, iface, w)
     else Some (0, iface\<lparr>state_info := (state_info iface)\<lparr>ready := True\<rparr>\<rparr>, w)
     }}}}}}"

definition cleanup_iface :: "Interface \<Rightarrow> world \<Rightarrow> int \<times> world" where
  "cleanup_iface iface w = (let (_, w) = cleanup_allrouters_membership iface w in (0, w))"

subsection \<open>Lookups and iteration\<close>

text \<open>A pointer to an element of the list is its position. \<^verbatim>\<open>index\<close> is compared as unsigned.\<close>

definition find_iface_by_index :: "Interface list \<Rightarrow> int \<Rightarrow> nat option" where
  "find_iface_by_index ifaces index =
     find_index (\<lambda>i. if_index (props i) = word_of_int index) ifaces"

definition find_iface_by_name :: "Interface list \<Rightarrow> string option \<Rightarrow> nat option" where
  "find_iface_by_name ifaces nam =
     (case nam of None \<Rightarrow> None | Some n \<Rightarrow> find_index (\<lambda>i. name (props i) = n) ifaces)"

text \<open>\<^verbatim>\<open>int t = next_time_msec(iface)\<close> keeps the low 32 bits as a signed number.\<close>

definition int_of_msec :: "int \<Rightarrow> int" where
  "int_of_msec t = sint (word_of_int t :: u32)"

fun find_iface_by_time_loop ::
    "int \<Rightarrow> nat \<Rightarrow> nat \<Rightarrow> Interface list \<Rightarrow> world \<Rightarrow> nat \<times> world" where
  "find_iface_by_time_loop timeout next pos [] w = (next, w)"
| "find_iface_by_time_loop timeout next pos (iface # rest) w =
     (let (t, w) = next_time_msec iface w; t = int_of_msec t
      in if timeout > t then find_iface_by_time_loop t pos (Suc pos) rest w
         else find_iface_by_time_loop timeout next (Suc pos) rest w)"

definition find_iface_by_time :: "Interface list \<Rightarrow> world \<Rightarrow> nat option \<times> world" where
  "find_iface_by_time ifaces w =
     (case ifaces of
        [] \<Rightarrow> (None, w)
      | iface # rest \<Rightarrow>
          let (t, w) = next_time_msec iface w;
              (next, w) = find_iface_by_time_loop (int_of_msec t) 0 1 rest w
          in (Some next, w))"

text \<open>A callback gets an interface and the world, and may end the process.\<close>

type_synonym iface_callback = "Interface \<Rightarrow> world \<Rightarrow> (Interface \<times> world) option"

fun for_each_iface :: "iface_callback \<Rightarrow> Interface list \<Rightarrow> world \<Rightarrow> (Interface list \<times> world) option" where
  "for_each_iface foo [] w = Some ([], w)"
| "for_each_iface foo (iface # ifaces) w = do {
     (iface, w) \<leftarrow> foo iface w;
     (ifaces, w) \<leftarrow> for_each_iface foo ifaces w;
     Some (iface # ifaces, w)
   }"

subsection \<open>The parameters that pass the check\<close>

text \<open>
  The ranges that the checked parameters of every interface lie in, whether it uses Mobile IPv6 or
  not: what sending relies on.
\<close>

definition iface_ranges :: "Interface \<Rightarrow> bool" where
  "iface_ranges iface \<longleftrightarrow>
     3 / 100 \<le> MinRtrAdvInterval iface \<and> MinRtrAdvInterval iface \<le> 3 / 4 * MaxRtrAdvInterval iface \<and>
     7 / 100 \<le> MaxRtrAdvInterval iface \<and> MaxRtrAdvInterval iface \<le> 65535 \<and>
     3 / 100 \<le> MinDelayBetweenRAs iface \<and>
     (AdvLinkMTU iface = 0 \<or> 1280 \<le> AdvLinkMTU iface) \<and>
     AdvReachableTime (ra_header_info iface) \<le> 3600000 \<and>
     (AdvDefaultLifetime (ra_header_info iface) = 0 \<or>
      max 1 (MaxRtrAdvInterval iface) \<le> of_int (AdvDefaultLifetime (ra_header_info iface)) \<and>
      AdvDefaultLifetime (ra_header_info iface) \<le> 65535) \<and>
     0 \<le> HomeAgentLifetime (mipv6 iface) \<and>
     (AdvHomeAgentInfo (mipv6 iface) \<longrightarrow>
        AdvHomeAgentFlag (ra_header_info iface) \<and> HomeAgentLifetime (mipv6 iface) \<in> {1..65520}) \<and>
     list_all (\<lambda>r. Route_PrefixLen r \<le> 128) (AdvRouteList iface)"

lemma check_iface_shape:
  assumes "check_iface k iface = Some (rc, iface')"
  obtains m prefix where
    "iface' = default_ha_lifetime (default_lifetime (default_min_interval iface))"
    "rc = (if intervals_ok m (default_min_interval iface) \<and> link_ok (default_min_interval iface) \<and>
      lifetime_ok (default_lifetime (default_min_interval iface)) \<and> home_agent_ok iface' \<and>
      prefixes_ok prefix \<and> routes_ok (AdvRouteList iface') then 0 else -1)"
  using assms unfolding check_iface_def Let_def
  by (auto simp: bind_eq_Some_conv split: prod.split_asm)

lemmas check_defaults = default_min_interval_def default_lifetime_def default_ha_lifetime_def

lemma check_defaults_frame [simp]:
  "props (default_min_interval i) = props i" "props (default_lifetime i) = props i"
  "props (default_ha_lifetime i) = props i"
  "state_info (default_min_interval i) = state_info i" "state_info (default_lifetime i) = state_info i"
  "state_info (default_ha_lifetime i) = state_info i"
  "sllao (default_min_interval i) = sllao i" "sllao (default_lifetime i) = sllao i"
  "sllao (default_ha_lifetime i) = sllao i"
  "AdvRAMTU (default_min_interval i) = AdvRAMTU i" "AdvRAMTU (default_lifetime i) = AdvRAMTU i"
  "AdvRAMTU (default_ha_lifetime i) = AdvRAMTU i"
  "AdvRASrcAddressList (default_min_interval i) = AdvRASrcAddressList i"
  "AdvRASrcAddressList (default_lifetime i) = AdvRASrcAddressList i"
  "AdvRASrcAddressList (default_ha_lifetime i) = AdvRASrcAddressList i"
  "AdvPrefixList (default_min_interval i) = AdvPrefixList i"
  "AdvPrefixList (default_lifetime i) = AdvPrefixList i"
  "AdvPrefixList (default_ha_lifetime i) = AdvPrefixList i"
  "AdvCaptivePortalAPI (default_min_interval i) = AdvCaptivePortalAPI i"
  "AdvCaptivePortalAPI (default_lifetime i) = AdvCaptivePortalAPI i"
  "AdvCaptivePortalAPI (default_ha_lifetime i) = AdvCaptivePortalAPI i"
  by (simp_all add: check_defaults)

text \<open>The later defaults leave what the earlier checks looked at.\<close>

lemma checks_stable:
  "intervals_ok m (default_lifetime i) = intervals_ok m i" "link_ok (default_lifetime i) = link_ok i"
  "intervals_ok m (default_ha_lifetime i) = intervals_ok m i" "link_ok (default_ha_lifetime i) = link_ok i"
  "lifetime_ok (default_ha_lifetime i) = lifetime_ok i"
  by (simp_all add: intervals_ok_def link_ok_def lifetime_ok_def check_defaults
      MAX_MinRtrAdvInterval_def MIN_AdvDefaultLifetime_def)

lemma lifetime_nonneg: "0 \<le> AdvDefaultLifetime (ra_header_info (default_lifetime i))"
  "0 \<le> AdvDefaultLifetime (ra_header_info i) \<Longrightarrow> 0 \<le> HomeAgentLifetime (mipv6 (default_ha_lifetime i))"
  by (simp_all add: check_defaults le_max_iff_disj)

lemma check_iface_ranges:
  assumes "check_iface k iface = Some (0, iface')"
  shows "iface_ranges iface'"
proof (rule check_iface_shape [OF assms])
  fix m prefix
  assume i: "iface' = default_ha_lifetime (default_lifetime (default_min_interval iface))"
    and rc: "(0 :: int) = (if intervals_ok m (default_min_interval iface) \<and>
      link_ok (default_min_interval iface) \<and>
      lifetime_ok (default_lifetime (default_min_interval iface)) \<and> home_agent_ok iface' \<and>
      prefixes_ok prefix \<and> routes_ok (AdvRouteList iface') then 0 else -1)"
  then have ok: "intervals_ok m iface'" "link_ok iface'" "lifetime_ok iface'" "home_agent_ok iface'"
    "routes_ok (AdvRouteList iface')"
    by (simp_all add: checks_stable split: if_splits)
  moreover have "0 \<le> HomeAgentLifetime (mipv6 iface')"
    unfolding i by (intro lifetime_nonneg)
  ultimately show ?thesis
    unfolding iface_ranges_def intervals_ok_def link_ok_def lifetime_ok_def home_agent_ok_def
      routes_ok_def MAX_MinRtrAdvInterval_def MIN_AdvDefaultLifetime_def Let_def
    by (auto simp: not_less split: if_splits)
qed

text \<open>
  The ranges that \<^verbatim>\<open>radvd.conf(5)\<close> documents. They depend on the use of the Mobile IPv6 extensions,
  and the MTU also on that of the link, if it is known.
\<close>

definition uses_mipv6 :: "Interface \<Rightarrow> bool" where
  "uses_mipv6 iface \<longleftrightarrow> AdvHomeAgentFlag (ra_header_info iface) \<or> AdvHomeAgentInfo (mipv6 iface) \<or>
     AdvIntervalOpt (mipv6 iface) \<or> list_ex AdvRouterAddr (AdvPrefixList iface)"

definition documented_ranges :: "Interface \<Rightarrow> bool" where
  "documented_ranges iface \<longleftrightarrow>
     (let m = uses_mipv6 iface; info = ra_header_info iface; ha = mipv6 iface
      in (if m then 3 / 100 else 3) \<le> MinRtrAdvInterval iface \<and>
         MinRtrAdvInterval iface \<le> 3 / 4 * MaxRtrAdvInterval iface \<and>
         (if m then 7 / 100 else 4) \<le> MaxRtrAdvInterval iface \<and> MaxRtrAdvInterval iface \<le> 65535 \<and>
         (if m then 3 / 100 else 3) \<le> MinDelayBetweenRAs iface \<and>
         (AdvLinkMTU iface = 0 \<or> 1280 \<le> AdvLinkMTU iface \<and>
            (if_maxmtu (sllao iface) = -1 \<or> AdvLinkMTU iface \<le> word_of_int (if_maxmtu (sllao iface)))) \<and>
         AdvReachableTime info \<le> 3600000 \<and>
         (AdvDefaultLifetime info = 0 \<or>
          max 1 (MaxRtrAdvInterval iface) \<le> of_int (AdvDefaultLifetime info) \<and>
          AdvDefaultLifetime info \<le> 65535) \<and>
         (AdvHomeAgentInfo ha \<longrightarrow> AdvHomeAgentFlag info \<and> HomeAgentLifetime ha \<in> {1..65520}) \<and>
         (AdvMobRtrSupportFlag ha \<longrightarrow> AdvHomeAgentInfo ha) \<and>
         list_all (\<lambda>r. Route_PrefixLen r \<le> 128) (AdvRouteList iface))"

text \<open>
  The prefixes that are looked at: all of them when the settings of the interface use Mobile IPv6, those
  behind the first one with \<^verbatim>\<open>AdvRouterAddr\<close> when it is that one, and none otherwise.
\<close>

definition checked_prefixes :: "Interface \<Rightarrow> AdvPrefix list" where
  "checked_prefixes iface =
     (if AdvHomeAgentFlag (ra_header_info iface) \<or> AdvHomeAgentInfo (mipv6 iface) \<or> AdvIntervalOpt (mipv6 iface)
      then AdvPrefixList iface else tl (dropWhile (\<lambda>p. \<not> AdvRouterAddr p) (AdvPrefixList iface)))"

lemma mipv6_scan_eq:
  "mipv6_scan m ps = (m \<or> list_ex AdvRouterAddr ps, if m then ps else tl (dropWhile (\<lambda>p. \<not> AdvRouterAddr p) ps))"
proof (induction ps arbitrary: m)
  case (Cons p ps)
  then show ?case by (cases "AdvRouterAddr p") auto
qed simp

lemma default_flags [simp]:
  "AdvHomeAgentFlag (ra_header_info (default_min_interval i)) = AdvHomeAgentFlag (ra_header_info i)"
  "AdvHomeAgentFlag (ra_header_info (default_lifetime i)) = AdvHomeAgentFlag (ra_header_info i)"
  "AdvHomeAgentFlag (ra_header_info (default_ha_lifetime i)) = AdvHomeAgentFlag (ra_header_info i)"
  "mipv6 (default_min_interval i) = mipv6 i" "mipv6 (default_lifetime i) = mipv6 i"
  "AdvHomeAgentInfo (mipv6 (default_ha_lifetime i)) = AdvHomeAgentInfo (mipv6 i)"
  "AdvIntervalOpt (mipv6 (default_ha_lifetime i)) = AdvIntervalOpt (mipv6 i)"
  by (simp_all add: check_defaults)

lemma check_iface_decides:
  assumes "check_iface k iface = Some (rc, iface')"
  shows "rc = (if documented_ranges iface' \<and>
      list_all (\<lambda>p. PrefixLen p \<le> 128 \<and> AdvPreferredLifetime p \<le> AdvValidLifetime p) (checked_prefixes iface')
    then 0 else -1)"
proof -
  let ?m = "uses_mipv6 iface" and ?ps = "checked_prefixes iface"
  have i: "iface' = default_ha_lifetime (default_lifetime (default_min_interval iface))"
    and rc: "rc = (if intervals_ok ?m iface' \<and> link_ok iface' \<and> lifetime_ok iface' \<and> home_agent_ok iface' \<and>
      prefixes_ok ?ps \<and> routes_ok (AdvRouteList iface') then 0 else -1)"
    using assms
    by (auto simp: check_iface_def mipv6_scan_eq bind_eq_Some_conv uses_mipv6_def checked_prefixes_def
        checks_stable Let_def disj_assoc)
  have m: "uses_mipv6 iface' = ?m" "checked_prefixes iface' = ?ps"
    by (simp_all add: i uses_mipv6_def checked_prefixes_def)
  have "documented_ranges iface' \<longleftrightarrow> intervals_ok ?m iface' \<and> link_ok iface' \<and> lifetime_ok iface' \<and>
      home_agent_ok iface' \<and> routes_ok (AdvRouteList iface')"
    unfolding documented_ranges_def m(1) intervals_ok_def link_ok_def lifetime_ok_def home_agent_ok_def
      routes_ok_def MAX_MinRtrAdvInterval_def MIN_AdvDefaultLifetime_def Let_def
    by (auto simp: not_less not_le)
  moreover have "prefixes_ok ?ps \<longleftrightarrow>
      list_all (\<lambda>p. PrefixLen p \<le> 128 \<and> AdvPreferredLifetime p \<le> AdvValidLifetime p) ?ps"
    by (simp add: prefixes_ok_def not_less)
  ultimately show ?thesis
    unfolding rc m(2) by auto
qed

subsection \<open>An interface that is ready can send\<close>

text \<open>
  The invariant of the interfaces: the configured size and the array of the link-layer address,
  and of a ready interface all that sending relies on.
\<close>

definition iface_static :: "Interface \<Rightarrow> bool" where
  "iface_static iface \<longleftrightarrow> 1280 \<le> AdvRAMTU iface \<and> length (if_hwaddr (sllao iface)) = 16"

definition ready_to_send :: "Interface \<Rightarrow> bool" where
  "ready_to_send iface \<longleftrightarrow>
     \<not> changed (state_info iface) \<and> iface_ranges iface \<and> if_index (props iface) \<noteq> 0 \<and>
     rasrc_address (props iface) \<noteq> None \<and>
     1202 \<le> uint (max_ra_option_size (props iface)) \<and>
     uint (max_ra_option_size (props iface)) + 56 \<le> uint (AdvRAMTU iface) \<and>
     nat (if_hwaddr_len (sllao iface)) div 8 \<le> 16"

definition iface_inv :: "Interface \<Rightarrow> bool" where
  "iface_inv iface \<longleftrightarrow>
     iface_static iface \<and> (ready (state_info iface) \<longrightarrow> ready_to_send iface)"

text \<open>The steps of a setup that ends with the code 0.\<close>

lemma setup_iface_0:
  assumes "setup_iface iface w = Some (0, iface', w')"
  obtains i0 i1 i2 i3 i4 i5 r1 r2 r3 r4 r5 r6 where
    "i0 = iface\<lparr>state_info := (state_info iface)\<lparr>changed := False, ready := False\<rparr>\<rparr>"
    "update_device_index (kern w) i0 = (r1, i1)" "0 \<le> r1"
    "check_device (kern w) i1 = (r2, i2)" "0 \<le> r2"
    "update_device_info (kern w) i2 = Some (r3, i3)" "0 \<le> r3"
    "check_iface (kern w) i3 = Some (r4, i4)" "0 \<le> r4"
    "setup_iface_addrs (kern w) i4 = (r5, i5)" "0 \<le> r5"
    "if_addr_rasrc (props i5) \<noteq> Rasrc_NULL"
    "setup_allrouters_membership i5 w = (r6, w')"
    "iface' = i5\<lparr>state_info := (state_info i5)\<lparr>ready := True\<rparr>\<rparr>"
proof -
  let ?i0 = "iface\<lparr>state_info := (state_info iface)\<lparr>changed := False, ready := False\<rparr>\<rparr>"
  obtain r1 i1 where 1: "update_device_index (kern w) ?i0 = (r1, i1)" by fastforce
  obtain r2 i2 where 2: "check_device (kern w) i1 = (r2, i2)" by fastforce
  from assms obtain r3 i3 where
    3: "0 \<le> r1" "0 \<le> r2" "update_device_info (kern w) i2 = Some (r3, i3)" "0 \<le> r3"
    by (simp add: setup_iface_def Let_def 1 2 split: if_split_asm) (auto simp: bind_eq_Some_conv
        split: if_split_asm)
  from assms 3 obtain r4 i4 where
    4: "check_iface (kern w) i3 = Some (r4, i4)" "0 \<le> r4"
    by (simp add: setup_iface_def Let_def 1 2) (auto simp: bind_eq_Some_conv split: if_split_asm)
  obtain r5 i5 where 5: "setup_iface_addrs (kern w) i4 = (r5, i5)" by fastforce
  obtain r6 w6 where 6: "setup_allrouters_membership i5 w = (r6, w6)" by fastforce
  have "0 \<le> r5 \<and> if_addr_rasrc (props i5) \<noteq> Rasrc_NULL \<and> w6 = w' \<and>
      iface' = i5\<lparr>state_info := (state_info i5)\<lparr>ready := True\<rparr>\<rparr>"
    using assms 3 4 by (simp add: setup_iface_def Let_def 1 2 5 6 split: if_split_asm)
  with that [OF refl 1 3(1) 2 3(2,3,4) 4 5] 6 show ?thesis by simp
qed

text \<open>What the first two queries may change.\<close>

lemma update_device_index_frame:
  "update_device_index k i = (r, i') \<Longrightarrow>
     (\<exists>n. i' = i\<lparr>props := (props i)\<lparr>if_index := n\<rparr>\<rparr>) \<and> (0 \<le> r \<longrightarrow> if_index (props i') \<noteq> 0)"
  by (auto simp: update_device_index_def Let_def split: if_splits intro: exI [of _ "if_index (props i)"])

lemma check_device_frame:
  "check_device k i = (r, i') \<Longrightarrow> \<exists>b. i' = i\<lparr>UnicastOnly := b\<rparr>"
  by (auto simp: check_device_def split: option.splits if_splits intro: exI [of _ "UnicastOnly i"])

lemma check_iface_frame:
  assumes "check_iface k i = Some (r, i')"
  shows "props i' = props i" "state_info i' = state_info i" "sllao i' = sllao i"
    "AdvRAMTU i' = AdvRAMTU i" "AdvRASrcAddressList i' = AdvRASrcAddressList i"
    "AdvPrefixList i' = AdvPrefixList i" "AdvCaptivePortalAPI i' = AdvCaptivePortalAPI i"
  by (rule check_iface_shape [OF assms], simp)+

lemma setup_iface_addrs_frame:
  "setup_iface_addrs k i = (r, i') \<Longrightarrow>
     \<exists>p. i' = i\<lparr>props := p\<rparr> \<and> if_index p = if_index (props i) \<and> name p = name (props i) \<and>
       max_ra_option_size p = max_ra_option_size (props i)"
  unfolding setup_iface_addrs_def get_iface_addrs_spec Let_def
  by (auto split: if_split_asm option.split_asm)

lemma setup_iface_addrs_count:
  assumes s: "setup_iface_addrs k i = (r, i')"
  shows "0 \<le> addrs_count (props i) \<Longrightarrow> 0 \<le> addrs_count (props i')"
    and "0 \<le> r \<Longrightarrow> int (length (if_addrs (props i'))) = addrs_count (props i') + 1"
proof -
  show "0 \<le> addrs_count (props i')" if "0 \<le> addrs_count (props i)"
    using s that unfolding setup_iface_addrs_def get_iface_addrs_spec Let_def
    by (auto split: if_split_asm option.split_asm)
  show "int (length (if_addrs (props i'))) = addrs_count (props i') + 1" if "0 \<le> r"
    using setup_iface_addrs_spec(2,3) [OF s] that by simp
qed

lemma iface_ranges_props [simp]:
  "iface_ranges (i\<lparr>props := p\<rparr>) = iface_ranges i" "iface_ranges (i\<lparr>state_info := s\<rparr>) = iface_ranges i"
  by (simp_all add: iface_ranges_def)

text \<open>Whatever the code, the setup keeps the static part, and only code 0 leaves the interface ready.\<close>

lemma setup_iface_result:
  assumes s: "setup_iface iface w = Some (rc, iface', w')" and k: "kernel_ok (kern w)"
    and st: "iface_static iface"
  shows "iface_static iface' \<and> \<not> changed (state_info iface') \<and>
    (ready (state_info iface') \<longleftrightarrow> rc = 0) \<and> name (props iface') = name (props iface) \<and>
    AdvPrefixList iface' = AdvPrefixList iface \<and> rc \<in> {-7..0} \<and>
    AdvCaptivePortalAPI iface' = AdvCaptivePortalAPI iface \<and>
    cease_adv (state_info iface') = cease_adv (state_info iface) \<and>
    (0 \<le> addrs_count (props iface) \<longrightarrow> 0 \<le> addrs_count (props iface')) \<and>
    (rc = 0 \<longrightarrow> int (length (if_addrs (props iface'))) = addrs_count (props iface') + 1)"
proof -
  let ?i0 = "iface\<lparr>state_info := (state_info iface)\<lparr>changed := False, ready := False\<rparr>\<rparr>"
  let ?same = "\<lambda>i. iface_static i \<and> state_info i = state_info ?i0 \<and> name (props i) = name (props iface) \<and>
      AdvPrefixList i = AdvPrefixList iface \<and> AdvCaptivePortalAPI i = AdvCaptivePortalAPI iface \<and>
      (0 \<le> addrs_count (props iface) \<longrightarrow> 0 \<le> addrs_count (props i))"
  obtain r1 i1 where 1: "update_device_index (kern w) ?i0 = (r1, i1)" by fastforce
  obtain r2 i2 where 2: "check_device (kern w) i1 = (r2, i2)" by fastforce
  have i1: "?same i1"
    using update_device_index_frame [OF 1] st by (auto simp: iface_static_def)
  then have i2: "?same i2"
    using check_device_frame [OF 2] by (auto simp: iface_static_def)
  show ?thesis
  proof (cases "r1 < 0 \<or> r2 < 0")
    case True
    with s i1 i2 show ?thesis by (auto simp: setup_iface_def Let_def 1 2 split: if_split_asm)
  next
    case False
    with s obtain r3 i3 where 3: "update_device_info (kern w) i2 = Some (r3, i3)"
      by (auto simp: setup_iface_def Let_def 1 2 bind_eq_Some_conv)
    have "length (if_hwaddr (sllao i2)) = 16"
      using i2 by (simp add: iface_static_def)
    from update_device_info_frame(1) [OF 3 k this] i2 have i3: "?same i3"
      by (auto simp: iface_static_def)
    show ?thesis
    proof (cases "r3 < 0")
      case True
      with False s i3 show ?thesis by (auto simp: setup_iface_def Let_def 1 2 3)
    next
      case r3: False
      with False s obtain r4 i4 where 4: "check_iface (kern w) i3 = Some (r4, i4)"
        by (auto simp: setup_iface_def Let_def 1 2 3 bind_eq_Some_conv)
      have i4: "?same i4"
        using i3 check_iface_frame [OF 4] by (simp add: iface_static_def)
      obtain r5 i5 where 5: "setup_iface_addrs (kern w) i4 = (r5, i5)" by fastforce
      have i5: "?same i5"
        using setup_iface_addrs_frame [OF 5] setup_iface_addrs_count(1) [OF 5] i4
        by (auto simp: iface_static_def)
      obtain r6 w6 where 6: "setup_allrouters_membership i5 w = (r6, w6)" by fastforce
      from False r3 s i4 i5 setup_iface_addrs_count(2) [OF 5] show ?thesis
        by (auto simp: setup_iface_def Let_def 1 2 3 4 5 6 iface_static_def split: if_split_asm)
    qed
  qed
qed

lemma setup_iface_ready_to_send:
  assumes s: "setup_iface iface w = Some (0, iface', w')" and k: "kernel_ok (kern w)"
    and st: "iface_static iface"
  shows "ready_to_send iface'"
proof (rule setup_iface_0 [OF s])
  fix i0 i1 i2 i3 i4 i5 :: Interface and r1 r2 r3 r4 r5 r6 :: int
  assume i0: "i0 = iface\<lparr>state_info := (state_info iface)\<lparr>changed := False, ready := False\<rparr>\<rparr>"
    and 1: "update_device_index (kern w) i0 = (r1, i1)" "0 \<le> r1"
    and 2: "check_device (kern w) i1 = (r2, i2)"
    and 3: "update_device_info (kern w) i2 = Some (r3, i3)" "0 \<le> r3"
    and 4: "check_iface (kern w) i3 = Some (r4, i4)" "0 \<le> r4"
    and 5: "setup_iface_addrs (kern w) i4 = (r5, i5)" "0 \<le> r5" "if_addr_rasrc (props i5) \<noteq> Rasrc_NULL"
    and i': "iface' = i5\<lparr>state_info := (state_info i5)\<lparr>ready := True\<rparr>\<rparr>"
  have "iface_static i2"
    using st update_device_index_frame [OF 1(1)] check_device_frame [OF 2]
    by (auto simp: i0 iface_static_def)
  then have i2: "1280 \<le> AdvRAMTU i2" "length (if_hwaddr (sllao i2)) = 16"
    by (simp_all add: iface_static_def)
  note frame3 = update_device_info_frame [OF 3(1) k i2(2)]
  have r3: "update_device_info (kern w) i2 = Some (0, i3)"
    using 3 frame3(2) by auto
  obtain mtu where mtu: "SIOCGIFMTU (kern w) (name (props i2)) = Some mtu"
    by (rule update_device_info_0 [OF r3])
  then have "mtu < 2 ^ 31"
    using k by (auto simp: kernel_ok_def)
  note size = update_device_info_size [OF r3 mtu this i2(1)]
    update_device_info_hwaddr [OF r3 k i2(2)]
  have idx: "if_index (props i3) \<noteq> 0" "AdvRAMTU i3 = AdvRAMTU i2" "\<not> changed (state_info i3)"
    using frame3(1) update_device_index_frame [OF 1(1)] 1(2) check_device_frame [OF 2]
    by (auto simp: i0)
  have "r4 = 0"
    by (rule check_iface_shape [OF 4(1)]) (use 4(2) in \<open>auto split: if_splits\<close>)
  with 4 have ranges: "iface_ranges i4"
    by (auto intro: check_iface_ranges)
  have src: "rasrc_address (props i5) \<noteq> None"
    using setup_iface_addrs_spec(4) [OF 5(1)] setup_iface_addrs_NULL [OF 5(1)] 5(2,3) by simp
  from setup_iface_addrs_frame [OF 5(1)] ranges idx size src check_iface_frame [OF 4(1)]
  show "ready_to_send iface'"
    by (auto simp: i' ready_to_send_def)
qed

text \<open>The source address of a ready interface.\<close>

lemma setup_iface_source:
  assumes s: "setup_iface iface w = Some (0, iface', w')" and k: "kernel_ok (kern w)"
    and st: "iface_static iface"
  shows "rasrc_address (props iface') = ra_source (kern w) iface"
proof (rule setup_iface_0 [OF s])
  fix i0 i1 i2 i3 i4 i5 :: Interface and r1 r2 r3 r4 r5 r6 :: int
  assume i0: "i0 = iface\<lparr>state_info := (state_info iface)\<lparr>changed := False, ready := False\<rparr>\<rparr>"
    and 1: "update_device_index (kern w) i0 = (r1, i1)"
    and 2: "check_device (kern w) i1 = (r2, i2)"
    and 3: "update_device_info (kern w) i2 = Some (r3, i3)"
    and 4: "check_iface (kern w) i3 = Some (r4, i4)"
    and 5: "setup_iface_addrs (kern w) i4 = (r5, i5)" "0 \<le> r5"
    and i': "iface' = i5\<lparr>state_info := (state_info i5)\<lparr>ready := True\<rparr>\<rparr>"
  have i2: "AdvRASrcAddressList i2 = AdvRASrcAddressList iface" "name (props i2) = name (props iface)"
    "length (if_hwaddr (sllao i2)) = 16"
    using st update_device_index_frame [OF 1] check_device_frame [OF 2]
    by (auto simp: i0 iface_static_def)
  have "AdvRASrcAddressList i4 = AdvRASrcAddressList iface" "name (props i4) = name (props iface)"
    using update_device_info_frame(1) [OF 3 k i2(3)] i2(1,2) check_iface_frame [OF 4] by auto
  then have "ra_source (kern w) i4 = ra_source (kern w) iface"
    by (simp add: ra_source_def)
  with setup_iface_addrs_spec(4) [OF 5(1)] 5(2) show ?thesis
    by (simp add: i')
qed

lemma touch_iface_inv: "iface_inv iface \<Longrightarrow> iface_inv (fst (touch_iface iface w))"
  by (simp add: touch_iface_def reschedule_iface_def iface_inv_def iface_static_def case_prod_beta Let_def)

lemma setup_iface_inv:
  "setup_iface iface w = Some (rc, iface', w') \<Longrightarrow> kernel_ok (kern w) \<Longrightarrow> iface_inv iface \<Longrightarrow>
     iface_inv iface'"
  using setup_iface_result [of iface w rc iface' w'] setup_iface_ready_to_send [of iface w iface' w']
  by (auto simp: iface_inv_def)

subsection \<open>The contract of a callback\<close>

text \<open>
  What \<open>for_each_iface\<close> needs of its callback to keep an invariant of the interfaces and one of
  the world, and to come back.
\<close>

locale iface_walk =
  fixes foo :: iface_callback
    and I :: "Interface \<Rightarrow> bool"
    and W :: "world \<Rightarrow> bool"
  assumes foo_keeps: "I i \<Longrightarrow> W w \<Longrightarrow> foo i w = Some (i', w') \<Longrightarrow> I i' \<and> W w'"
begin

lemma for_each_keeps:
  "list_all I ifaces \<Longrightarrow> W w \<Longrightarrow> for_each_iface foo ifaces w = Some (ifaces', w') \<Longrightarrow>
     list_all I ifaces' \<and> W w' \<and> length ifaces' = length ifaces"
proof (induction ifaces arbitrary: w ifaces')
  case Nil
  then show ?case by simp
next
  case (Cons i ifaces)
  from Cons.prems(3) obtain i1 w1 rest where
    1: "foo i w = Some (i1, w1)" "for_each_iface foo ifaces w1 = Some (rest, w')" "ifaces' = i1 # rest"
    by (auto simp: bind_eq_Some_conv)
  have "I i1 \<and> W w1"
    using foo_keeps [OF _ _ 1(1)] Cons.prems by simp
  with Cons.IH [OF _ _ 1(2)] Cons.prems(1) 1(3) show ?case by simp
qed

end

locale iface_walk_total = iface_walk +
  assumes foo_returns: "I i \<Longrightarrow> W w \<Longrightarrow> foo i w \<noteq> None"
begin

lemma for_each_returns:
  "list_all I ifaces \<Longrightarrow> W w \<Longrightarrow> for_each_iface foo ifaces w \<noteq> None"
proof (induction ifaces arbitrary: w)
  case Nil
  then show ?case by simp
next
  case (Cons i ifaces)
  from foo_returns [of i w] Cons.prems obtain i1 w1 where 1: "foo i w = Some (i1, w1)"
    by auto
  with foo_keeps [OF _ _ 1] Cons.prems Cons.IH [of w1] show ?case
    by auto
qed

end

subsection \<open>The interface that is due next\<close>

text \<open>The wait of the interface at a position, in the order in which the loop reads the clock.\<close>

definition wait_at :: "Interface list \<Rightarrow> world \<Rightarrow> nat \<Rightarrow> int" where
  "wait_at ifaces w n =
     int_of_msec (max 0 (timespecdiff (next_multicast (times (ifaces ! n))) (clock w (ticks w + n))))"

lemma next_time_msec_eq:
  "next_time_msec iface w =
     (max 0 (timespecdiff (next_multicast (times iface)) (clock w (ticks w))), w\<lparr>ticks := Suc (ticks w)\<rparr>)"
  by (auto simp: next_time_msec_def clock_gettime_def Let_def)

lemma find_iface_by_time_loop_min:
  "\<lbrakk>next < pos; timeout = t next; \<forall>j < pos. t next \<le> t j;
    \<forall>j < length rest. t (pos + j) =
      int_of_msec (max 0 (timespecdiff (next_multicast (times (rest ! j))) (clock w (ticks w + j))))\<rbrakk> \<Longrightarrow>
   fst (find_iface_by_time_loop timeout next pos rest w) < pos + length rest \<and>
   (\<forall>j < pos + length rest. t (fst (find_iface_by_time_loop timeout next pos rest w)) \<le> t j)"
proof (induction rest arbitrary: timeout "next" pos w)
  case Nil
  then show ?case by simp
next
  case (Cons i rest)
  let ?w = "w\<lparr>ticks := Suc (ticks w)\<rparr>"
  have tp: "t pos = int_of_msec (max 0 (timespecdiff (next_multicast (times i)) (clock w (ticks w))))"
    using Cons.prems(4) [rule_format, of 0] by simp
  have rest: "\<forall>j < length rest. t (Suc pos + j) = int_of_msec (max 0
      (timespecdiff (next_multicast (times (rest ! j))) (clock ?w (ticks ?w + j))))"
    using Cons.prems(4) by (auto dest: spec [of _ "Suc _"])
  show ?case
  proof (cases "timeout > t pos")
    case True
    have "\<forall>j < Suc pos. t pos \<le> t j"
      using True Cons.prems(2,3) by (auto simp: less_Suc_eq intro: order_trans [of _ "t next"])
    with Cons.IH [of pos "Suc pos" "t pos" ?w] True rest show ?thesis
      by (simp add: next_time_msec_eq tp [symmetric])
  next
    case False
    have "\<forall>j < Suc pos. t next \<le> t j"
      using False Cons.prems(2,3) by (auto simp: less_Suc_eq)
    with Cons.IH [of "next" "Suc pos" timeout ?w] False rest Cons.prems(1,2) show ?thesis
      by (simp add: next_time_msec_eq tp [symmetric])
  qed
qed

lemma find_iface_by_time_min:
  assumes "ifaces \<noteq> []"
  shows "\<exists>n < length ifaces. fst (find_iface_by_time ifaces w) = Some n \<and>
    (\<forall>j < length ifaces. wait_at ifaces w n \<le> wait_at ifaces w j)"
proof -
  obtain i rest where i: "ifaces = i # rest"
    using assms by (cases ifaces) auto
  have "\<forall>j < length rest. wait_at ifaces w (1 + j) = int_of_msec (max 0
      (timespecdiff (next_multicast (times (rest ! j))) (clock w (Suc (ticks w) + j))))"
    by (simp add: wait_at_def i)
  with find_iface_by_time_loop_min [of 0 1 "wait_at ifaces w 0" "wait_at ifaces w" rest
      "w\<lparr>ticks := Suc (ticks w)\<rparr>"]
  show ?thesis
    by (auto simp: find_iface_by_time_def i next_time_msec_eq wait_at_def Let_def split: prod.split)
qed

text \<open>
  In nanoseconds: the time that an interface has left until its deadline, at the moment at which the loop
  reads the clock for it. \<open>timespecdiff\<close> is exact to less than a millisecond.
\<close>

definition time_left :: "Interface list \<Rightarrow> world \<Rightarrow> nat \<Rightarrow> int" where
  "time_left ifaces w n = ts_nsecs (next_multicast (times (ifaces ! n))) - ts_nsecs (clock w (ticks w + n))"

lemma c_div_neg: "a < 0 \<Longrightarrow> 0 < b \<Longrightarrow> c_div a b = - (- a div b)"
  by (simp add: c_div_def)

lemma c_div_near:
  assumes "0 < b"
  shows "\<bar>b * c_div a b - a\<bar> < b"
proof -
  have "\<bar>b * (x div b) - x\<bar> < b" for x
    using pos_mod_bound [OF assms, of x] pos_mod_sign [OF assms, of x] mult_div_mod_eq [of b x] by linarith
  from this [of a] this [of "- a"] show ?thesis
    using assms by (cases "0 \<le> a") (auto simp: c_div_nonneg c_div_neg abs_minus_commute)
qed

lemma timespecdiff_near: "\<bar>1000000 * timespecdiff a b - (ts_nsecs a - ts_nsecs b)\<bar> < 1000000"
proof -
  let ?d = "tv_nsec a - tv_nsec b"
  have "1000000 * timespecdiff a b - (ts_nsecs a - ts_nsecs b) = 1000000 * c_div ?d 1000000 - ?d"
    by (simp add: timespecdiff_def ts_nsecs_def algebra_simps)
  with c_div_near [of 1000000 ?d] show ?thesis by simp
qed

lemma int_of_msec_small: "0 \<le> t \<Longrightarrow> t < 2 ^ 31 \<Longrightarrow> int_of_msec t = t"
  by (simp add: int_of_msec_def signed_of_int signed_take_bit_int_eq_self_iff)

lemma find_iface_by_time_least:
  assumes "ifaces \<noteq> []" and "\<forall>j < length ifaces. time_left ifaces w j < 2 ^ 31 * 1000000 - 1000000"
  shows "\<exists>n < length ifaces. fst (find_iface_by_time ifaces w) = Some n \<and>
    (\<forall>j < length ifaces. time_left ifaces w n < max 0 (time_left ifaces w j + 1000000) + 1000000)"
proof -
  obtain n where n: "n < length ifaces" "fst (find_iface_by_time ifaces w) = Some n"
    "\<forall>j < length ifaces. wait_at ifaces w n \<le> wait_at ifaces w j"
    using find_iface_by_time_min [OF assms(1)] by blast
  let ?t = "\<lambda>j. timespecdiff (next_multicast (times (ifaces ! j))) (clock w (ticks w + j))"
  have near: "\<bar>1000000 * ?t j - time_left ifaces w j\<bar> < 1000000" for j
    using timespecdiff_near unfolding time_left_def .
  have wait: "wait_at ifaces w j = max 0 (?t j)" if "j < length ifaces" for j
    using assms(2) that near [of j] unfolding wait_at_def by (intro int_of_msec_small) force+
  have "time_left ifaces w n < max 0 (time_left ifaces w j + 1000000) + 1000000" if j: "j < length ifaces" for j
    using n(3) j near [of n] near [of j] wait [OF n(1)] wait [OF j] by fastforce
  with n show ?thesis by blast
qed

end
