(* ===== verification/Ra_Send.thy ===== *)
theory Ra_Send
  imports Ra_Build Iface
begin

text \<open>
  Sending: \<open>send_ra\<close> packs the options into one or more advertisements and hands them to the
  kernel, \<open>send_ra_forall\<close> decides to whom they go (\<^verbatim>\<open>send.c\<close>). \<open>None\<close> is a process that ended: it
  called \<^verbatim>\<open>exit\<close>, or followed the pointer to a source address that is not set.
\<close>

subsection \<open>Definitions\<close>

definition all_hosts_addr :: in6_addr where
  "all_hosts_addr = from_be [0xff, 0x02, 0, 0, 0, 0, 0, 0, 0, 0, 0, 0, 0, 0, 0, 1]"

definition make_packet :: "in6_addr \<Rightarrow> properties \<Rightarrow> in6_addr \<Rightarrow> byte list \<Rightarrow> ra_packet" where
  "make_packet dest p src m =
     \<lparr>pkt_dest = dest,
      pkt_scope_id = (if IN6_IS_ADDR_LINKLOCAL dest \<or> IN6_IS_ADDR_MC_LINKLOCAL dest
                      then if_index p else 0),
      pkt_ifindex = if_index p, pkt_src = src, pkt_data = m\<rparr>"

definition really_send :: "in6_addr \<Rightarrow> properties \<Rightarrow> safe_buffer \<Rightarrow> world \<Rightarrow> (int \<times> world) option" where
  "really_send dest p sb w = do {
     src \<leftarrow> rasrc_address p;
     Some (sendmsg (make_packet dest p src (contents sb)) w)
   }"

text \<open>The inner loop: copy options while they fit, at least one. The result is what is left.\<close>

fun fill_ra :: "u32 \<Rightarrow> safe_buffer \<Rightarrow> nat \<Rightarrow> safe_buffer_list \<Rightarrow>
    (safe_buffer \<times> nat \<times> safe_buffer_list) option" where
  "fill_ra max_size sb option_count [] = Some (sb, option_count, [])"
| "fill_ra max_size sb option_count (cur # rest) =
     (if used sb = 0 then fill_ra max_size sb option_count rest
      else if used sb + used cur > unat max_size \<and> option_count > 0
      then Some (sb, option_count, cur # rest)
      else do {
        (_, sb) \<leftarrow> safe_buffer_append sb (contents cur);
        fill_ra max_size sb (Suc option_count) rest
      })"

lemma fill_ra_suffix:
  "fill_ra m sb n cur = Some (sb', n', cur') \<Longrightarrow> length cur' \<le> length cur"
  by (induction cur arbitrary: sb n) (auto simp: bind_eq_Some_conv le_SucI split: if_splits)

lemma fill_ra_consumes:
  "fill_ra m sb 0 cur = Some (sb', n', cur') \<Longrightarrow> cur' \<noteq> [] \<Longrightarrow> length cur' < length cur"
  by (cases cur) (auto simp: bind_eq_Some_conv less_Suc_eq_le split: if_splits dest: fill_ra_suffix)

function send_ra_loop :: "in6_addr \<Rightarrow> properties \<Rightarrow> safe_buffer \<Rightarrow> safe_buffer \<Rightarrow> safe_buffer_list \<Rightarrow>
    world \<Rightarrow> (int \<times> world) option" where
  "send_ra_loop dest p ra_hdr sb cur w = do {
     (_, sb) \<leftarrow> safe_buffer_append (sb\<lparr>used := 0\<rparr>) (contents ra_hdr);
     (sb, option_count, cur') \<leftarrow> fill_ra (max_ra_option_size p) sb 0 cur;
     (err, w) \<leftarrow> really_send dest p sb w;
     if err < 0 then Some (-1, w)
     else if cur' = [] then Some (0, w)
     else send_ra_loop dest p ra_hdr sb cur' w
   }"
  by pat_completeness auto
termination
  by (relation "measure (\<lambda>(dest, p, ra_hdr, sb, cur, w). length cur)")
     (auto dest: fill_ra_consumes)

declare send_ra_loop.simps [simp del]

definition send_ra :: "Interface \<Rightarrow> in6_addr option \<Rightarrow> world \<Rightarrow> (int \<times> Interface \<times> world) option" where
  "send_ra iface dest w =
     (if \<not> AdvSendAdvert iface then Some (0, iface, w)
      else do {
        let (dest, iface, w) = (case dest of
            None \<Rightarrow> let (now, w) = clock_gettime w
                    in (all_hosts_addr, iface\<lparr>times := (times iface)\<lparr>last_multicast := now\<rparr>\<rparr>, w)
          | Some d \<Rightarrow> (d, iface, w));
        let (iface, w) = update_iface_times iface w;
        (cease, w) \<leftarrow> (if cease_adv (state_info iface) then Some (True, w)
                       else do { (rc, w) \<leftarrow> check_ip6_forwarding w; Some (rc \<noteq> 0, w) });
        ra_hdr \<leftarrow> add_ra_header new_safe_buffer (ra_header_info iface) cease;
        ra_opts \<leftarrow> build_ra_options (kern w) iface dest;
        (rc, w) \<leftarrow> send_ra_loop dest (props iface) ra_hdr new_safe_buffer ra_opts w;
        Some (rc, iface, w)
      })"

definition ensure_iface_setup :: "Interface \<Rightarrow> world \<Rightarrow> (int \<times> Interface \<times> world) option" where
  "ensure_iface_setup iface w = do {
     (iface, w) \<leftarrow> (if changed (state_info iface)
        then do { (_, iface, w) \<leftarrow> setup_iface iface w; Some (iface, w) }
        else Some (iface, w));
     Some (if ready (state_info iface) then 0 else -1, iface, w)
   }"

text \<open>The loop over the clients; \<open>True\<close> is the \<^verbatim>\<open>return 0\<close> inside it.\<close>

fun send_ra_clients :: "in6_addr option \<Rightarrow> Clients list \<Rightarrow> Interface \<Rightarrow> world \<Rightarrow>
    (bool \<times> Interface \<times> world) option" where
  "send_ra_clients dest [] iface w = Some (False, iface, w)"
| "send_ra_clients dest (current # rest) iface w =
     (if dest \<noteq> None \<and> dest \<noteq> Some (Address current) then send_ra_clients dest rest iface w
      else if ignored current then
        (if dest \<noteq> None then Some (True, iface, w) else send_ra_clients dest rest iface w)
      else do {
        (_, iface, w) \<leftarrow> send_ra iface (Some (Address current)) w;
        if dest \<noteq> None then Some (True, iface, w) else send_ra_clients dest rest iface w
      })"

text \<open>Only multicast advertisements count as initial ones.\<close>

definition count_initial_ra :: "Interface \<Rightarrow> in6_addr option \<Rightarrow> Interface" where
  "count_initial_ra iface dest =
     (if racount (state_info iface) < MAX_INITIAL_RTR_ADVERTISEMENTS \<and> dest = None
      then iface\<lparr>state_info := (state_info iface)\<lparr>racount := racount (state_info iface) + 1\<rparr>\<rparr>
      else iface)"

definition send_ra_to_clients :: "Interface \<Rightarrow> in6_addr option \<Rightarrow> world \<Rightarrow>
    (int \<times> Interface \<times> world) option" where
  "send_ra_to_clients iface dest w =
     (if ClientList iface = [] then
        (if dest = None \<and> UnicastOnly iface then Some (0, iface, w) else send_ra iface dest w)
      else do {
        (returned, iface, w) \<leftarrow> send_ra_clients dest (ClientList iface) iface w;
        if returned then Some (0, iface, w)
        else if dest = None then Some (0, iface, w)
        else if UnrestrictedUnicast iface then send_ra iface dest w
        else Some (0, iface, w)
      })"

definition send_ra_forall :: "Interface \<Rightarrow> in6_addr option \<Rightarrow> world \<Rightarrow>
    (int \<times> Interface \<times> world) option" where
  "send_ra_forall iface dest w = do {
     (rc, iface, w) \<leftarrow> ensure_iface_setup iface w;
     if rc < 0 then Some (-1, iface, w)
     else send_ra_to_clients (count_initial_ra iface dest) dest w
   }"

subsection \<open>Packing\<close>

text \<open>
  What one advertisement holds: the header and a run of options; more than one only if they fit
  the size of the interface.
\<close>

definition packed :: "u32 \<Rightarrow> byte list \<Rightarrow> byte list list \<Rightarrow> byte list \<Rightarrow> bool" where
  "packed max_size hdr ms d \<longleftrightarrow>
     d = hdr @ concat ms \<and> (length d \<le> unat max_size \<or> length ms \<le> 1)"

lemma fill_ra_spec:
  assumes "sb_inv sb" and "0 < used sb" and "\<forall>c \<in> set cur. sb_inv c"
    and "unat m \<le> 65536" and "\<forall>c \<in> set cur. used sb + used c \<le> 65536 \<or> 0 < n"
    and "0 < n \<longrightarrow> used sb \<le> unat m"
  obtains sb' n' taken cur' where
    "fill_ra m sb n cur = Some (sb', n', cur')" "sb_inv sb'" "cur = taken @ cur'"
    "contents sb' = contents sb @ concat (map contents taken)"
    "used sb' \<le> unat m \<or> n = 0 \<and> length taken \<le> 1" "n = 0 \<and> cur \<noteq> [] \<longrightarrow> taken \<noteq> []"
  using assms
proof (induction cur arbitrary: sb n thesis)
  case Nil
  show ?case
    by (rule Nil.prems(1) [of sb n "[]" "[]"]) (use Nil.prems in auto)
next
  case (Cons c cur)
  have c: "sb_inv c" using Cons.prems(4) by simp
  show ?case
  proof (cases "used sb + used c > unat m \<and> n > 0")
    case True
    with Cons.prems show ?thesis
      by (intro Cons.prems(1) [of sb n "c # cur" "[]"]) auto
  next
    case no_break: False
    have "used sb + length (contents c) \<le> 65536"
      using no_break Cons.prems(5,6) c by auto
    from safe_buffer_append_fits [OF Cons.prems(2) this] obtain sb1 where
      sb1: "safe_buffer_append sb (contents c) = Some (used c, sb1)" "sb_inv sb1"
        "contents sb1 = contents sb @ contents c"
      using c by auto
    have u1: "used sb1 = used sb + used c"
      using length_contents [OF sb1(2)] Cons.prems(2) c by (simp add: sb1(3))
    show ?thesis
    proof (cases "used sb1 \<le> unat m")
      case fits: True
      obtain sb' n' taken cur' where
        r: "fill_ra m sb1 (Suc n) cur = Some (sb', n', cur')" "sb_inv sb'" "cur = taken @ cur'"
          "contents sb' = contents sb1 @ concat (map contents taken)" "used sb' \<le> unat m"
        by (rule Cons.IH [of sb1 "Suc n"]) (use Cons.prems u1 fits sb1(2) in auto)
      show ?thesis
        by (rule Cons.prems(1) [of sb' n' cur' "c # taken"])
           (use no_break Cons.prems(3) r sb1 in auto)
    next
      case False
      then have n: "n = 0" using no_break u1 by auto
      have "fill_ra m sb1 (Suc 0) cur = Some (sb1, Suc 0, cur)"
        using False u1 Cons.prems(3) by (cases cur) auto
      then show ?thesis
        by (intro Cons.prems(1) [of sb1 "Suc 0" cur "[c]"])
           (use no_break Cons.prems(3) sb1 n in auto)
    qed
  qed
qed

text \<open>The packets of one call, the options they hold, and the options that were not sent.\<close>

definition sends :: "u32 \<Rightarrow> byte list \<Rightarrow> byte list list \<Rightarrow> byte list list \<Rightarrow> int \<Rightarrow> bool" where
  "sends max_size hdr opts ds rc \<longleftrightarrow>
     ds \<noteq> [] \<and> (rc = 0 \<or> rc = -1) \<and>
     (\<exists>groups rest. list_all2 (packed max_size hdr) groups ds \<and> opts = concat groups @ rest \<and>
        (rc = 0 \<longrightarrow> rest = []))"

lemma sends_one:
  "packed m hdr ms d \<Longrightarrow> rc = 0 \<and> rest = [] \<or> rc = -1 \<Longrightarrow> sends m hdr (ms @ rest) [d] rc"
  unfolding sends_def by (auto intro!: exI [of _ "[ms]"])

lemma sends_Cons:
  assumes "packed m hdr ms d" and "sends m hdr opts ds rc"
  shows "sends m hdr (ms @ opts) (d # ds) rc"
proof -
  from assms(2) obtain groups rest where "list_all2 (packed m hdr) groups ds"
    "opts = concat groups @ rest" "rc = 0 \<longrightarrow> rest = []" "rc = 0 \<or> rc = -1"
    by (auto simp: sends_def)
  with assms(1) show ?thesis
    unfolding sends_def by (intro conjI exI [of _ "ms # groups"] exI [of _ rest]) auto
qed

lemma send_ra_loop_spec:
  assumes "sb_inv ra_hdr" and "used ra_hdr = 16" and "sb_inv sb"
    and "\<forall>c \<in> set cur. sb_inv c \<and> used c \<le> 65520" and "unat (max_ra_option_size p) \<le> 65536"
    and "rasrc_address p = Some src"
  shows "\<exists>rc ds. send_ra_loop dest p ra_hdr sb cur w =
      Some (rc, w\<lparr>sent := sent w @ map (make_packet dest p src) ds\<rparr>) \<and>
    sends (max_ra_option_size p) (contents ra_hdr) (map contents cur) ds rc \<and>
    ((\<forall>n. 0 \<le> sendmsg_result w n) \<longrightarrow> rc = 0)"
  using assms
proof (induction cur arbitrary: sb w rule: length_induct)
  case (1 cur)
  let ?m = "max_ra_option_size p" and ?hdr = "contents ra_hdr"
  have "used (sb\<lparr>used := 0\<rparr>) + length ?hdr \<le> 65536"
    using 1(2,3) by simp
  from safe_buffer_append_fits [OF used_reset(1) [OF 1(4)] this] obtain sb1 where
    sb1: "safe_buffer_append (sb\<lparr>used := 0\<rparr>) ?hdr = Some (16, sb1)" "sb_inv sb1" "contents sb1 = ?hdr"
    using 1(2,3) by (auto simp: used_reset)
  have u1: "used sb1 = 16"
    using length_contents [OF sb1(2)] 1(2,3) sb1(3) by simp
  obtain sb2 n taken cur' where
    f: "fill_ra ?m sb1 0 cur = Some (sb2, n, cur')" "sb_inv sb2" "cur = taken @ cur'"
      "contents sb2 = contents sb1 @ concat (map contents taken)"
      "used sb2 \<le> unat ?m \<or> length taken \<le> 1" "cur \<noteq> [] \<longrightarrow> taken \<noteq> []"
    by (rule fill_ra_spec [of sb1 cur ?m 0]) (use sb1(2) u1 1(5,6) in auto)
  let ?d = "contents sb2" and ?pkt = "make_packet dest p src"
  let ?w = "w\<lparr>sent := sent w @ [?pkt ?d]\<rparr>"
  have d: "packed ?m ?hdr (map contents taken) ?d"
    using f(4,5) length_contents [OF f(2)] by (auto simp: packed_def sb1(3))
  have send: "really_send dest p sb2 w = Some (sendmsg_result w (length (sent w)), ?w)"
    by (simp add: really_send_def 1(7) sendmsg_def)
  note step = send_ra_loop.simps [of dest p ra_hdr sb cur w]
  show ?case
  proof (cases "sendmsg_result w (length (sent w)) < 0 \<or> cur' = []")
    case True
    define rc :: int where "rc = (if sendmsg_result w (length (sent w)) < 0 then -1 else 0)"
    have "send_ra_loop dest p ra_hdr sb cur w = Some (rc, w\<lparr>sent := sent w @ map ?pkt [?d]\<rparr>)"
      using True by (auto simp: step sb1(1) f(1) send rc_def)
    moreover have "sends ?m ?hdr (map contents cur) [?d] rc"
      using sends_one [OF d, of rc "map contents cur'"] True by (auto simp: f(3) rc_def)
    moreover have "(\<forall>n. 0 \<le> sendmsg_result w n) \<longrightarrow> rc = 0"
      unfolding rc_def by (metis not_less)
    ultimately show ?thesis by blast
  next
    case False
    have "length cur' < length cur"
      using fill_ra_consumes [OF f(1)] False by simp
    moreover have "\<forall>c \<in> set cur'. sb_inv c \<and> used c \<le> 65520"
      using 1(5) f(3) by simp
    ultimately obtain rc ds where
      r: "send_ra_loop dest p ra_hdr sb2 cur' ?w =
          Some (rc, ?w\<lparr>sent := sent ?w @ map ?pkt ds\<rparr>)"
        "sends ?m ?hdr (map contents cur') ds rc" "(\<forall>n. 0 \<le> sendmsg_result ?w n) \<longrightarrow> rc = 0"
      using 1(1) [rule_format, of cur' sb2 ?w] 1(2,3,6,7) f(2) by auto
    have "send_ra_loop dest p ra_hdr sb cur w = Some (rc, w\<lparr>sent := sent w @ map ?pkt (?d # ds)\<rparr>)"
      using False by (simp add: step sb1(1) f(1) send r(1))
    moreover have "sends ?m ?hdr (map contents cur) (?d # ds) rc"
      using sends_Cons [OF d r(2)] by (simp add: f(3))
    moreover have "(\<forall>n. 0 \<le> sendmsg_result w n) \<longrightarrow> rc = 0"
      using r(3) by simp
    ultimately show ?thesis by blast
  qed
qed

text \<open>The empty buffer that may start the list of options holds none of them.\<close>

lemma concat_filter_nonempty: "concat (filter (\<lambda>m. m \<noteq> []) ms) = concat ms"
  by (induction ms) auto

lemma sends_filter:
  assumes "sends m hdr opts ds rc"
  shows "sends m hdr (filter (\<lambda>m. m \<noteq> []) opts) ds rc"
proof -
  let ?f = "filter (\<lambda>m. m \<noteq> [])"
  have p: "packed m hdr (?f ms) d" if "packed m hdr ms d" for ms d
    using that unfolding packed_def concat_filter_nonempty
    by (auto intro: order_trans [OF length_filter_le])
  from assms obtain groups rest where g: "list_all2 (packed m hdr) groups ds"
    "opts = concat groups @ rest" "rc = 0 \<longrightarrow> rest = []" "ds \<noteq> []" "rc = 0 \<or> rc = -1"
    by (auto simp: sends_def)
  have "list_all2 (packed m hdr) (map ?f groups) ds"
    using g(1) p by (auto simp: list_all2_map1 elim: list_all2_mono)
  moreover have "?f opts = concat (map ?f groups) @ ?f rest"
    by (simp add: g(2) filter_concat)
  ultimately show ?thesis
    using g(3,4,5) unfolding sends_def by auto
qed

subsection \<open>One call of send_ra\<close>

text \<open>What sending needs of an interface besides being ready.\<close>

definition sendable :: "Interface \<Rightarrow> bool" where
  "sendable iface \<longleftrightarrow>
     iface_static iface \<and> ready_to_send iface \<and> list_all dnssl_ok (AdvDNSSLList iface) \<and>
     (case AdvCaptivePortalAPI iface of None \<Rightarrow> True | Some u \<Rightarrow> length u \<le> 2038) \<and>
     unat (max_ra_option_size (props iface)) \<le> 65536"

lemma sendable_wire: "sendable iface \<Longrightarrow> wire_config_ok iface"
  by (auto simp: sendable_def wire_config_ok_def ready_to_send_def iface_ranges_def iface_static_def)

text \<open>Whether the header withdraws the router: it stops, or forwarding is off and no call noted it.\<close>

definition ra_cease :: "Interface \<Rightarrow> world \<Rightarrow> bool" where
  "ra_cease iface w \<longleftrightarrow>
     cease_adv (state_info iface) \<or>
     \<not> warned w \<and> proc_forwarding (kern w) \<notin> {Proc_value 1, Proc_value 2}"

definition ra_dest :: "in6_addr option \<Rightarrow> in6_addr" where
  "ra_dest dest = (case dest of None \<Rightarrow> all_hosts_addr | Some d \<Rightarrow> d)"

definition ra_warned :: "Interface \<Rightarrow> world \<Rightarrow> bool" where
  "ra_warned iface w \<longleftrightarrow> warned w \<or>
     \<not> cease_adv (state_info iface) \<and> proc_forwarding (kern w) \<notin> {Proc_value 1, Proc_value 2}"

lemma forwarding_cease:
  assumes "proc_forwarding (kern w) \<noteq> Unreadable"
  shows "(if cease_adv (state_info iface) then Some (True, w)
      else do { (rc, w) \<leftarrow> check_ip6_forwarding w; Some (rc \<noteq> 0, w) }) =
    Some (ra_cease iface w, w\<lparr>warned := ra_warned iface w\<rparr>)"
proof -
  have eq: "w = w\<lparr>warned := warned w\<rparr>" by simp
  show ?thesis
    using assms eq by (cases "proc_forwarding (kern w)"; cases "warned w")
      (auto simp: ra_cease_def ra_warned_def check_ip6_forwarding_def)
qed

lemma update_iface_times_frame:
  "\<exists>t ps. update_iface_times iface w =
     (iface\<lparr>times := t, AdvPrefixList := ps\<rparr>, w\<lparr>ticks := Suc (ticks w)\<rparr>)"
  by (simp add: update_iface_times_def clock_gettime_def Let_def) blast

text \<open>The call without the bookkeeping of the times.\<close>

lemma send_ra_unfold:
  assumes "AdvSendAdvert iface"
  obtains t ps n t0 w0 where
    "send_ra iface dest w = do {
       (cease, w) \<leftarrow> (if cease_adv (state_info iface) then Some (True, w\<lparr>ticks := n\<rparr>)
          else do { (rc, w) \<leftarrow> check_ip6_forwarding (w\<lparr>ticks := n\<rparr>); Some (rc \<noteq> 0, w) });
       ra_hdr \<leftarrow> add_ra_header new_safe_buffer (ra_header_info iface) cease;
       ra_opts \<leftarrow> build_ra_options (kern w) (iface\<lparr>times := t, AdvPrefixList := ps\<rparr>) (ra_dest dest);
       (rc, w) \<leftarrow> send_ra_loop (ra_dest dest) (props iface) ra_hdr new_safe_buffer ra_opts w;
       Some (rc, iface\<lparr>times := t, AdvPrefixList := ps\<rparr>, w)
     }"
    "iface\<lparr>times := t, AdvPrefixList := ps\<rparr> = fst (update_iface_times (iface\<lparr>times := t0\<rparr>) w0)"
proof -
  obtain t0 n0 where d0: "(case dest of
      None \<Rightarrow> let (now, w) = clock_gettime w
              in (all_hosts_addr, iface\<lparr>times := (times iface)\<lparr>last_multicast := now\<rparr>\<rparr>, w)
    | Some d \<Rightarrow> (d, iface, w)) = (ra_dest dest, iface\<lparr>times := t0\<rparr>, w\<lparr>ticks := n0\<rparr>)"
  proof (cases dest)
    case (Some d)
    with that [of "times iface" "ticks w"] show ?thesis by (simp add: ra_dest_def)
  qed (simp add: ra_dest_def clock_gettime_def)
  obtain t ps where t: "update_iface_times (iface\<lparr>times := t0\<rparr>) (w\<lparr>ticks := n0\<rparr>) =
      (iface\<lparr>times := t, AdvPrefixList := ps\<rparr>, w\<lparr>ticks := Suc n0\<rparr>)"
    using update_iface_times_frame [of "iface\<lparr>times := t0\<rparr>" "w\<lparr>ticks := n0\<rparr>"] by auto
  show ?thesis
  proof (rule that)
    show "iface\<lparr>times := t, AdvPrefixList := ps\<rparr> =
        fst (update_iface_times (iface\<lparr>times := t0\<rparr>) (w\<lparr>ticks := n0\<rparr>))"
      by (simp add: t)
  qed (use assms in \<open>simp add: send_ra_def d0 t\<close>)
qed

text \<open>The steps of a call that sends.\<close>

lemma send_ra_steps:
  assumes s: "send_ra iface dest w = Some (rc, iface', w')" and adv: "AdvSendAdvert iface"
  obtains t ps t0 w0 cease w1 hdr sbl where
    "iface' = iface\<lparr>times := t, AdvPrefixList := ps\<rparr>"
    "iface' = fst (update_iface_times (iface\<lparr>times := t0\<rparr>) w0)"
    "sent w1 = sent w" "kern w1 = kern w" "cease_adv (state_info iface) \<longrightarrow> cease"
    "add_ra_header new_safe_buffer (ra_header_info iface) cease = Some hdr"
    "build_ra_options (kern w1) iface' (ra_dest dest) = Some sbl"
    "send_ra_loop (ra_dest dest) (props iface) hdr new_safe_buffer sbl w1 = Some (rc, w')"
proof (rule send_ra_unfold [OF adv, of dest w])
  fix t ps n t0 w0
  assume u: "send_ra iface dest w = do {
       (cease, w) \<leftarrow> (if cease_adv (state_info iface) then Some (True, w\<lparr>ticks := n\<rparr>)
          else do { (rc, w) \<leftarrow> check_ip6_forwarding (w\<lparr>ticks := n\<rparr>); Some (rc \<noteq> 0, w) });
       ra_hdr \<leftarrow> add_ra_header new_safe_buffer (ra_header_info iface) cease;
       ra_opts \<leftarrow> build_ra_options (kern w) (iface\<lparr>times := t, AdvPrefixList := ps\<rparr>) (ra_dest dest);
       (rc, w) \<leftarrow> send_ra_loop (ra_dest dest) (props iface) ra_hdr new_safe_buffer ra_opts w;
       Some (rc, iface\<lparr>times := t, AdvPrefixList := ps\<rparr>, w)
     }"
    and t: "iface\<lparr>times := t, AdvPrefixList := ps\<rparr> = fst (update_iface_times (iface\<lparr>times := t0\<rparr>) w0)"
  from s [unfolded u] obtain c w1 hdr sbl where
    c: "(if cease_adv (state_info iface) then Some (True, w\<lparr>ticks := n\<rparr>)
      else do { (rc, w) \<leftarrow> check_ip6_forwarding (w\<lparr>ticks := n\<rparr>); Some (rc \<noteq> 0, w) }) = Some (c, w1)" and
    r: "add_ra_header new_safe_buffer (ra_header_info iface) c = Some hdr"
      "build_ra_options (kern w1) (iface\<lparr>times := t, AdvPrefixList := ps\<rparr>) (ra_dest dest) = Some sbl"
      "send_ra_loop (ra_dest dest) (props iface) hdr new_safe_buffer sbl w1 = Some (rc, w')"
      "iface' = iface\<lparr>times := t, AdvPrefixList := ps\<rparr>"
    by (auto simp: bind_eq_Some_conv)
  have "sent w1 = sent w" "kern w1 = kern w" "cease_adv (state_info iface) \<longrightarrow> c"
    using c by (auto simp: check_ip6_forwarding_def bind_eq_Some_conv split: if_splits)
  with r t show ?thesis
    by (intro that [where t = t and ps = ps and cease = c]) simp_all
qed

lemma send_ra_spec:
  assumes adv: "AdvSendAdvert iface" and ok: "sendable iface"
    and fwd: "proc_forwarding (kern w) \<noteq> Unreadable"
  obtains rc ds src t ps w' where
    "send_ra iface dest w = Some (rc, iface\<lparr>times := t, AdvPrefixList := ps\<rparr>, w')"
    "rasrc_address (props iface) = Some src"
    "sent w' = sent w @ map (make_packet (ra_dest dest) (props iface) src) ds"
    "sends (max_ra_option_size (props iface)) (ra_header_image (ra_header_info iface) (ra_cease iface w))
      (ra_option_images (kern w) (iface\<lparr>times := t, AdvPrefixList := ps\<rparr>)) ds rc"
    "kern w' = kern w" "(\<forall>n. 0 \<le> sendmsg_result w n) \<longrightarrow> rc = 0"
    "sendmsg_result w' = sendmsg_result w" "warned w' = ra_warned iface w"
proof -
  obtain t ps n t0 w0 where u: "send_ra iface dest w = do {
       (cease, w) \<leftarrow> (if cease_adv (state_info iface) then Some (True, w\<lparr>ticks := n\<rparr>)
          else do { (rc, w) \<leftarrow> check_ip6_forwarding (w\<lparr>ticks := n\<rparr>); Some (rc \<noteq> 0, w) });
       ra_hdr \<leftarrow> add_ra_header new_safe_buffer (ra_header_info iface) cease;
       ra_opts \<leftarrow> build_ra_options (kern w) (iface\<lparr>times := t, AdvPrefixList := ps\<rparr>) (ra_dest dest);
       (rc, w) \<leftarrow> send_ra_loop (ra_dest dest) (props iface) ra_hdr new_safe_buffer ra_opts w;
       Some (rc, iface\<lparr>times := t, AdvPrefixList := ps\<rparr>, w)
     }"
    by (rule send_ra_unfold [OF adv])
  let ?i = "iface\<lparr>times := t, AdvPrefixList := ps\<rparr>" and ?c = "ra_cease iface w"
  let ?w = "w\<lparr>ticks := n, warned := ra_warned iface w\<rparr>"
  have c: "(if cease_adv (state_info iface) then Some (True, w\<lparr>ticks := n\<rparr>)
      else do { (rc, w) \<leftarrow> check_ip6_forwarding (w\<lparr>ticks := n\<rparr>); Some (rc \<noteq> 0, w) }) = Some (?c, ?w)"
    using forwarding_cease [of "w\<lparr>ticks := n\<rparr>" iface] fwd by (simp add: ra_cease_def ra_warned_def)
  obtain hdr where hdr: "add_ra_header new_safe_buffer (ra_header_info iface) ?c = Some hdr" "sb_inv hdr"
    "contents hdr = ra_header_image (ra_header_info iface) ?c"
    using sb.writes_fits [OF single_block_writes(1) [of new_safe_buffer "ra_header_info iface" ?c]] by auto
  have wire: "wire_config_ok ?i" "list_all dnssl_ok (AdvDNSSLList ?i)"
    using sendable_wire [OF ok] ok by (simp_all add: wire_config_ok_def sendable_def)
  from build_ra_options_adds [OF this, of "kern w" "ra_dest dest"] obtain sbl where
    sbl: "build_ra_options (kern w) ?i (ra_dest dest) = Some sbl" "sbl_inv sbl"
      "blocks sbl = ra_option_images (kern w) ?i"
    by (auto simp: opts.adds_def)
  have wf: "list_all nd_opt_wf (blocks sbl)"
    using build_ra_options_keeps_wf [OF wire(1) sbl(1)] by (simp add: wf_blocks_def)
  have small: "sb_inv c \<and> used c \<le> 65520" if "c \<in> set sbl" for c
  proof -
    have "sb_inv c" using that sbl(2) by (simp add: sbl_inv_def)
    moreover have "contents c = [] \<or> contents c \<in> set (blocks sbl)"
      using that by (auto simp: blocks_def)
    then have "length (contents c) \<le> 2040"
      using wf nd_opt_wf_bounds by (auto simp: list_all_iff)
    ultimately show ?thesis by simp
  qed
  obtain src where src: "rasrc_address (props iface) = Some src"
    using ok by (auto simp: sendable_def ready_to_send_def)
  have "used hdr = 16"
    using length_contents [OF hdr(2)] by (simp add: hdr(3))
  from send_ra_loop_spec [OF hdr(2) this, of new_safe_buffer sbl "props iface" src "ra_dest dest" ?w]
  obtain rc ds where
    r: "send_ra_loop (ra_dest dest) (props iface) hdr new_safe_buffer sbl ?w =
        Some (rc, ?w\<lparr>sent := sent ?w @ map (make_packet (ra_dest dest) (props iface) src) ds\<rparr>)"
      "sends (max_ra_option_size (props iface)) (contents hdr) (map contents sbl) ds rc"
      "(\<forall>n. 0 \<le> sendmsg_result ?w n) \<longrightarrow> rc = 0"
    using small src ok by (auto simp: sendable_def)
  show ?thesis
  proof (rule that)
    show "send_ra iface dest w = Some (rc, ?i,
        ?w\<lparr>sent := sent ?w @ map (make_packet (ra_dest dest) (props iface) src) ds\<rparr>)"
      unfolding u c by (simp add: hdr(1) sbl(1) r(1))
    show "sends (max_ra_option_size (props iface)) (ra_header_image (ra_header_info iface) ?c)
        (ra_option_images (kern w) ?i) ds rc"
      using sends_filter [OF r(2)] by (simp add: hdr(3) blocks_def flip: sbl(3))
  qed (use r(3) src in auto)
qed

text \<open>
  The router lifetime while forwarding is off: the first advertisement withdraws the router, every later one
  announces it, since the check only reports once.
\<close>

definition router_lifetime :: "ra_packet \<Rightarrow> u16" where
  "router_lifetime p = from_be (take 2 (drop 6 (pkt_data p)))"

lemma header_lifetime:
  "router_lifetime (make_packet dest p src (ra_header_image info cease @ opts)) =
    (if cease then 0 else word_of_int (AdvDefaultLifetime info))"
proof -
  have "from_be [0, 0] = (0 :: u16)" by (simp add: from_be_def)
  then show ?thesis
    by (simp add: router_lifetime_def make_packet_def ra_header_image_def from_be_be)
qed

lemma send_ra_forwarding_off:
  assumes "AdvSendAdvert iface" and "sendable iface" and "\<not> cease_adv (state_info iface)"
    and "proc_forwarding (kern w) \<notin> {Unreadable, Proc_value 1, Proc_value 2}"
  shows "\<exists>rc iface' w' pkts. send_ra iface dest w = Some (rc, iface', w') \<and> warned w' \<and>
    sent w' = sent w @ pkts \<and> pkts \<noteq> [] \<and>
    list_all (\<lambda>p. router_lifetime p =
      (if warned w then word_of_int (AdvDefaultLifetime (ra_header_info iface)) else 0)) pkts"
proof -
  have "proc_forwarding (kern w) \<noteq> Unreadable" using assms(4) by simp
  then obtain rc t ps w' src ds where s:
    "send_ra iface dest w = Some (rc, iface\<lparr>times := t, AdvPrefixList := ps\<rparr>, w')"
    "sent w' = sent w @ map (make_packet (ra_dest dest) (props iface) src) ds"
    "sends (max_ra_option_size (props iface)) (ra_header_image (ra_header_info iface) (ra_cease iface w))
      (ra_option_images (kern w) (iface\<lparr>times := t, AdvPrefixList := ps\<rparr>)) ds rc"
    "warned w' = ra_warned iface w"
    using send_ra_spec [OF assms(1,2)] by metis
  have c: "ra_cease iface w = (\<not> warned w)" "ra_warned iface w"
    using assms(3,4) by (auto simp: ra_cease_def ra_warned_def)
  have "\<exists>opts. d = ra_header_image (ra_header_info iface) (\<not> warned w) @ opts" if "d \<in> set ds" for d
    using s(3) that c(1) by (auto simp: sends_def packed_def list_all2_conv_all_nth in_set_conv_nth)
  then have "list_all (\<lambda>p. router_lifetime p =
      (if warned w then word_of_int (AdvDefaultLifetime (ra_header_info iface)) else 0))
      (map (make_packet (ra_dest dest) (props iface) src) ds)"
    by (force simp: list_all_iff header_lifetime)
  moreover have "ds \<noteq> []" using s(3) by (simp add: sends_def)
  ultimately show ?thesis using s c(2) by auto
qed

subsection \<open>To whom advertisements go\<close>

text \<open>Whatever happens, a call of \<open>send_ra\<close> only sends to its destination, from the source address.\<close>

lemma send_ra_loop_sent:
  "send_ra_loop dest p ra_hdr sb cur w = Some (rc, w') \<Longrightarrow>
     \<exists>ds src. w' = w\<lparr>sent := sent w @ map (make_packet dest p src) ds\<rparr> \<and> rasrc_address p = Some src"
proof (induction dest p ra_hdr sb cur w rule: send_ra_loop.induct)
  case (1 dest p ra_hdr sb cur w)
  from "1.prems" obtain n1 sb1 sb2 n cur' err w1 where
    a: "safe_buffer_append (sb\<lparr>used := 0\<rparr>) (contents ra_hdr) = Some (n1, sb1)" and
    f: "fill_ra (max_ra_option_size p) sb1 0 cur = Some (sb2, n, cur')" and
    s: "really_send dest p sb2 w = Some (err, w1)" and
    r: "(if err < 0 then Some (-1, w1) else if cur' = [] then Some (0, w1)
      else send_ra_loop dest p ra_hdr sb2 cur' w1) = Some (rc, w')"
    by (auto simp: send_ra_loop.simps [of dest] bind_eq_Some_conv)
  from s obtain src where
    src: "rasrc_address p = Some src" "w1 = w\<lparr>sent := sent w @ [make_packet dest p src (contents sb2)]\<rparr>"
    by (auto simp: really_send_def bind_eq_Some_conv sendmsg_def)
  show ?case
  proof (cases "err < 0 \<or> cur' = []")
    case True
    with r have "w' = w1" by (auto split: if_splits)
    with src have "w' = w\<lparr>sent := sent w @ map (make_packet dest p src) [contents sb2]\<rparr>" by simp
    with src(1) show ?thesis by blast
  next
    case False
    with r have "send_ra_loop dest p ra_hdr sb2 cur' w1 = Some (rc, w')" by simp
    from "1.IH" [OF a refl f refl refl s refl _ _ this] False src obtain ds where
      "w' = w1\<lparr>sent := sent w1 @ map (make_packet dest p src) ds\<rparr>" by auto
    with src have "w' = w\<lparr>sent := sent w @ map (make_packet dest p src) (contents sb2 # ds)\<rparr>"
      by simp
    with src(1) show ?thesis by blast
  qed
qed

text \<open>The note is never taken back.\<close>

lemma send_ra_warned:
  assumes "send_ra iface dest w = Some (rc, iface', w')" and "warned w"
  shows "warned w'"
  using assms
  by (auto simp: send_ra_def bind_eq_Some_conv check_ip6_forwarding_def update_iface_times_def clock_gettime_def Let_def
      split: if_split_asm option.split_asm prod.split_asm proc_file.split_asm dest!: send_ra_loop_sent)

definition packets_from :: "Interface \<Rightarrow> in6_addr set \<Rightarrow> ra_packet list \<Rightarrow> bool" where
  "packets_from iface dests pkts \<longleftrightarrow>
     (\<forall>p \<in> set pkts. pkt_dest p \<in> dests \<and> pkt_ifindex p = if_index (props iface) \<and>
        rasrc_address (props iface) = Some (pkt_src p))"

definition same_but_times :: "Interface \<Rightarrow> Interface \<Rightarrow> bool" where
  "same_but_times iface iface' \<longleftrightarrow> (\<exists>t ps. iface' = iface\<lparr>times := t, AdvPrefixList := ps\<rparr>)"

lemma same_but_times_upd [simp]: "same_but_times i (i\<lparr>times := t, AdvPrefixList := ps\<rparr>)"
  unfolding same_but_times_def by blast

lemma same_but_times_refl [simp]: "same_but_times i i"
  using same_but_times_upd [of i "AdvPrefixList i" "times i"] by simp

lemma same_but_times_trans:
  assumes "same_but_times i j" and "same_but_times j k"
  shows "same_but_times i k"
proof -
  from assms obtain t ps t' ps' where "j = i\<lparr>times := t, AdvPrefixList := ps\<rparr>"
    "k = j\<lparr>times := t', AdvPrefixList := ps'\<rparr>"
    unfolding same_but_times_def by blast
  then have "k = i\<lparr>times := t', AdvPrefixList := ps'\<rparr>" by simp
  then show ?thesis by simp
qed

lemma ranges_times:
  "iface_ranges (i\<lparr>times := t, AdvPrefixList := ps\<rparr>) = iface_ranges i"
  "iface_static (i\<lparr>times := t, AdvPrefixList := ps\<rparr>) = iface_static i"
  by (simp_all add: iface_ranges_def iface_static_def)

lemma sendable_times: "sendable (i\<lparr>times := t, AdvPrefixList := ps\<rparr>) = sendable i"
  by (simp add: sendable_def ready_to_send_def ranges_times)

lemma same_but_times_fields:
  assumes "same_but_times i j"
  shows "props j = props i" "state_info j = state_info i" "ClientList j = ClientList i"
    "AdvSendAdvert j = AdvSendAdvert i" "UnicastOnly j = UnicastOnly i"
    "UnrestrictedUnicast j = UnrestrictedUnicast i" "sendable j = sendable i"
  using assms unfolding same_but_times_def by (auto simp: sendable_times)

lemma send_ra_sent:
  assumes "send_ra iface dest w = Some (rc, iface', w')"
  shows "\<exists>pkts. sent w' = sent w @ pkts \<and> packets_from iface {ra_dest dest} pkts \<and>
      (AdvSendAdvert iface \<or> pkts = []) \<and> same_but_times iface iface' \<and> kern w' = kern w"
proof (cases "AdvSendAdvert iface")
  case False
  with assms show ?thesis by (simp add: send_ra_def packets_from_def)
next
  case True
  show ?thesis
  proof (rule send_ra_steps [OF assms True])
    fix t ps w1 hdr sbl
    assume "iface' = iface\<lparr>times := t, AdvPrefixList := ps\<rparr>" "sent w1 = sent w" "kern w1 = kern w"
      "send_ra_loop (ra_dest dest) (props iface) hdr new_safe_buffer sbl w1 = Some (rc, w')"
    with True show ?thesis
      by (auto dest!: send_ra_loop_sent simp: packets_from_def make_packet_def)
  qed
qed

text \<open>The destinations that the configuration allows for a request.\<close>

definition ra_targets :: "Interface \<Rightarrow> in6_addr option \<Rightarrow> in6_addr list" where
  "ra_targets iface dest =
     (if ClientList iface = [] then
        (if dest = None \<and> UnicastOnly iface then [] else [ra_dest dest])
      else case dest of
        None \<Rightarrow> map Address (filter (\<lambda>c. \<not> ignored c) (ClientList iface))
      | Some d \<Rightarrow>
          (case find (\<lambda>c. Address c = d) (ClientList iface) of
             Some c \<Rightarrow> if ignored c then [] else [d]
           | None \<Rightarrow> if UnrestrictedUnicast iface then [d] else []))"

lemma packets_from_append:
  "packets_from i A ps \<Longrightarrow> packets_from i B qs \<Longrightarrow> packets_from i (A \<union> B) (ps @ qs)"
  by (auto simp: packets_from_def)

lemma packets_from_mono: "packets_from i A ps \<Longrightarrow> A \<subseteq> B \<Longrightarrow> packets_from i B ps"
  by (auto simp: packets_from_def)

lemma packets_from_props: "props j = props i \<Longrightarrow> packets_from j A ps = packets_from i A ps"
  by (simp add: packets_from_def)

text \<open>The multicast round of the client list.\<close>

lemma send_ra_clients_all:
  assumes "send_ra_clients None cs iface w = Some (b, iface', w')"
  shows "\<exists>pkts. sent w' = sent w @ pkts \<and>
      packets_from iface (Address ` set (filter (\<lambda>c. \<not> ignored c) cs)) pkts \<and>
      (AdvSendAdvert iface \<or> pkts = []) \<and> same_but_times iface iface' \<and> kern w' = kern w \<and> \<not> b"
  using assms
proof (induction cs arbitrary: iface w)
  case Nil
  then show ?case by (simp add: packets_from_def)
next
  case (Cons c cs)
  show ?case
  proof (cases "ignored c")
    case True
    with Cons show ?thesis by simp
  next
    case False
    with Cons.prems obtain rc i1 w1 where
      1: "send_ra iface (Some (Address c)) w = Some (rc, i1, w1)" and
      2: "send_ra_clients None cs i1 w1 = Some (b, iface', w')"
      by (auto simp: bind_eq_Some_conv)
    from send_ra_sent [OF 1] obtain ps where
      ps: "sent w1 = sent w @ ps" "packets_from iface {Address c} ps" "AdvSendAdvert iface \<or> ps = []"
        "same_but_times iface i1" "kern w1 = kern w"
      by (auto simp: ra_dest_def)
    note f = same_but_times_fields [OF ps(4)]
    from Cons.IH [OF 2] obtain qs where
      qs: "sent w' = sent w1 @ qs" "packets_from iface (Address ` set (filter (\<lambda>c. \<not> ignored c) cs)) qs"
        "AdvSendAdvert iface \<or> qs = []" "same_but_times i1 iface'" "kern w' = kern w1" "\<not> b"
      by (auto simp: f packets_from_props [OF f(1)])
    from packets_from_append [OF ps(2) qs(2)] False ps qs same_but_times_trans [OF ps(4) qs(4)]
    show ?thesis by auto
  qed
qed

text \<open>A request of one client: the first entry with its address decides.\<close>

lemma send_ra_clients_one:
  "send_ra_clients (Some d) cs iface w =
     (case find (\<lambda>c. Address c = d) cs of
        None \<Rightarrow> Some (False, iface, w)
      | Some c \<Rightarrow>
          if ignored c then Some (True, iface, w)
          else do { (_, iface, w) \<leftarrow> send_ra iface (Some d) w; Some (True, iface, w) })"
  by (induction cs) auto

lemma setup_iface_sent:
  assumes "setup_iface iface w = Some (rc, iface', w')"
  shows "sent w' = sent w" "kern w' = kern w" "sendmsg_result w' = sendmsg_result w"
  using assms unfolding setup_iface_def Let_def case_prod_beta
  by (auto simp: bind_eq_Some_conv setup_allrouters_membership_def Let_def
      split: if_split_asm sockopt_result.split_asm)

lemma setup_iface_groups:
  assumes "setup_iface iface w = Some (rc, iface', w')"
  shows "w'\<lparr>group_ops := []\<rparr> = w\<lparr>group_ops := []\<rparr>"
  using assms unfolding setup_iface_def Let_def case_prod_beta
  by (auto simp: bind_eq_Some_conv setup_allrouters_membership_def Let_def
      split: if_split_asm sockopt_result.split_asm)

lemma setup_iface_warned: "setup_iface iface w = Some (rc, iface', w') \<Longrightarrow> warned w' = warned w"
  using arg_cong [OF setup_iface_groups, of iface w rc iface' w' warned] by simp

lemma ensure_iface_setup_result:
  assumes "ensure_iface_setup iface w = Some (rc, iface', w')"
  shows "sent w' = sent w" "kern w' = kern w" "rc < 0 \<longleftrightarrow> \<not> ready (state_info iface')"
    "warned w' = warned w"
  using assms by (auto simp: ensure_iface_setup_def bind_eq_Some_conv setup_iface_sent setup_iface_warned
      split: if_split_asm)

lemma count_initial_ra_fields [simp]:
  "props (count_initial_ra i dest) = props i" "ready (state_info (count_initial_ra i dest)) = ready (state_info i)"
  "AdvSendAdvert (count_initial_ra i dest) = AdvSendAdvert i"
  "sendable (count_initial_ra i dest) = sendable i"
  by (simp_all add: count_initial_ra_def sendable_def iface_static_def ready_to_send_def)

lemma ra_targets_same: "same_but_times i j \<Longrightarrow> ra_targets j dest = ra_targets i dest"
  unfolding same_but_times_def by (auto simp: ra_targets_def)

text \<open>Every packet goes to an allowed destination, and none while the interface is not ready.\<close>

lemma send_ra_to_clients_sent:
  assumes s: "send_ra_to_clients iface dest w = Some (rc, iface', w')"
  shows "\<exists>pkts. sent w' = sent w @ pkts \<and> packets_from iface (set (ra_targets iface dest)) pkts \<and>
    (AdvSendAdvert iface \<or> pkts = []) \<and> same_but_times iface iface' \<and> kern w' = kern w"
proof (cases "ClientList iface = []")
  case True
  then show ?thesis
    using s send_ra_sent [of iface dest w rc iface' w']
    by (auto simp: send_ra_to_clients_def ra_targets_def packets_from_def split: if_splits)
next
  case False
  show ?thesis
  proof (cases dest)
    case None
    with s False obtain b where "send_ra_clients None (ClientList iface) iface w = Some (b, iface', w')"
      by (auto simp: send_ra_to_clients_def bind_eq_Some_conv split: if_splits)
    from send_ra_clients_all [OF this] None False show ?thesis
      by (auto simp: ra_targets_def)
  next
    case (Some d)
    have none: ?thesis if "iface' = iface" "w' = w"
      using that by (simp add: packets_from_def)
    have one: ?thesis if "send_ra iface (Some d) w = Some (rc1, iface', w')" "ra_targets iface dest = [d]" for rc1
      using send_ra_sent [OF that(1)] that(2) by (simp add: ra_dest_def)
    show ?thesis
    proof (cases "find (\<lambda>c. Address c = d) (ClientList iface)")
      case None
      with s False Some none one [of rc] show ?thesis
        by (auto simp: send_ra_to_clients_def send_ra_clients_one ra_targets_def split: if_splits)
    next
      case (Some c)
      with s False \<open>dest = Some d\<close> none one show ?thesis
        by (auto simp: send_ra_to_clients_def send_ra_clients_one ra_targets_def bind_eq_Some_conv
            split: if_splits)
    qed
  qed
qed

lemma send_ra_forall_sent:
  assumes "send_ra_forall iface dest w = Some (rc, iface', w')"
  shows "\<exists>pkts. sent w' = sent w @ pkts \<and> packets_from iface' (set (ra_targets iface' dest)) pkts \<and>
    (ready (state_info iface') \<and> AdvSendAdvert iface' \<or> pkts = []) \<and> kern w' = kern w"
proof -
  from assms obtain rc1 i1 w1 where 1: "ensure_iface_setup iface w = Some (rc1, i1, w1)"
    by (auto simp: send_ra_forall_def bind_eq_Some_conv)
  note e = ensure_iface_setup_result [OF 1]
  show ?thesis
  proof (cases "rc1 < 0")
    case True
    with assms 1 e show ?thesis by (auto simp: send_ra_forall_def packets_from_def)
  next
    case False
    with assms 1 have s: "send_ra_to_clients (count_initial_ra i1 dest) dest w1 = Some (rc, iface', w')"
      by (simp add: send_ra_forall_def)
    from send_ra_to_clients_sent [OF s] obtain pkts where
      p: "sent w' = sent w1 @ pkts" "packets_from i1 (set (ra_targets (count_initial_ra i1 dest) dest)) pkts"
        "AdvSendAdvert i1 \<or> pkts = []" "same_but_times (count_initial_ra i1 dest) iface'" "kern w' = kern w1"
      by (auto simp: packets_from_def)
    note f = same_but_times_fields [OF p(4)]
    have "packets_from iface' (set (ra_targets iface' dest)) pkts"
      using p(2) ra_targets_same [OF p(4)] f(1) by (simp add: packets_from_def)
    with p e False f show ?thesis by auto
  qed
qed

lemma send_ra_clients_warned:
  "send_ra_clients dest cs iface w = Some (b, iface', w') \<Longrightarrow> warned w \<Longrightarrow> warned w'"
proof (induction cs arbitrary: iface w)
  case (Cons c cs)
  then show ?case
    by (auto simp: bind_eq_Some_conv split: if_split_asm dest: send_ra_warned)
qed simp

lemma send_ra_forall_warned:
  assumes "send_ra_forall iface dest w = Some (rc, iface', w')" and "warned w"
  shows "warned w'"
proof -
  from assms(1) obtain e i1 w1 where
    e: "ensure_iface_setup iface w = Some (e, i1, w1)" and
    r: "(if e < 0 then Some (-1, i1, w1) else send_ra_to_clients (count_initial_ra i1 dest) dest w1) = Some (rc, iface', w')"
    by (auto simp: send_ra_forall_def bind_eq_Some_conv)
  have "warned w1" using ensure_iface_setup_result(4) [OF e] assms(2) by simp
  with r show ?thesis
    by (auto simp: send_ra_to_clients_def bind_eq_Some_conv split: if_split_asm
        dest: send_ra_warned send_ra_clients_warned)
qed

subsection \<open>Every allowed destination is reached\<close>

text \<open>The kernel answers, forwarding can be read and every packet is accepted.\<close>

definition sends_succeed :: "world \<Rightarrow> bool" where
  "sends_succeed w \<longleftrightarrow> proc_forwarding (kern w) \<noteq> Unreadable \<and> (\<forall>n. 0 \<le> sendmsg_result w n)"

definition reaches :: "Interface \<Rightarrow> world \<Rightarrow> in6_addr set \<Rightarrow> Interface \<Rightarrow> world \<Rightarrow> bool" where
  "reaches iface w dests iface' w' \<longleftrightarrow> same_but_times iface iface' \<and> sends_succeed w' \<and>
     (\<exists>pkts. sent w' = sent w @ pkts \<and> pkt_dest ` set pkts = dests)"

lemma reaches_none: "sends_succeed w \<Longrightarrow> reaches iface w {} iface w"
  by (simp add: reaches_def)

lemma reaches_trans:
  "reaches i w A i1 w1 \<Longrightarrow> reaches i1 w1 B i2 w2 \<Longrightarrow> reaches i w (A \<union> B) i2 w2"
  unfolding reaches_def by (auto intro: same_but_times_trans simp: image_Un)

lemma send_ra_reaches:
  assumes "AdvSendAdvert iface" and "sendable iface" and w: "sends_succeed w"
  shows "\<exists>iface' w'. send_ra iface dest w = Some (0, iface', w') \<and>
    reaches iface w {ra_dest dest} iface' w'"
proof -
  have fwd: "proc_forwarding (kern w) \<noteq> Unreadable" and res: "\<forall>n. 0 \<le> sendmsg_result w n"
    using w by (simp_all add: sends_succeed_def)
  obtain rc ds src t ps w' where
    r: "send_ra iface dest w = Some (rc, iface\<lparr>times := t, AdvPrefixList := ps\<rparr>, w')"
      "sent w' = sent w @ map (make_packet (ra_dest dest) (props iface) src) ds"
      "sends (max_ra_option_size (props iface)) (ra_header_image (ra_header_info iface) (ra_cease iface w))
        (ra_option_images (kern w) (iface\<lparr>times := t, AdvPrefixList := ps\<rparr>)) ds rc"
      "kern w' = kern w" "(\<forall>n. 0 \<le> sendmsg_result w n) \<longrightarrow> rc = 0" "sendmsg_result w' = sendmsg_result w"
    by (rule send_ra_spec [OF assms(1,2) fwd])
  have "pkt_dest ` set (map (make_packet (ra_dest dest) (props iface) src) ds) = {ra_dest dest}"
    using r(3) by (auto simp: sends_def make_packet_def image_image neq_Nil_conv)
  with r w res show ?thesis
    unfolding reaches_def by (auto simp: sends_succeed_def)
qed

lemma send_ra_clients_reaches:
  assumes "AdvSendAdvert iface" and "sendable iface" and "sends_succeed w"
  shows "\<exists>iface' w'. send_ra_clients None cs iface w = Some (False, iface', w') \<and>
    reaches iface w (Address ` set (filter (\<lambda>c. \<not> ignored c) cs)) iface' w'"
  using assms
proof (induction cs arbitrary: iface w)
  case Nil
  then show ?case by (simp add: reaches_none)
next
  case (Cons c cs)
  show ?case
  proof (cases "ignored c")
    case True
    with Cons show ?thesis by simp
  next
    case False
    from send_ra_reaches [OF Cons.prems, of "Some (Address c)"] obtain i1 w1 where
      1: "send_ra iface (Some (Address c)) w = Some (0, i1, w1)" "reaches iface w {Address c} i1 w1"
      by (auto simp: ra_dest_def)
    then have "AdvSendAdvert i1" "sendable i1" "sends_succeed w1"
      using Cons.prems by (auto simp: reaches_def same_but_times_fields)
    from Cons.IH [OF this] obtain i2 w2 where
      2: "send_ra_clients None cs i1 w1 = Some (False, i2, w2)"
        "reaches i1 w1 (Address ` set (filter (\<lambda>c. \<not> ignored c) cs)) i2 w2"
      by blast
    from reaches_trans [OF 1(2) 2(2)] False 1(1) 2(1) show ?thesis by simp
  qed
qed

lemma send_ra_to_clients_reaches:
  assumes "AdvSendAdvert iface" and "sendable iface" and "sends_succeed w"
  shows "\<exists>iface' w'. send_ra_to_clients iface dest w = Some (0, iface', w') \<and>
    reaches iface w (set (ra_targets iface dest)) iface' w'"
proof (cases dest)
  case None
  with send_ra_reaches [OF assms, of None] send_ra_clients_reaches [OF assms, of "ClientList iface"]
    reaches_none [OF assms(3), of iface]
  show ?thesis
    by (auto simp: send_ra_to_clients_def ra_targets_def)
next
  case (Some d)
  with send_ra_reaches [OF assms, of "Some d"] reaches_none [OF assms(3), of iface]
  show ?thesis
    by (cases "find (\<lambda>c. Address c = d) (ClientList iface)")
       (auto simp: send_ra_to_clients_def ra_targets_def send_ra_clients_one ra_dest_def)
qed

lemma send_ra_forall_reaches:
  assumes "AdvSendAdvert iface" and "sendable iface" and "ready (state_info iface)" and "sends_succeed w"
  shows "\<exists>iface' w' pkts. send_ra_forall iface dest w = Some (0, iface', w') \<and>
    sent w' = sent w @ pkts \<and> pkt_dest ` set pkts = set (ra_targets iface dest)"
proof -
  let ?i = "count_initial_ra iface dest"
  have "ensure_iface_setup iface w = Some (0, iface, w)"
    using assms(2,3) by (simp add: ensure_iface_setup_def sendable_def ready_to_send_def)
  moreover have "ra_targets ?i dest = ra_targets iface dest"
    by (simp add: count_initial_ra_def ra_targets_def)
  ultimately show ?thesis
    using send_ra_to_clients_reaches [of ?i w dest] assms
    by (auto simp: send_ra_forall_def reaches_def)
qed

subsection \<open>Every packet is a well-formed advertisement\<close>

definition ra_with :: "ra_header_info \<Rightarrow> bool \<Rightarrow> byte list \<Rightarrow> bool" where
  "ra_with info cease d \<longleftrightarrow>
     (\<exists>ms. d = ra_header_image info cease @ concat ms \<and> list_all nd_opt_wf ms)"

definition ra_packet_wf :: "byte list \<Rightarrow> bool" where
  "ra_packet_wf d \<longleftrightarrow> (\<exists>info cease. ra_with info cease d)"

definition packets_wf :: "ra_packet list \<Rightarrow> bool" where
  "packets_wf ps \<longleftrightarrow> list_all (\<lambda>p. ra_packet_wf (pkt_data p)) ps"

lemma fill_ra_contents:
  "fill_ra m sb n cur = Some (sb', n', cur') \<Longrightarrow> sb_inv sb \<Longrightarrow> 0 < used sb \<Longrightarrow>
     sb_inv sb' \<and> (\<exists>taken. cur = taken @ cur' \<and> contents sb' = contents sb @ concat (map contents taken))"
proof (induction cur arbitrary: sb n)
  case Nil
  then show ?case by simp
next
  case (Cons c cur)
  show ?case
  proof (cases "used sb + used c > unat m \<and> n > 0")
    case True
    with Cons.prems show ?thesis by simp
  next
    case False
    with Cons.prems obtain k sb1 where
      1: "safe_buffer_append sb (contents c) = Some (k, sb1)"
        "fill_ra m sb1 (Suc n) cur = Some (sb', n', cur')"
      by (auto simp: bind_eq_Some_conv)
    from append_Some_inv [OF Cons.prems(2) 1(1)] have
      2: "sb_inv sb1" "contents sb1 = contents sb @ contents c" by auto
    have "0 < used sb1"
      using length_contents [OF 2(1)] length_contents [OF Cons.prems(2)] Cons.prems(3) by (simp add: 2(2))
    from Cons.IH [OF 1(2) 2(1) this] obtain taken where
      "sb_inv sb'" "cur = taken @ cur'" "contents sb' = contents sb1 @ concat (map contents taken)"
      by blast
    with 2(2) show ?thesis by (auto intro: exI [of _ "c # taken"])
  qed
qed

lemma send_ra_loop_wf:
  assumes "sb_inv ra_hdr" and "0 < used ra_hdr" and "contents ra_hdr = ra_header_image info cease"
  shows "send_ra_loop dest p ra_hdr sb cur w = Some (rc, w') \<Longrightarrow> sb_inv sb \<Longrightarrow>
    list_all nd_opt_wf (filter (\<lambda>m. m \<noteq> []) (map contents cur)) \<Longrightarrow>
    \<exists>pkts. sent w' = sent w @ pkts \<and> list_all (\<lambda>p. ra_with info cease (pkt_data p)) pkts"
  using assms
proof (induction dest p ra_hdr sb cur w rule: send_ra_loop.induct)
  case (1 dest p ra_hdr sb cur w)
  from "1.prems"(1) obtain n1 sb1 sb2 n cur' err w1 where
    a: "safe_buffer_append (sb\<lparr>used := 0\<rparr>) (contents ra_hdr) = Some (n1, sb1)" and
    f: "fill_ra (max_ra_option_size p) sb1 0 cur = Some (sb2, n, cur')" and
    s: "really_send dest p sb2 w = Some (err, w1)" and
    r: "(if err < 0 then Some (-1, w1) else if cur' = [] then Some (0, w1)
      else send_ra_loop dest p ra_hdr sb2 cur' w1) = Some (rc, w')"
    by (auto simp: send_ra_loop.simps [of dest] bind_eq_Some_conv)
  from append_Some_inv [OF used_reset(1) [OF "1.prems"(2)] a] used_reset(2)
  have sb1: "sb_inv sb1" "contents sb1 = contents ra_hdr" by auto
  then have "0 < used sb1"
    using length_contents [OF sb1(1)] length_contents [OF "1.prems"(4)] "1.prems"(5) by simp
  from fill_ra_contents [OF f sb1(1) this] obtain taken where
    t: "sb_inv sb2" "cur = taken @ cur'" "contents sb2 = contents ra_hdr @ concat (map contents taken)"
    by (auto simp: sb1(2))
  let ?ms = "filter (\<lambda>m. m \<noteq> []) (map contents taken)"
  have "contents sb2 = ra_header_image info cease @ concat ?ms" "list_all nd_opt_wf ?ms"
    using t(3) "1.prems"(3,6) by (simp_all add: concat_filter_nonempty t(2))
  then have "ra_with info cease (contents sb2)"
    unfolding ra_with_def by blast
  moreover from s obtain src where "sent w1 = sent w @ [make_packet dest p src (contents sb2)]"
    by (auto simp: really_send_def bind_eq_Some_conv sendmsg_def)
  ultimately obtain q where w1: "sent w1 = sent w @ [q]" "ra_with info cease (pkt_data q)"
    by (simp add: make_packet_def)
  show ?case
  proof (cases "err < 0 \<or> cur' = []")
    case True
    with r w1 show ?thesis by (auto split: if_splits)
  next
    case False
    with r have "send_ra_loop dest p ra_hdr sb2 cur' w1 = Some (rc, w')" by simp
    from "1.IH" [OF a refl f refl refl s refl _ _ this t(1) _ "1.prems"(4,5,6)] False "1.prems"(3) w1
    show ?thesis by (auto simp: t(2))
  qed
qed

lemma wire_config_times [simp]:
  "wire_config_ok (i\<lparr>times := t, AdvPrefixList := ps\<rparr>) = wire_config_ok i"
  "wire_config_ok (i\<lparr>times := t\<rparr>) = wire_config_ok i"
  "wire_config_ok (i\<lparr>state_info := s\<rparr>) = wire_config_ok i"
  by (simp_all add: wire_config_ok_def)

lemma send_ra_wf:
  assumes s: "send_ra iface dest w = Some (rc, iface', w')" and ok: "wire_config_ok iface"
  shows "\<exists>pkts cease. sent w' = sent w @ pkts \<and> (cease_adv (state_info iface) \<longrightarrow> cease) \<and>
    list_all (\<lambda>p. ra_with (ra_header_info iface) cease (pkt_data p)) pkts"
proof (cases "AdvSendAdvert iface")
  case False
  with s show ?thesis by (auto simp: send_ra_def)
next
  case True
  show ?thesis
  proof (rule send_ra_steps [OF s True])
    fix t ps cease w1 hdr sbl
    assume i': "iface' = iface\<lparr>times := t, AdvPrefixList := ps\<rparr>" and w1: "sent w1 = sent w"
      and c: "cease_adv (state_info iface) \<longrightarrow> cease"
      and h: "add_ra_header new_safe_buffer (ra_header_info iface) cease = Some hdr"
      and b: "build_ra_options (kern w1) iface' (ra_dest dest) = Some sbl"
      and l: "send_ra_loop (ra_dest dest) (props iface) hdr new_safe_buffer sbl w1 = Some (rc, w')"
    have hdr: "sb_inv hdr" "contents hdr = ra_header_image (ra_header_info iface) cease"
      using single_block_writes(1) [of new_safe_buffer "ra_header_info iface" cease, unfolded h]
      by (simp_all add: sb.writes_def split: if_splits)
    then have "0 < used hdr"
      using length_contents [OF hdr(1)] by simp
    have "list_all nd_opt_wf (blocks sbl)"
      using build_ra_options_keeps_wf [OF _ b] ok by (simp add: wf_blocks_def i')
    then have "list_all nd_opt_wf (filter (\<lambda>m. m \<noteq> []) (map contents sbl))"
      by (simp add: blocks_def)
    from send_ra_loop_wf [OF hdr(1) \<open>0 < used hdr\<close> hdr(2) l _ this] c show ?thesis
      by (auto simp: w1)
  qed
qed

text \<open>The router lifetime is in bytes 6 and 7; an advertisement that withdraws the router has 0.\<close>

lemma ra_with_cease_lifetime: "ra_with info True d \<Longrightarrow> take 2 (drop 6 d) = [0, 0]"
  by (auto simp: ra_with_def ra_header_image_def be_def upt_rec)

end
