(* ===== verification/Process.thy ===== *)
theory Process
  imports Ra_Send
begin

text \<open>
  Received messages, \<^verbatim>\<open>process.c\<close>: the validation of a packet, the answer to a router
  solicitation and the comparison of another router's advertisement with the configuration.
  A read outside the received bytes, and the NULL pointer of a packet without its control data,
  end the process: the result is \<open>None\<close>. What \<open>process_ra\<close> reports is the list of its log entries.
\<close>

subsection \<open>Definitions\<close>

text \<open>Reads of a received message, of which \<^verbatim>\<open>len\<close> bytes are there.\<close>

definition rd_byte :: "byte list \<Rightarrow> nat \<Rightarrow> byte option" where
  "rd_byte m i = (if i < length m then Some (m ! i) else None)"

definition rd_bytes :: "byte list \<Rightarrow> nat \<Rightarrow> nat \<Rightarrow> byte list option" where
  "rd_bytes m i n = (if i + n \<le> length m then Some (take n (drop i m)) else None)"

definition rd_u32 :: "byte list \<Rightarrow> nat \<Rightarrow> u32 option" where
  "rd_u32 m i = map_option from_be (rd_bytes m i 4)"

definition rd_addr :: "byte list \<Rightarrow> nat \<Rightarrow> in6_addr option" where
  "rd_addr m i = map_option from_be (rd_bytes m i 16)"

datatype ra_log =
    CurHopLimit_differs | ManagedFlag_differs | OtherConfigFlag_differs
  | ReachableTime_differs | RetransTimer_differs
  | Trailing_garbage | Zero_length_option | Option_too_long
  | LinkMTU_differs | ValidLifetime_differs in6_addr | PreferredLifetime_differs in6_addr
  | Invalid_option byte | Rdnss_not_ours in6_addr | Rdnss_invalid_len byte
  | Dnssl_not_ours string | Dnssl_oversized | Unknown_option byte

text \<open>The options of a solicitation; \<open>False\<close> is an early return.\<close>

function rs_options :: "in6_addr \<Rightarrow> byte list \<Rightarrow> bool option" where
  "rs_options src opt_str =
     (if opt_str = [] then Some True
      else if length opt_str < 2 then Some False
      else do {
        olen \<leftarrow> rd_byte opt_str 1;
        let optlen = unat olen * 8;
        if optlen = 0 then Some False
        else if optlen > length opt_str then Some False
        else do {
          type \<leftarrow> rd_byte opt_str 0;
          if type = ND_OPT_SOURCE_LINKADDR \<and> IN6_IS_ADDR_UNSPECIFIED src then Some False
          else rs_options src (drop optlen opt_str)
        }
      })"
  by pat_completeness auto
termination
  by (relation "measure (\<lambda>(src, opt_str). length opt_str)") auto

declare rs_options.simps [simp del]

definition ra_delay :: "nat \<Rightarrow> rat" where
  "ra_delay r = MAX_RA_DELAY_SECONDS * of_nat r / (of_nat RAND_MAX + 1)"

definition process_rs :: "Interface \<Rightarrow> byte list \<Rightarrow> in6_addr \<Rightarrow> world \<Rightarrow> (Interface \<times> world) option" where
  "process_rs iface msg src w = do {
     let rfc7772_unicast_response =
       (AdvRASolicitedUnicast iface \<and> \<not> IN6_IS_ADDR_UNSPECIFIED src);
     valid \<leftarrow> rs_options src (drop 8 msg);
     if \<not> valid then Some (iface, w)
     else do {
       let (ts, w) = clock_gettime w;
       let (r, w) = c_rand w;
       let delay = ra_delay r;
       if UnicastOnly iface \<or> rfc7772_unicast_response then do {
         (_, iface, w) \<leftarrow> send_ra_forall iface (Some src) w;
         Some (iface, w)
       }
       else if of_int (timespecdiff ts (last_multicast (times iface))) / 1000 < MinDelayBetweenRAs iface then
         (let next = MinDelayBetweenRAs iface - ts_seconds ts +
                     ts_seconds (last_multicast (times iface)) + delay
          in Some (reschedule_iface iface next w))
       else do {
         (_, iface, w) \<leftarrow> send_ra_forall iface None w;
         let (next, w) = rand_between (MinRtrAdvInterval iface) (MaxRtrAdvInterval iface) w;
         Some (reschedule_iface iface next w)
       }
     }
   }"

text \<open>The comparison of the header.\<close>

definition ra_header_logs :: "Interface \<Rightarrow> byte list \<Rightarrow> ra_log list option" where
  "ra_header_logs iface msg = do {
     let info = ra_header_info iface;
     hoplimit \<leftarrow> rd_byte msg 4;
     flags \<leftarrow> rd_byte msg 5;
     reachable \<leftarrow> rd_u32 msg 8;
     retransmit \<leftarrow> rd_u32 msg 12;
     Some (
       (if hoplimit \<noteq> 0 \<and> AdvCurHopLimit info \<noteq> 0 \<and> hoplimit \<noteq> AdvCurHopLimit info
        then [CurHopLimit_differs] else []) @
       (if flags AND ND_RA_FLAG_MANAGED \<noteq> 0 \<and> \<not> AdvManagedFlag info
        then [ManagedFlag_differs] else []) @
       (if flags AND ND_RA_FLAG_OTHER \<noteq> 0 \<and> \<not> AdvOtherConfigFlag info
        then [OtherConfigFlag_differs] else []) @
       (if reachable \<noteq> 0 \<and> AdvReachableTime info \<noteq> 0 \<and> reachable \<noteq> AdvReachableTime info
        then [ReachableTime_differs] else []) @
       (if retransmit \<noteq> 0 \<and> AdvRetransTimer info \<noteq> 0 \<and> retransmit \<noteq> AdvRetransTimer info
        then [RetransTimer_differs] else []))
   }"

definition prefix_logs :: "Interface \<Rightarrow> byte \<Rightarrow> in6_addr \<Rightarrow> u32 \<Rightarrow> u32 \<Rightarrow> ra_log list" where
  "prefix_logs iface plen addr valid preferred =
     concat (map (\<lambda>p.
       if PrefixLen p = plen \<and> addr_match (Prefix p) addr (unat (PrefixLen p)) then
         (if \<not> DecrementLifetimesFlag p \<and> valid \<noteq> AdvValidLifetime p
          then [ValidLifetime_differs (Prefix p)] else []) @
         (if \<not> DecrementLifetimesFlag p \<and> preferred \<noteq> AdvPreferredLifetime p
          then [PreferredLifetime_differs (Prefix p)] else [])
       else []) (AdvPrefixList iface))"

fun rdnss_logs :: "Interface \<Rightarrow> byte list \<Rightarrow> nat list \<Rightarrow> ra_log list option" where
  "rdnss_logs iface opt_str [] = Some []"
| "rdnss_logs iface opt_str (i # is) = do {
     addr \<leftarrow> rd_addr opt_str (8 + 16 * i);
     logs \<leftarrow> rdnss_logs iface opt_str is;
     Some (if check_rdnss_presence (AdvRDNSSList iface) addr then logs
           else Rdnss_not_ours addr # logs)
   }"

text \<open>
  The loop over the names of a search list; \<open>True\<close> is the \<^verbatim>\<open>return\<close>. The array \<^verbatim>\<open>suffix\<close> is declared in
  the body of the loop, so it is empty at the start of every turn and what a turn appends is lost.
\<close>

function dnssl_logs :: "Interface \<Rightarrow> byte list \<Rightarrow> byte \<Rightarrow> nat \<Rightarrow> (bool \<times> ra_log list) option" where
  "dnssl_logs iface opt_str nd_len offset =
     (if \<not> offset < (unat nd_len - 1) * 8 then Some (False, [])
      else do {
        let suffix = '''';
        if 8 + offset \<ge> length opt_str then Some (True, [])
        else do {
          label \<leftarrow> rd_byte opt_str (8 + offset);
          let label_len = unat label;
          let offset = Suc offset;
          if label_len = 0 then
            (if suffix = '''' then dnssl_logs iface opt_str nd_len offset
             else do {
               (ret, logs) \<leftarrow> dnssl_logs iface opt_str nd_len offset;
               Some (ret, if check_dnssl_presence (AdvDNSSLList iface) suffix then logs
                          else Dnssl_not_ours suffix # logs)
             })
          else if 256 - length suffix < label_len + 2 \<or> 8 + offset + label_len \<ge> length opt_str
          then Some (False, [Dnssl_oversized])
          else do {
            appended \<leftarrow> rd_bytes opt_str (8 + offset) label_len;
            dnssl_logs iface opt_str nd_len (offset + label_len)
          }
        }
      })"
  by pat_completeness auto
termination
  by (relation "measure (\<lambda>(iface, opt_str, nd_len, offset). (unat nd_len - 1) * 8 - offset)") auto

declare dnssl_logs.simps [simp del]

text \<open>The switch on the type of one option; \<open>opt_str\<close> are the bytes from it on. \<open>True\<close> is a \<^verbatim>\<open>return\<close>.\<close>

definition ra_option_logs :: "Interface \<Rightarrow> byte list \<Rightarrow> (bool \<times> ra_log list) option" where
  "ra_option_logs iface opt_str = do {
     type \<leftarrow> rd_byte opt_str 0;
     if type = ND_OPT_MTU then
       (if length opt_str < 8 then Some (True, [])
        else do {
          mtu \<leftarrow> rd_u32 opt_str 4;
          Some (False, if AdvLinkMTU iface \<noteq> 0 \<and> mtu \<noteq> AdvLinkMTU iface then [LinkMTU_differs] else [])
        })
     else if type = ND_OPT_PREFIX_INFORMATION then
       (if length opt_str < 32 then Some (True, [])
        else do {
          plen \<leftarrow> rd_byte opt_str 2;
          valid \<leftarrow> rd_u32 opt_str 4;
          preferred \<leftarrow> rd_u32 opt_str 8;
          addr \<leftarrow> rd_addr opt_str 16;
          Some (False, prefix_logs iface plen addr valid preferred)
        })
     else if type = ND_OPT_ROUTE_INFORMATION \<or> type = ND_OPT_SOURCE_LINKADDR then Some (False, [])
     else if type = ND_OPT_TARGET_LINKADDR \<or> type = ND_OPT_REDIRECTED_HEADER
     then Some (False, [Invalid_option type])
     else if type = ND_OPT_RTR_ADV_INTERVAL \<or> type = ND_OPT_HOME_AGENT_INFO then Some (False, [])
     else if type = ND_OPT_RDNSS_INFORMATION then
       (if length opt_str < 8 then Some (True, [])
        else do {
          nd_len \<leftarrow> rd_byte opt_str 1;
          if nd_len \<ge> 3 \<and> nd_len mod 2 = 1 then do {
            logs \<leftarrow> rdnss_logs iface opt_str [0 ..< (unat nd_len - 1) div 2];
            Some (False, logs)
          }
          else Some (False, [Rdnss_invalid_len nd_len])
        })
     else if type = ND_OPT_DNSSL_INFORMATION then
       (if length opt_str < 8 then Some (True, [])
        else do {
          nd_len \<leftarrow> rd_byte opt_str 1;
          dnssl_logs iface opt_str nd_len 0
        })
     else if type = ND_OPT_PREF64 \<or> type = ND_OPT_CAPTIVE_PORTAL then Some (False, [])
     else Some (False, [Unknown_option type])
   }"

function ra_options_logs :: "Interface \<Rightarrow> byte list \<Rightarrow> ra_log list option" where
  "ra_options_logs iface opt_str =
     (if opt_str = [] then Some []
      else if length opt_str < 2 then Some [Trailing_garbage]
      else do {
        olen \<leftarrow> rd_byte opt_str 1;
        let optlen = unat olen * 8;
        if optlen = 0 then Some [Zero_length_option]
        else if optlen > length opt_str then Some [Option_too_long]
        else do {
          (ret, logs) \<leftarrow> ra_option_logs iface opt_str;
          if ret then Some logs
          else do {
            rest \<leftarrow> ra_options_logs iface (drop optlen opt_str);
            Some (logs @ rest)
          }
        }
      })"
  by pat_completeness auto
termination
  by (relation "measure (\<lambda>(iface, opt_str). length opt_str)") auto

declare ra_options_logs.simps [simp del]

definition process_ra :: "Interface \<Rightarrow> byte list \<Rightarrow> ra_log list option" where
  "process_ra iface msg = do {
     hdr_logs \<leftarrow> ra_header_logs iface msg;
     opt_logs \<leftarrow> ra_options_logs iface (drop 16 msg);
     Some (hdr_logs @ opt_logs)
   }"

text \<open>
  The entry point. \<^verbatim>\<open>process\<close> reads the interface index of the control data before it tests whether
  there is any.
\<close>

definition process :: "Interface list \<Rightarrow> byte list \<Rightarrow> in6_addr \<Rightarrow> int option \<Rightarrow> int \<Rightarrow> world \<Rightarrow>
    (Interface list \<times> world \<times> ra_log list) option" where
  "process interfaces msg src pkt_info hoplimit w = do {
     ifindex \<leftarrow> pkt_info;
     let ignore = Some (interfaces, w, []);
     if length msg < 8 then ignore
     else do {
       type \<leftarrow> rd_byte msg 0;
       code \<leftarrow> rd_byte msg 1;
       if type \<noteq> ND_ROUTER_SOLICIT \<and> type \<noteq> ND_ROUTER_ADVERT then ignore
       else if type = ND_ROUTER_ADVERT \<and> (length msg < 16 \<or> \<not> IN6_IS_ADDR_LINKLOCAL src) then ignore
       else if type = ND_ROUTER_SOLICIT \<and> length msg < 8 then ignore
       else if code \<noteq> 0 then ignore
       else case find_iface_by_index interfaces ifindex of
         None \<Rightarrow> ignore
       | Some n \<Rightarrow> do {
           let iface = interfaces ! n;
           (rc, iface, w) \<leftarrow> (if ready (state_info iface) then Some (0, iface, w) else setup_iface iface w);
           let interfaces = interfaces[n := iface];
           if rc \<noteq> 0 then Some (interfaces, w, [])
           else if hoplimit \<noteq> 255 then Some (interfaces, w, [])
           else if type = ND_ROUTER_SOLICIT then do {
             (iface, w) \<leftarrow> process_rs iface msg src w;
             Some (interfaces[n := iface], w, [])
           }
           else do {
             logs \<leftarrow> process_ra iface msg;
             Some (interfaces, w, logs)
           }
         }
     }
   }"

subsection \<open>No read leaves the message\<close>

lemma rd_simps [simp]:
  "i < length m \<Longrightarrow> rd_byte m i = Some (m ! i)"
  "i + n \<le> length m \<Longrightarrow> rd_bytes m i n = Some (take n (drop i m))"
  "i + 4 \<le> length m \<Longrightarrow> rd_u32 m i = Some (from_be (take 4 (drop i m)))"
  "i + 16 \<le> length m \<Longrightarrow> rd_addr m i = Some (from_be (take 16 (drop i m)))"
  by (simp_all add: rd_byte_def rd_bytes_def rd_u32_def rd_addr_def)

lemma rs_options_total: "\<exists>b. rs_options src m = Some b"
proof (induction src m rule: rs_options.induct)
  case (1 src m)
  show ?case
  proof (cases "length m < 2")
    case True
    then show ?thesis by (auto simp: rs_options.simps [of src m])
  next
    case False
    then have "m \<noteq> []" "1 < length m" "0 < length m" by auto
    with 1 [of "m ! 1" "unat (m ! 1) * 8" "m ! 0"] False show ?thesis
      by (auto simp: rs_options.simps [of src m] Let_def)
  qed
qed

lemma rdnss_logs_total:
  "\<forall>i \<in> set is. 8 + 16 * i + 16 \<le> length m \<Longrightarrow> \<exists>logs. rdnss_logs iface m is = Some logs"
  by (induction "is") auto

lemma dnssl_logs_total:
  "\<exists>ret logs. dnssl_logs iface m n k = Some (ret, logs) \<and> set logs \<subseteq> {Dnssl_oversized}"
proof (induction iface m n k rule: dnssl_logs.induct)
  case (1 iface m n k)
  note step = dnssl_logs.simps [of iface m n k]
  show ?case
  proof (cases "k < (unat n - 1) * 8 \<and> 8 + k < length m")
    case False
    then show ?thesis by (auto simp: step Let_def)
  next
    case True
    then have k: "k < (unat n - 1) * 8" "\<not> length m \<le> 8 + k" "rd_byte m (8 + k) = Some (m ! (8 + k))"
      by simp_all
    let ?l = "unat (m ! (8 + k))"
    show ?thesis
    proof (cases "?l = 0")
      case True
      with k 1(1) [OF _ refl _ k(3) refl refl True refl] show ?thesis
        by (simp add: step Let_def)
    next
      case l: False
      show ?thesis
      proof (cases "256 < ?l + 2 \<or> length m \<le> 8 + Suc k + ?l")
        case True
        with k l show ?thesis by (auto simp: step Let_def)
      next
        case False
        with k l 1(3) [OF _ refl _ k(3) refl refl l] show ?thesis
          by (simp add: step Let_def)
      qed
    qed
  qed
qed

lemma ra_option_logs_total:
  assumes "2 \<le> length m" and "0 < unat (m ! 1)" and "unat (m ! 1) * 8 \<le> length m"
  shows "\<exists>ret logs. ra_option_logs iface m = Some (ret, logs)"
proof -
  have "m \<noteq> []" using assms(1) by auto
  moreover have "\<exists>logs. rdnss_logs iface m [0 ..< (unat (m ! 1) - 1) div 2] = Some logs"
    using assms(3) by (intro rdnss_logs_total) auto
  ultimately show ?thesis
    using assms dnssl_logs_total [of iface m "m ! 1" 0]
    by (auto simp: ra_option_logs_def not_less)
qed

lemma ra_options_logs_total: "\<exists>logs. ra_options_logs iface m = Some logs"
proof (induction iface m rule: ra_options_logs.induct)
  case (1 iface m)
  note step = ra_options_logs.simps [of iface m]
  show ?case
  proof (cases "length m < 2 \<or> unat (m ! 1) * 8 = 0 \<or> unat (m ! 1) * 8 > length m")
    case True
    then show ?thesis by (cases "length m < 2") (auto simp: step Let_def)
  next
    case False
    then have m: "m \<noteq> []" "\<not> length m < 2" "rd_byte m 1 = Some (m ! 1)"
      "\<not> unat (m ! 1) * 8 = 0" "\<not> unat (m ! 1) * 8 > length m"
      by auto
    from ra_option_logs_total [of m iface] m obtain ret logs where
      r: "ra_option_logs iface m = Some (ret, logs)"
      by auto
    show ?thesis
    proof (cases ret)
      case True
      with m r show ?thesis by (simp add: step Let_def)
    next
      case ret: False
      from 1 [OF m(1,2,3) refl m(4,5) r refl ret] m r ret show ?thesis
        by (auto simp: step Let_def)
    qed
  qed
qed

lemma ra_header_logs_total: "16 \<le> length msg \<Longrightarrow> \<exists>logs. ra_header_logs iface msg = Some logs"
  by (simp add: ra_header_logs_def Let_def)

lemma process_ra_safe: "16 \<le> length msg \<Longrightarrow> \<exists>logs. process_ra iface msg = Some logs"
  using ra_options_logs_total [of iface "drop 16 msg"] ra_header_logs_total [of msg iface]
  by (auto simp: process_ra_def)

text \<open>The names of a search list are never reported: they never get past the first label.\<close>

lemma ra_option_logs_dnssl:
  "ra_option_logs iface m = Some (ret, logs) \<Longrightarrow> Dnssl_not_ours s \<notin> set logs"
proof -
  have rdnss: "rdnss_logs iface m is = Some logs \<Longrightarrow> Dnssl_not_ours s \<notin> set logs" for "is" logs
    by (induction "is" arbitrary: logs) (auto simp: bind_eq_Some_conv split: if_splits)
  have prefix: "Dnssl_not_ours s \<notin> set (prefix_logs iface plen a v p)" for plen a v p
    by (auto simp: prefix_logs_def)
  have dnssl: "dnssl_logs iface m n 0 = Some (ret, logs) \<Longrightarrow> Dnssl_not_ours s \<notin> set logs" for n
    using dnssl_logs_total [of iface m n 0] by auto
  assume "ra_option_logs iface m = Some (ret, logs)"
  then show ?thesis
    by (auto simp: ra_option_logs_def bind_eq_Some_conv prefix split: if_splits dest: rdnss dnssl)
qed

lemma ra_options_logs_dnssl:
  "ra_options_logs iface m = Some logs \<Longrightarrow> Dnssl_not_ours s \<notin> set logs"
proof (induction iface m arbitrary: logs rule: ra_options_logs.induct)
  case (1 iface m)
  note step = ra_options_logs.simps [of iface m]
  show ?case
  proof (cases "length m < 2 \<or> unat (m ! 1) * 8 = 0 \<or> unat (m ! 1) * 8 > length m")
    case True
    with "1.prems" show ?thesis by (cases "length m < 2") (auto simp: step Let_def split: if_splits)
  next
    case False
    then have m: "m \<noteq> []" "\<not> length m < 2" "rd_byte m 1 = Some (m ! 1)"
      "\<not> unat (m ! 1) * 8 = 0" "\<not> unat (m ! 1) * 8 > length m"
      by auto
    from ra_option_logs_total [of m iface] m obtain ret l where
      r: "ra_option_logs iface m = Some (ret, l)"
      by auto
    show ?thesis
    proof (cases ret)
      case True
      with m r "1.prems" ra_option_logs_dnssl [OF r] show ?thesis by (simp add: step Let_def)
    next
      case ret: False
      from m r "1.prems" ret obtain l' where
        l': "ra_options_logs iface (drop (unat (m ! 1) * 8) m) = Some l'" "logs = l @ l'"
        by (auto simp: step Let_def bind_eq_Some_conv)
      from "1.IH" [OF m(1,2,3) refl m(4,5) r refl ret l'(1)] ra_option_logs_dnssl [OF r] l'(2)
      show ?thesis by simp
    qed
  qed
qed

subsection \<open>Walking over the options a router sends\<close>

text \<open>
  A walker over the options of a message. \<open>accept m p\<close> says what it makes of one well-formed option,
  whatever follows; \<open>good r ps\<close> relates its result to what it made of each option.
\<close>

locale option_walker =
  fixes walk :: "byte list \<Rightarrow> 'r option"
    and accept :: "byte list \<Rightarrow> 'p \<Rightarrow> bool"
    and good :: "'r \<Rightarrow> 'p list \<Rightarrow> bool"
  assumes walk_end: "\<exists>r. walk [] = Some r \<and> good r []"
    and walk_option: "nd_opt_wf m \<Longrightarrow> accept m p \<Longrightarrow> walk rest = Some r \<Longrightarrow> good r ps \<Longrightarrow>
      \<exists>r'. walk (m @ rest) = Some r' \<and> good r' (p # ps)"
begin

lemma walk_concat:
  "list_all2 (\<lambda>m p. nd_opt_wf m \<and> accept m p) ms ps \<Longrightarrow> \<exists>r. walk (concat ms) = Some r \<and> good r ps"
proof (induction ms ps rule: list_all2_induct)
  case Nil
  then show ?case using walk_end by simp
next
  case (Cons m ms p ps)
  then show ?case using walk_option [of m p "concat ms"] by auto
qed

end

lemma nd_opt_wf_append:
  assumes "nd_opt_wf m"
  shows "(m @ rest = []) = False" "(length (m @ rest) < 2) = False"
    "rd_byte (m @ rest) 0 = Some (m ! 0)" "rd_byte (m @ rest) 1 = Some (m ! 1)"
    "(unat (m ! 1) * 8 = 0) = False" "(unat (m ! 1) * 8 > length (m @ rest)) = False"
    "drop (unat (m ! 1) * 8) (m @ rest) = rest"
  using assms by (auto simp: nd_opt_wf_def nth_append unat_eq_0)

text \<open>The options of a solicitation: no source link-layer address with the unspecified source.\<close>

definition rs_accept :: "in6_addr \<Rightarrow> byte list \<Rightarrow> bool" where
  "rs_accept src m \<longleftrightarrow> (src = 0 \<longrightarrow> m ! 0 \<noteq> 1)"

interpretation rs_walk: option_walker "rs_options src" "\<lambda>m p. rs_accept src m" "\<lambda>b ps. b" for src
proof unfold_locales
  show "\<exists>r. rs_options src [] = Some r \<and> r"
    by (rule exI [of _ True]) (simp add: rs_options.simps)
next
  fix m rest r
  assume m: "nd_opt_wf m" "rs_accept src m" "rs_options src rest = Some r" r
  have "rs_options src (m @ rest) = rs_options src rest"
    unfolding rs_options.simps [of src "m @ rest"]
    by (simp only: nd_opt_wf_append [OF m(1)] if_False Option.bind.simps Let_def)
       (use m(2) in \<open>auto simp: rs_accept_def IN6_IS_ADDR_UNSPECIFIED_def\<close>)
  with m(3,4) show "\<exists>r'. rs_options src (m @ rest) = Some r' \<and> r'" by auto
qed

text \<open>The walk over a solicitation accepts exactly the sequences of complete options of that kind.\<close>

lemma rs_options_split:
  "rs_options src m = Some True \<Longrightarrow> \<exists>opts. m = concat opts \<and> list_all (\<lambda>opt. nd_opt_wf opt \<and> rs_accept src opt) opts"
proof (induction src m rule: rs_options.induct)
  case (1 src m)
  show ?case
  proof (cases "m = []")
    case True
    then show ?thesis by (intro exI [of _ "[]"]) simp
  next
    case False
    let ?n = "unat (m ! 1) * 8"
    have m: "2 \<le> length m" "?n \<noteq> 0" "?n \<le> length m" "\<not> (m ! 0 = ND_OPT_SOURCE_LINKADDR \<and> IN6_IS_ADDR_UNSPECIFIED src)"
      "rs_options src (drop ?n m) = Some True"
      using "1.prems" False by (auto simp: rs_options.simps [of src m] Let_def split: if_split_asm)
    from "1.IH" [OF False _ _ refl m(2) _ _ m(4,5)] m(1,3) obtain opts where
      o: "drop ?n m = concat opts" "list_all (\<lambda>opt. nd_opt_wf opt \<and> rs_accept src opt) opts"
      using False by (auto simp: rd_byte_def)
    have "8 \<le> ?n" using m(2) by simp
    then have "nd_opt_wf (take ?n m)" "rs_accept src (take ?n m)"
      using m(2,3,4) by (auto simp: nd_opt_wf_def rs_accept_def IN6_IS_ADDR_UNSPECIFIED_def)
    moreover have "m = concat (take ?n m # opts)" by (simp flip: o(1))
    ultimately show ?thesis
      using o(2) by (intro exI [of _ "take ?n m # opts"]) simp
  qed
qed

lemma rs_options_iff:
  "rs_options src m = Some True \<longleftrightarrow>
    (\<exists>opts. m = concat opts \<and> list_all (\<lambda>opt. nd_opt_wf opt \<and> rs_accept src opt) opts)"
proof
  assume "\<exists>opts. m = concat opts \<and> list_all (\<lambda>opt. nd_opt_wf opt \<and> rs_accept src opt) opts"
  then obtain opts where "m = concat opts" "list_all2 (\<lambda>opt (p :: unit). nd_opt_wf opt \<and> rs_accept src opt) opts (map (\<lambda>_. ()) opts)"
    by (auto simp: list_all2_map2 list.rel_refl_strong list_all_iff list_all2_same)
  with rs_walk.walk_concat show "rs_options src m = Some True" by fastforce
qed (rule rs_options_split)

text \<open>
  The options of an advertisement: what is reported about them. A type that the program does not know
  is only mentioned at a debug level and not counted here.
\<close>

definition reports :: "ra_log list \<Rightarrow> ra_log set \<Rightarrow> bool" where
  "reports logs R \<longleftrightarrow> set logs - range Unknown_option = R"

definition ra_accept :: "Interface \<Rightarrow> byte list \<Rightarrow> ra_log set \<Rightarrow> bool" where
  "ra_accept iface m R \<longleftrightarrow>
     (\<forall>rest. \<exists>logs. ra_option_logs iface (m @ rest) = Some (False, logs) \<and> reports logs R)"

interpretation ra_walk: option_walker "ra_options_logs iface" "ra_accept iface" "\<lambda>logs Rs. reports logs (\<Union> (set Rs))" for iface
proof unfold_locales
  show "\<exists>r. ra_options_logs iface [] = Some r \<and> reports r (\<Union> (set []))"
    by (rule exI [of _ "[]"]) (simp add: ra_options_logs.simps reports_def)
next
  fix m R rest r Rs
  assume m: "nd_opt_wf m" "ra_accept iface m R" "ra_options_logs iface rest = Some r" "reports r (\<Union> (set Rs))"
  from m(2) obtain logs where "ra_option_logs iface (m @ rest) = Some (False, logs)" "reports logs R"
    unfolding ra_accept_def by blast
  with m(3,4) show "\<exists>r'. ra_options_logs iface (m @ rest) = Some r' \<and> reports r' (\<Union> (set (R # Rs)))"
    unfolding ra_options_logs.simps [of iface "m @ rest"]
    by (simp only: nd_opt_wf_append [OF m(1)] if_False Option.bind.simps Let_def prod.case)
       (auto simp: reports_def)
qed

subsection \<open>A router hears its own advertisement\<close>

lemma accept_plain:
  assumes "m \<noteq> []" and "m ! 0 \<in> {24, 1, 7, 8, 38, 37, 34, 35}"
  shows "ra_accept iface m {}"
  unfolding ra_accept_def
proof
  fix rest
  have r: "rd_byte (m @ rest) 0 = Some (m ! 0)"
    using assms(1) by (simp add: nth_append)
  have "\<exists>logs. ra_option_logs iface (m @ rest) = Some (False, logs) \<and> (logs = [] \<or> (\<exists>t. logs = [Unknown_option t]))"
    using assms(2) unfolding ra_option_logs_def r by (elim insertE emptyE) simp_all
  then show "\<exists>logs. ra_option_logs iface (m @ rest) = Some (False, logs) \<and> reports logs {}"
    by (auto simp: reports_def)
qed

lemma rd_append:
  "i + 4 \<le> length m \<Longrightarrow> rd_u32 (m @ rest) i = Some (from_be (take 4 (drop i m)))"
  "i + 16 \<le> length m \<Longrightarrow> rd_addr (m @ rest) i = Some (from_be (take 16 (drop i m)))"
  "i < length m \<Longrightarrow> rd_byte (m @ rest) i = Some (m ! i)"
  by (simp_all add: nth_append)

lemma accept_mtu: "ra_accept iface (mtu_option_image (AdvLinkMTU iface)) {}"
proof -
  let ?m = "mtu_option_image (AdvLinkMTU iface)"
  have m: "?m ! 0 = 5" "from_be (take 4 (drop 4 ?m)) = AdvLinkMTU iface"
    by (simp_all add: mtu_option_image_def from_be_be)
  have "rd_byte (?m @ rest) 0 = Some 5" "rd_u32 (?m @ rest) 4 = Some (AdvLinkMTU iface)" for rest
    using rd_append(3) [of 0 ?m rest] rd_append(1) [of 4 ?m rest] m by simp_all
  then show ?thesis
    by (simp add: ra_accept_def ra_option_logs_def reports_def)
qed

text \<open>The lifetimes that are sent: while the router stops, a prefix to be deprecated is valid for two hours at most.\<close>

definition sent_valid :: "bool \<Rightarrow> AdvPrefix \<Rightarrow> u32" where
  "sent_valid cease q = (if cease \<and> DeprecatePrefixFlag q then min (curr_validlft q) 7200 else curr_validlft q)"

definition sent_preferred :: "bool \<Rightarrow> AdvPrefix \<Rightarrow> u32" where
  "sent_preferred cease q = (if cease \<and> DeprecatePrefixFlag q then 0 else curr_preferredlft q)"

definition same_network :: "AdvPrefix \<Rightarrow> AdvPrefix \<Rightarrow> bool" where
  "same_network p q \<longleftrightarrow> PrefixLen p = PrefixLen q \<and> same_prefix (unat (PrefixLen p)) (Prefix p) (Prefix q)"

text \<open>
  The warnings for one advertised prefix: of the configured prefixes of the same network whose lifetimes
  are constant, those that have other lifetimes.
\<close>

definition lifetime_warnings :: "Interface \<Rightarrow> bool \<Rightarrow> AdvPrefix \<Rightarrow> ra_log set" where
  "lifetime_warnings iface cease q =
     {ValidLifetime_differs (Prefix p) | p. p \<in> set (AdvPrefixList iface) \<and> same_network p q \<and>
        \<not> DecrementLifetimesFlag p \<and> sent_valid cease q \<noteq> AdvValidLifetime p} \<union>
     {PreferredLifetime_differs (Prefix p) | p. p \<in> set (AdvPrefixList iface) \<and> same_network p q \<and>
        \<not> DecrementLifetimesFlag p \<and> sent_preferred cease q \<noteq> AdvPreferredLifetime p}"

lemma prefix_logs_warnings:
  assumes "list_all (\<lambda>p. PrefixLen p \<le> 128) (AdvPrefixList iface)"
  shows "reports (prefix_logs iface (PrefixLen q) (Prefix q) (sent_valid cease q) (sent_preferred cease q))
    (lifetime_warnings iface cease q)"
proof -
  have "addr_match (Prefix p) a (unat (PrefixLen p)) = same_prefix (unat (PrefixLen p)) (Prefix p) a"
    if "p \<in> set (AdvPrefixList iface)" for p a
    using assms that by (intro addr_match_same_prefix) (auto simp: list_all_iff word_le_nat_alt)
  then show ?thesis
    by (fastforce simp: reports_def prefix_logs_def lifetime_warnings_def same_network_def split: if_split_asm)
qed

lemma accept_prefix:
  assumes "list_all (\<lambda>p. PrefixLen p \<le> 128) (AdvPrefixList iface)"
  shows "ra_accept iface (prefix_option_image q cease) (lifetime_warnings iface cease q)"
proof -
  let ?m = "prefix_option_image q cease"
  have z: "from_be [0, 0, 0, 0] = (0 :: u32)" by (simp add: from_be_def)
  have m: "?m ! 0 = 3" "?m ! 2 = PrefixLen q"
    "from_be (take 4 (drop 4 ?m)) = sent_valid cease q" "from_be (take 4 (drop 8 ?m)) = sent_preferred cease q"
    "take 16 (drop 16 ?m) = s6_addr (Prefix q)"
    by (cases "curr_validlft q < 7200";
        simp add: prefix_option_image_def sent_valid_def sent_preferred_def from_be_be min_absorb1 min_absorb2 z)+
  have rd: "rd_byte (?m @ rest) 0 = Some 3" "rd_byte (?m @ rest) 2 = Some (PrefixLen q)"
    "rd_u32 (?m @ rest) 4 = Some (sent_valid cease q)" "rd_u32 (?m @ rest) 8 = Some (sent_preferred cease q)"
    "rd_addr (?m @ rest) 16 = Some (Prefix q)" for rest
    using rd_append [of _ ?m rest] m by (simp_all add: from_be_be)
  with prefix_logs_warnings [OF assms] show ?thesis
    by (simp add: ra_accept_def ra_option_logs_def rd)
qed

lemma check_rdnss_presence_iff:
  "check_rdnss_presence rs a \<longleftrightarrow> (\<exists>r \<in> set rs. a \<in> set (AdvRDNSSAddr r))"
  by (induction rs) (auto simp: list_ex_iff)

lemma concat_s6_addr_nth:
  "i < length as \<Longrightarrow> take 16 (drop (16 * i) (concat (map s6_addr as))) = s6_addr (as ! i)"
proof (induction as arbitrary: i)
  case (Cons a as)
  then show ?case by (cases i) (simp_all add: drop_append)
qed simp

lemma rdnss_logs_quiet:
  assumes "\<forall>i \<in> set is. i < length (AdvRDNSSAddr r)" and "r \<in> set (AdvRDNSSList iface)"
  shows "rdnss_logs iface (rdnss_option_image r cease @ rest) is = Some []"
  using assms(1)
proof (induction "is")
  case (Cons i "is")
  let ?m = "rdnss_option_image r cease"
  have len: "length (rdnss_info_image r cease) = 8"
    by (simp add: rdnss_info_image_def)
  have "take 16 (drop (8 + 16 * i) ?m) = s6_addr (AdvRDNSSAddr r ! i)"
    using Cons.prems by (simp add: rdnss_option_image_def len concat_s6_addr_nth)
  then have "rd_addr (?m @ rest) (8 + 16 * i) = Some (AdvRDNSSAddr r ! i)"
    using Cons.prems rd_append(2) [of "8 + 16 * i" ?m rest] by (simp add: rdnss_bytes_def from_be_be)
  with Cons assms(2) show ?case
    by (auto simp: check_rdnss_presence_iff intro: bexI [of _ r])
qed simp

lemma accept_rdnss:
  assumes "r \<in> set (AdvRDNSSList iface)" and "AdvRDNSSAddr r \<noteq> []" and "rdnss_bytes r div 8 \<le> 255"
  shows "ra_accept iface (rdnss_option_image r cease) {}"
proof -
  let ?m = "rdnss_option_image r cease" and ?n = "length (AdvRDNSSAddr r)"
  define len :: byte where "len = word_of_nat (1 + 2 * ?n)"
  have n: "0 < ?n" "1 + 2 * ?n \<le> 255"
    using assms(2,3) by (simp_all add: rdnss_bytes_def)
  then have len: "unat len = 1 + 2 * ?n"
    unfolding len_def by (simp only: unat_of_nat) (simp add: take_bit_nat_eq_self)
  have m: "?m ! 0 = 25" "?m ! 1 = len"
    by (simp_all add: rdnss_option_image_def rdnss_info_image_def rdnss_bytes_def len_def)
  have rd: "rd_byte (?m @ rest) 0 = Some 25" "rd_byte (?m @ rest) 1 = Some len" for rest
    using rd_append(3) [of _ ?m rest] m by (simp_all add: rdnss_bytes_def)
  have odd: "3 \<le> len" "len mod 2 = 1"
    using n len by (simp_all add: word_le_nat_alt unat_mod word_unat_eq_iff Suc_le_eq)
  have "rdnss_logs iface (?m @ rest) [0 ..< (unat len - 1) div 2] = Some []" for rest
    using len by (intro rdnss_logs_quiet assms(1)) auto
  then show ?thesis
    using odd
    by (simp add: ra_accept_def ra_option_logs_def reports_def rd rdnss_bytes_def del: rd_simps One_nat_def)
qed

text \<open>Names in their wire form, and padding: what the loop over a search list passes silently.\<close>

function clean_names :: "byte list \<Rightarrow> bool" where
  "clean_names [] = True"
| "clean_names (b # bs) =
     (if b = 0 then clean_names bs
      else b \<le> 63 \<and> unat b < length bs \<and> clean_names (drop (unat b) bs))"
  by pat_completeness auto
termination
  by (relation "measure length") (auto simp: less_Suc_eq_le)

lemma clean_names_append:
  "clean_names bs \<Longrightarrow> clean_names cs \<Longrightarrow> clean_names (bs @ cs)"
  by (induction bs rule: clean_names.induct) (auto split: if_splits)

lemma clean_zeros: "clean_names (replicate n 0)"
  by (induction n) simp_all

lemma dnssl_logs_quiet:
  assumes "8 * unat n \<le> length m" and "clean_names (take (8 * unat n - (8 + k)) (drop (8 + k) m))"
  shows "dnssl_logs iface m n k = Some (False, [])"
  using assms
proof (induction iface m n k rule: dnssl_logs.induct)
  case (1 iface m n k)
  note step = dnssl_logs.simps [of iface m n k]
  show ?case
  proof (cases "k < (unat n - 1) * 8")
    case False
    then show ?thesis by (simp add: step)
  next
    case True
    let ?e = "8 * unat n - (8 + k)"
    have k: "\<not> length m \<le> 8 + k" "rd_byte m (8 + k) = Some (m ! (8 + k))" "0 < ?e"
      using True "1.prems"(1) by auto
    let ?b = "m ! (8 + k)"
    have "drop (8 + k) m = ?b # drop (8 + Suc k) m"
      using k(1) Cons_nth_drop_Suc [of "8 + k" m] by simp
    moreover have "?e = Suc (8 * unat n - (8 + Suc k))"
      using k(3) by simp
    ultimately have c: "clean_names (?b # take (8 * unat n - (8 + Suc k)) (drop (8 + Suc k) m))"
      using "1.prems"(2) by (simp only: take_Suc_Cons)
    show ?thesis
    proof (cases "unat ?b = 0")
      case b: True
      then have "clean_names (take (8 * unat n - (8 + Suc k)) (drop (8 + Suc k) m))"
        using c by (simp add: unat_eq_0)
      from "1.IH"(1) [OF _ refl k(1) k(2) refl refl b refl "1.prems"(1) this] True b k show ?thesis
        by (simp add: step Let_def)
    next
      case b: False
      then have c': "?b \<le> 63" "unat ?b < length (take (8 * unat n - (8 + Suc k)) (drop (8 + Suc k) m))"
        "clean_names (drop (unat ?b) (take (8 * unat n - (8 + Suc k)) (drop (8 + Suc k) m)))"
        using c by (simp_all add: unat_eq_0)
      have bound: "unat ?b < 8 * unat n - (8 + Suc k)"
        using c'(2) by simp
      have "8 * unat n - (8 + Suc k) - unat ?b = 8 * unat n - (8 + (Suc k + unat ?b))"
        "unat ?b + (8 + Suc k) = 8 + (Suc k + unat ?b)"
        by simp_all
      then have c'': "clean_names (take (8 * unat n - (8 + (Suc k + unat ?b))) (drop (8 + (Suc k + unat ?b)) m))"
        using c'(3) by (simp only: drop_take drop_drop)
      have "unat ?b \<le> 63"
        using c'(1) by (simp add: word_le_nat_alt)
      then have fits: "\<not> (256 - length ([] :: string) < unat ?b + 2 \<or> length m \<le> 8 + Suc k + unat ?b)"
        using bound "1.prems"(1) by simp
      then have rd: "rd_bytes m (8 + Suc k) (unat ?b) = Some (take (unat ?b) (drop (8 + Suc k) m))"
        by simp
      from "1.IH"(3) [OF _ refl k(1) k(2) refl refl b fits rd "1.prems"(1) c''] True k b fits rd
      show ?thesis
        by (simp add: step Let_def)
    qed
  qed
qed

lemma clean_wire_name:
  assumes "list_all (\<lambda>l. l \<noteq> [] \<and> length l \<le> 63) ls"
  shows "clean_names (wire_name ls)"
  using assms
proof (induction ls)
  case Nil
  then show ?case by (simp add: wire_name_def)
next
  case (Cons l ls)
  then have u: "unat (word_of_nat (length l) :: byte) = length l"
    by (simp add: unat_of_nat take_bit_nat_eq_self)
  then have "(word_of_nat (length l) :: byte) \<noteq> 0" "(word_of_nat (length l) :: byte) \<le> 63"
    using Cons.prems by (auto simp: word_le_nat_alt simp flip: unat_eq_0)
  moreover have "clean_names (wire_name ls)"
    using Cons by simp
  ultimately show ?case
    by (simp add: wire_name_def u)
qed

text \<open>Search lists whose labels have the length that DNS allows.\<close>

definition dns_names :: "AdvDNSSL \<Rightarrow> bool" where
  "dns_names d \<longleftrightarrow>
     list_all (\<lambda>s. list_all (\<lambda>l. l \<noteq> [] \<and> length l \<le> 63) (name_labels s)) (AdvDNSSLSuffixes d)"

lemma clean_domains: "dns_names d \<Longrightarrow> clean_names (dnssl_domains d)"
proof -
  have "list_all (\<lambda>s. list_all (\<lambda>l. l \<noteq> [] \<and> length l \<le> 63) (name_labels s)) ss \<Longrightarrow>
      clean_names (concat (map wire_domain ss))" for ss
    by (induction ss) (auto simp: wire_domain_def intro: clean_names_append clean_wire_name)
  then show "dns_names d \<Longrightarrow> clean_names (dnssl_domains d)"
    by (simp add: dns_names_def dnssl_domains_def)
qed

lemma accept_dnssl:
  assumes d: "dns_names d" and g: "dnssl_groups (dnssl_domains d) \<le> 255"
  shows "ra_accept iface (dnssl_option_image d cease (dnssl_domains d)) {}"
proof -
  let ?b = "dnssl_domains d"
  let ?m = "dnssl_option_image d cease ?b" and ?g = "dnssl_groups ?b"
  define n :: byte where "n = word_of_nat ?g"
  have n: "unat n = ?g"
    using g unfolding n_def by (simp add: unat_of_nat take_bit_nat_eq_self)
  have len: "length ?m = 8 * ?g" "8 + length ?b \<le> 8 * ?g"
    by (simp_all add: length_dnssl_option_image dnssl_groups_def)
  have hdr: "length (dnssl_info_image d cease ?g) = 8"
    by (simp add: dnssl_info_image_def)
  have m: "?m ! 0 = 31" "?m ! 1 = n" "drop 8 ?m = ?b @ replicate (?g * 8 - (8 + length ?b)) 0"
    by (simp_all add: dnssl_option_image_def hdr) (simp_all add: dnssl_info_image_def n_def)
  have rd: "rd_byte (?m @ rest) 0 = Some 31" "rd_byte (?m @ rest) 1 = Some n" for rest
    using rd_append(3) [of _ ?m rest] m len by simp_all
  have "clean_names (take (8 * unat n - (8 + 0)) (drop (8 + 0) (?m @ rest)))" for rest
    using clean_names_append [OF clean_domains [OF d] clean_zeros] len by (simp add: n m(3))
  then have "dnssl_logs iface (?m @ rest) n 0 = Some (False, [])" for rest
    by (intro dnssl_logs_quiet) (simp_all add: n len)
  then show ?thesis
    using len by (simp add: ra_accept_def ra_option_logs_def reports_def rd del: rd_simps One_nat_def)
qed

text \<open>The header of an own advertisement.\<close>

lemma preference_bits_and: "preference_bits p AND 0x80 = 0" "preference_bits p AND 0x40 = 0"
  by (simp_all add: preference_bits_def of_int_and_eq and.assoc)

lemma own_header_quiet:
  "ra_header_logs iface (ra_header_image (ra_header_info iface) cease @ opts) = Some []"
proof -
  let ?i = "ra_header_info iface" and ?m = "ra_header_image (ra_header_info iface) cease"
  have flags: "?m ! 5 AND ND_RA_FLAG_MANAGED = (if AdvManagedFlag ?i then ND_RA_FLAG_MANAGED else 0)"
    "?m ! 5 AND ND_RA_FLAG_OTHER = (if AdvOtherConfigFlag ?i then ND_RA_FLAG_OTHER else 0)"
    by (simp_all add: ra_header_image_def c_flag_def bit.conj_disj_distrib2 preference_bits_and)
  have m: "?m ! 4 = AdvCurHopLimit ?i" "take 4 (drop 8 ?m) = htonl (AdvReachableTime ?i)"
    "take 4 (drop 12 ?m) = htonl (AdvRetransTimer ?i)"
    by (simp_all add: ra_header_image_def)
  have "rd_byte (?m @ opts) 4 = Some (AdvCurHopLimit ?i)" "rd_byte (?m @ opts) 5 = Some (?m ! 5)"
    "rd_u32 (?m @ opts) 8 = Some (AdvReachableTime ?i)" "rd_u32 (?m @ opts) 12 = Some (AdvRetransTimer ?i)"
    using rd_append [of _ ?m opts] m by (simp_all add: from_be_be)
  then show ?thesis
    using flags by (simp add: ra_header_logs_def Let_def del: rd_simps)
qed

text \<open>
  Apart from the prefixes nothing is reported about own options, if the lists of servers are not empty and
  the names are those of DNS.
\<close>

lemma own_options_accepted:
  assumes "wire_config_ok iface" and "list_all (\<lambda>r. AdvRDNSSAddr r \<noteq> []) (AdvRDNSSList iface)"
    and "list_all dns_names (AdvDNSSLList iface)"
  shows "\<exists>opts. ra_option_images k iface =
      map (\<lambda>p. prefix_option_image (limit_prefix_lifetimes k p) (cease_adv (state_info iface)))
        (concat (map (advertised_prefixes k iface) (AdvPrefixList iface))) @ opts \<and>
    list_all (\<lambda>m. nd_opt_wf m \<and> ra_accept iface m {}) opts"
proof -
  have route: "nd_opt_wf m \<and> ra_accept iface m {}" if "r \<in> set (AdvRouteList iface)"
    "m = take (unat (route_option_len (Route_PrefixLen r)) * 8) (route_info_image r c)" for r m c
  proof -
    have wf: "nd_opt_wf m"
      using assms(1) that by (auto simp: wire_config_ok_def list_all_iff intro: route_option_wf)
    then have "m \<noteq> []" "m ! 0 = 24"
      using that(2) nd_opt_wf_bounds [of m] by (auto simp: route_info_image_def)
    with wf show ?thesis by (auto intro: accept_plain)
  qed
  have plain: "nd_opt_wf m \<Longrightarrow> m ! 0 \<in> {24, 1, 7, 8, 38, 37, 34, 35} \<Longrightarrow> nd_opt_wf m \<and> ra_accept iface m {}" for m
    using accept_plain [of m iface] nd_opt_wf_bounds [of m] by simp
  have nat64: "nd_opt_wf (nat64prefix_option_image n) \<and> ra_accept iface (nat64prefix_option_image n) {}" for n
    by (rule plain [OF fixed_options_wf(2)]) (simp add: nat64prefix_option_image_def)
  have interval: "nd_opt_wf (rtr_adv_interval_image x) \<and> ra_accept iface (rtr_adv_interval_image x) {}" for x
    by (rule plain [OF fixed_options_wf(4)]) (simp add: rtr_adv_interval_image_def)
  have home: "nd_opt_wf (home_agent_info_image x) \<and> ra_accept iface (home_agent_info_image x) {}" for x
    by (rule plain [OF fixed_options_wf(5)]) (simp add: home_agent_info_image_def)
  have lowpan: "nd_opt_wf (lowpanco_image x) \<and> ra_accept iface (lowpanco_image x) {}" for x
    by (rule plain [OF fixed_options_wf(6)]) (simp add: lowpanco_image_def)
  have abro: "nd_opt_wf (abro_image x) \<and> ra_accept iface (abro_image x) {}" for x
    by (rule plain [OF fixed_options_wf(7)]) (simp add: abro_image_def)
  have sll: "nd_opt_wf (sllao_option_image (sllao iface)) \<and> ra_accept iface (sllao_option_image (sllao iface)) {}"
    using assms(1) by (intro plain sllao_option_wf) (auto simp: wire_config_ok_def sllao_option_image_def Let_def)
  have portal: "nd_opt_wf (capport_option_image u) \<and> ra_accept iface (capport_option_image u) {}"
    if "AdvCaptivePortalAPI iface = Some u" for u
    using assms(1) that
    by (intro plain capport_option_wf) (auto simp: wire_config_ok_def capport_option_image_def Let_def)
  show ?thesis
    unfolding ra_option_images_def Let_def
    by (intro exI conjI, rule refl, unfold list_all_append)
      (use assms(2,3) route nat64 interval home lowpan abro sll portal in \<open>auto simp: list_all_iff fixed_options_wf
        accept_mtu rdnss_option_wf accept_rdnss dnssl_option_wf accept_dnssl split: list.split option.split\<close>)
qed

text \<open>The prefixes as they are advertised, with the lifetimes the kernel has left for them.\<close>

definition sent_prefixes :: "kernel \<Rightarrow> Interface \<Rightarrow> AdvPrefix list" where
  "sent_prefixes k iface =
     map (limit_prefix_lifetimes k) (concat (map (advertised_prefixes k iface) (AdvPrefixList iface)))"

lemma own_ra_reports:
  assumes w: "wire_config_ok iface" and p: "list_all (\<lambda>p. PrefixLen p \<le> 128) (AdvPrefixList iface)"
    and r: "list_all (\<lambda>r. AdvRDNSSAddr r \<noteq> []) (AdvRDNSSList iface)"
    and d: "list_all dns_names (AdvDNSSLList iface)"
  shows "\<exists>logs. process_ra iface (ra_header_image (ra_header_info iface) cease @ concat (ra_option_images k iface)) =
      Some logs \<and>
    reports logs (\<Union>q \<in> set (sent_prefixes k iface). lifetime_warnings iface (cease_adv (state_info iface)) q)"
proof -
  let ?c = "cease_adv (state_info iface)" and ?qs = "sent_prefixes k iface"
  obtain opts where o: "ra_option_images k iface = map (\<lambda>q. prefix_option_image q ?c) ?qs @ opts"
    "list_all (\<lambda>m. nd_opt_wf m \<and> ra_accept iface m {}) opts"
    using own_options_accepted [OF w r d, of k] by (auto simp: sent_prefixes_def)
  let ?R = "map (lifetime_warnings iface ?c) ?qs @ map (\<lambda>_. {}) opts"
  have "list_all2 (\<lambda>m R. nd_opt_wf m \<and> ra_accept iface m R) (map (\<lambda>q. prefix_option_image q ?c) ?qs @ opts) ?R"
    using o(2) by (intro list_all2_appendI)
      (auto simp: list_all2_map1 list_all2_map2 list_all2_same list_all_iff fixed_options_wf accept_prefix [OF p])
  from ra_walk.walk_concat [OF this] obtain logs where
    "ra_options_logs iface (concat (ra_option_images k iface)) = Some logs"
    "reports logs (\<Union> (set ?R))"
    by (auto simp: o(1))
  then show ?thesis
    by (intro exI [of _ logs]) (auto simp: process_ra_def own_header_quiet reports_def)
qed

subsection \<open>Solicitations\<close>

lemma reschedule_iface_world:
  "sent (snd (reschedule_iface iface next w)) = sent w"
  "kern (snd (reschedule_iface iface next w)) = kern w"
  by (simp_all add: reschedule_iface_def next_timespec_def clock_gettime_def case_prod_beta Let_def)

text \<open>The time between an answer by multicast and the last one, in milliseconds.\<close>

definition since_last_multicast :: "Interface \<Rightarrow> world \<Rightarrow> int" where
  "since_last_multicast iface w = timespecdiff (clock w (ticks w)) (last_multicast (times iface))"

lemma ra_delay_bounds: "r \<le> RAND_MAX \<Longrightarrow> 0 \<le> ra_delay r \<and> ra_delay r < 1 / 2"
proof -
  assume "r \<le> RAND_MAX"
  then have "(of_nat r :: rat) < of_nat RAND_MAX + 1"
    using of_nat_less_iff [where 'a = rat, of r "Suc RAND_MAX"] by simp
  then show ?thesis
    by (simp add: ra_delay_def divide_less_eq)
qed

text \<open>
  A solicitation that would be answered by multicast too early is only scheduled, for half a second at most
  after the minimal delay is over. (If the computed wait is exactly zero, \<open>reschedule_iface\<close> takes this for the
  request of its setup delay of a second.)
\<close>

lemma process_rs_limited:
  assumes valid: "rs_options src (drop 8 msg) = Some True"
    and multi: "\<not> UnicastOnly iface" "\<not> AdvRASolicitedUnicast iface \<or> IN6_IS_ADDR_UNSPECIFIED src"
    and early: "of_int (since_last_multicast iface w) / 1000 < MinDelayBetweenRAs iface"
    and i: "ready (state_info iface)" "MAX_INITIAL_RTR_ADVERTISEMENTS \<le> racount (state_info iface)"
    and w: "monotonic_clock (clock w)" "rand_in_range (rand_seq w)"
  shows "\<exists>t w'. process_rs iface msg src w = Some (iface\<lparr>times := (times iface)\<lparr>next_multicast := t\<rparr>\<rparr>, w') \<and>
    sent w' = sent w \<and> kern w' = kern w \<and>
    (let earliest = ts_seconds (last_multicast (times iface)) + MinDelayBetweenRAs iface +
           (ts_seconds (clock w (Suc (ticks w))) - ts_seconds (clock w (ticks w)))
     in earliest - 2 / 10 ^ 9 < ts_seconds t \<and> ts_seconds t < earliest + 3 / 2 + 2 / 10 ^ 9)"
proof -
  let ?w = "w\<lparr>ticks := Suc (ticks w), rands := Suc (rands w)\<rparr>"
  let ?d = "ra_delay (rand_seq w (rands w))"
  let ?next = "MinDelayBetweenRAs iface - ts_seconds (clock w (ticks w)) + ts_seconds (last_multicast (times iface)) + ?d"
  let ?wait = "reschedule_delay iface ?next"
  have wait: "?wait = (if ?next = 0 then 1 else ?next)"
    using i by (auto simp: reschedule_delay_def)
  have d: "0 \<le> ?d" "?d < 1 / 2"
    using w(2) ra_delay_bounds by (simp_all add: rand_in_range_def)
  have t: "\<bar>ts_seconds (fst (next_timespec ?wait ?w)) - (ts_seconds (clock w (Suc (ticks w))) + ?wait)\<bar> < 2 / 10 ^ 9"
    using next_timespec_near [of ?w ?wait] w(1) by (simp add: monotonic_clock_def)
  have p: "process_rs iface msg src w = Some (reschedule_iface iface ?next ?w)"
    using valid multi early
    by (auto simp: process_rs_def since_last_multicast_def clock_gettime_def c_rand_def Let_def)
  then have r: "process_rs iface msg src w =
      Some (iface\<lparr>times := (times iface)\<lparr>next_multicast := fst (next_timespec ?wait ?w)\<rparr>\<rparr>, snd (reschedule_iface iface ?next ?w))"
    by (simp add: reschedule_iface_def case_prod_beta Let_def)
  have frame: "sent (snd (reschedule_iface iface ?next ?w)) = sent w"
    "kern (snd (reschedule_iface iface ?next ?w)) = kern w"
    by (simp_all add: reschedule_iface_world)
  define wait t where "wait = ?wait" and "t = fst (next_timespec ?wait ?w)"
  have "?next \<le> wait" "wait \<le> ?next + 1"
    unfolding wait_def wait by simp_all
  moreover have "\<bar>ts_seconds t - (ts_seconds (clock w (Suc (ticks w))) + wait)\<bar> < 2 / 10 ^ 9"
    unfolding wait_def t_def by (rule t)
  ultimately have "?next - 2 / 10 ^ 9 < ts_seconds t - ts_seconds (clock w (Suc (ticks w)))"
    "ts_seconds t - ts_seconds (clock w (Suc (ticks w))) < ?next + 1 + 2 / 10 ^ 9"
    by linarith+
  with d have bounds: "let earliest = ts_seconds (last_multicast (times iface)) + MinDelayBetweenRAs iface +
      (ts_seconds (clock w (Suc (ticks w))) - ts_seconds (clock w (ticks w)))
    in earliest - 2 / 10 ^ 9 < ts_seconds t \<and> ts_seconds t < earliest + 3 / 2 + 2 / 10 ^ 9"
    unfolding Let_def by linarith
  from r [folded t_def] frame bounds show ?thesis by blast
qed

text \<open>An invalid packet changes nothing; only a valid solicitation makes the program send.\<close>

lemma process_rs_invalid:
  "rs_options src (drop 8 msg) = Some False \<Longrightarrow> process_rs iface msg src w = Some (iface, w)"
  by (simp add: process_rs_def Let_def)

lemma process_sends:
  assumes p: "process interfaces msg src pkt_info hoplimit w = Some (interfaces', w', logs)"
    and s: "sent w' \<noteq> sent w"
  shows "8 \<le> length msg \<and> msg ! 0 = ND_ROUTER_SOLICIT \<and> msg ! 1 = 0 \<and> hoplimit = 255 \<and>
    rs_options src (drop 8 msg) = Some True"
proof -
  obtain b where b: "rs_options src (drop 8 msg) = Some b"
    using rs_options_total by blast
  show ?thesis
  proof (cases "length msg < 8")
    case True
    with p s show ?thesis by (auto simp: process_def Let_def bind_eq_Some_conv)
  next
    case False
    then have "msg \<noteq> []" by auto
    with False have "rd_byte msg 0 = Some (msg ! 0)" "rd_byte msg 1 = Some (msg ! 1)" by auto
    with p s b False show ?thesis
      by (cases b)
        (auto simp: process_def Let_def bind_eq_Some_conv process_rs_invalid not_less
          dest: setup_iface_sent split: if_split_asm option.split_asm prod.split_asm)
  qed
qed

end
