(* ===== verification/Recv.thy ===== *)
theory Recv
  imports World
begin

text \<open>
  Receiving a message, \<^verbatim>\<open>recv.c\<close>. What one call of \<^verbatim>\<open>recvmsg\<close> delivers is a parameter: its return
  value, the bytes, the sender and the control messages, of which the program looks at the hop limit
  and the packet information. \<^verbatim>\<open>CMSG_LEN\<close> is 20 for an \<^verbatim>\<open>int\<close> and 36 for a \<^verbatim>\<open>struct in6_pktinfo\<close>.
\<close>

datatype cmsghdr =
    is_HOPLIMIT: Cmsg_HOPLIMIT (cmsg_len: nat) (hoplimit_data: int)
  | Cmsg_PKTINFO (cmsg_len: nat) (ipi6_ifindex: int)
  | Cmsg_other

record recvmsg_result =
  rm_len :: int
  rm_data :: "byte list"
  rm_addr :: in6_addr
  rm_cmsgs :: "cmsghdr list"

text \<open>The loop over the control messages; the flag says that it returned -1.\<close>

fun recv_cmsgs :: "cmsghdr list \<Rightarrow> int option \<Rightarrow> int \<Rightarrow> bool \<times> int option \<times> int" where
  "recv_cmsgs [] pkt_info hoplimit = (False, pkt_info, hoplimit)"
| "recv_cmsgs (Cmsg_HOPLIMIT len data # rest) pkt_info hoplimit =
     (if len = 20 \<and> data \<ge> 0 \<and> data < 256 then recv_cmsgs rest pkt_info data
      else (True, pkt_info, hoplimit))"
| "recv_cmsgs (Cmsg_PKTINFO len ifindex # rest) pkt_info hoplimit =
     (if len = 36 \<and> ifindex \<noteq> 0 then recv_cmsgs rest (Some ifindex) hoplimit
      else (True, pkt_info, hoplimit))"
| "recv_cmsgs (Cmsg_other # rest) pkt_info hoplimit = recv_cmsgs rest pkt_info hoplimit"

text \<open>The result: the returned length, and what the two output parameters hold afterwards.\<close>

definition recv_rs_ra :: "recvmsg_result \<Rightarrow> int option \<Rightarrow> int \<Rightarrow> int \<times> int option \<times> int" where
  "recv_rs_ra r pkt_info hoplimit =
     (if rm_len r < 0 then (rm_len r, pkt_info, hoplimit)
      else let (bogus, pkt_info, hoplimit) = recv_cmsgs (rm_cmsgs r) pkt_info 255
           in (if bogus then -1 else rm_len r, pkt_info, hoplimit))"

lemma recv_cmsgs_info:
  "recv_cmsgs cs p h = (False, p', h') \<Longrightarrow>
     0 \<le> h \<Longrightarrow> h < 256 \<Longrightarrow> p \<noteq> Some 0 \<Longrightarrow> 0 \<le> h' \<and> h' < 256 \<and> p' \<noteq> Some 0"
  by (induction cs p h rule: recv_cmsgs.induct) (auto split: if_split_asm)

text \<open>The hop limit handed on is the last one the kernel reported, and 255 if it reported none.\<close>

definition hoplimits :: "cmsghdr list \<Rightarrow> int list" where
  "hoplimits cs = map hoplimit_data (filter is_HOPLIMIT cs)"

lemma recv_cmsgs_hoplimit:
  "recv_cmsgs cs p h = (False, p', h') \<Longrightarrow> h' = last (h # hoplimits cs)"
  by (induction cs p h rule: recv_cmsgs.induct) (auto simp: hoplimits_def split: if_split_asm)

lemma recv_rs_ra_info:
  assumes "recv_rs_ra r None h = (len, pkt_info, hoplimit)" and "0 \<le> len"
  shows "len = rm_len r \<and> hoplimit = last (255 # hoplimits (rm_cmsgs r)) \<and>
    0 \<le> hoplimit \<and> hoplimit < 256 \<and> pkt_info \<noteq> Some 0"
  using assms recv_cmsgs_info [of "rm_cmsgs r" None 255] recv_cmsgs_hoplimit [of "rm_cmsgs r" None 255]
  by (auto simp: recv_rs_ra_def Let_def split: if_split_asm prod.split_asm)

end
