(* ===== verification/Daemon.thy ===== *)
theory Daemon
  imports Process Recv
begin

text \<open>
  The daemon, \<^verbatim>\<open>radvd.c\<close>, and the link events of \<^verbatim>\<open>netlink.c\<close>: the handlers of the main loop, its
  iteration as a function of what \<^verbatim>\<open>ppoll\<close> reports, and the runs of the process as a step relation
  in which the kernel changes and signals arrive between two iterations.
\<close>

subsection \<open>netlink.c: link and address events\<close>

datatype nlmsg =
    NLMSG_DONE
  | NLMSG_ERROR
  | RTM_NEWLINK int
  | RTM_DELLINK int
  | RTM_SETLINK int
  | RTM_NEWADDR int
  | RTM_DELADDR int
  | NLMSG_OTHER

definition touch_at :: "nat \<Rightarrow> Interface list \<Rightarrow> world \<Rightarrow> Interface list \<times> world" where
  "touch_at n ifaces w =
     (let (iface, w) = touch_iface (ifaces ! n) w in (ifaces[n := iface], w))"

definition process_link_msg :: "nlmsg \<Rightarrow> int \<Rightarrow> Interface list \<Rightarrow> world \<Rightarrow> Interface list \<times> world" where
  "process_link_msg nh ifi_index ifaces w =
     (case (if nh = RTM_NEWLINK ifi_index
            then find_iface_by_name ifaces (if_indextoname (kern w) (word_of_int ifi_index))
            else find_iface_by_index ifaces ifi_index) of
        None \<Rightarrow> (ifaces, w)
      | Some n \<Rightarrow>
          if nh = RTM_DELLINK ifi_index
          then let (_, w) = cleanup_iface (ifaces ! n) w in (ifaces, w)
          else touch_at n ifaces w)"

text \<open>
  \<^verbatim>\<open>memcmp(if_addrs, iface->props.if_addrs, count * 16)\<close> is only defined when both arrays have
  \<^verbatim>\<open>count\<close> elements; \<open>None\<close> is a read past the end of the older one.
\<close>

definition process_addr_msg :: "int \<Rightarrow> Interface list \<Rightarrow> world \<Rightarrow> (Interface list \<times> world) option" where
  "process_addr_msg ifa_index ifaces w =
     (case find_iface_by_index ifaces ifa_index of
        None \<Rightarrow> Some (ifaces, w)
      | Some n \<Rightarrow>
          let p = props (ifaces ! n);
              (count, _, addrs) = get_iface_addrs (kern w) (name p)
          in if count \<noteq> addrs_count p then Some (touch_at n ifaces w)
             else if count < 0 \<or> int (length (if_addrs p)) < count then None
             else if take (nat count) addrs \<noteq> take (nat count) (if_addrs p)
             then Some (touch_at n ifaces w)
             else Some (ifaces, w))"

text \<open>\<open>None\<close> is also the \<^verbatim>\<open>abort\<close> on an error message.\<close>

fun process_netlink_msg :: "nlmsg list \<Rightarrow> Interface list \<Rightarrow> world \<Rightarrow> (Interface list \<times> world) option" where
  "process_netlink_msg [] ifaces w = Some (ifaces, w)"
| "process_netlink_msg (nh # rest) ifaces w =
     (case nh of
        NLMSG_DONE \<Rightarrow> Some (ifaces, w)
      | NLMSG_ERROR \<Rightarrow> None
      | RTM_NEWLINK i \<Rightarrow> (let (ifaces, w) = process_link_msg nh i ifaces w
                          in process_netlink_msg rest ifaces w)
      | RTM_DELLINK i \<Rightarrow> (let (ifaces, w) = process_link_msg nh i ifaces w
                          in process_netlink_msg rest ifaces w)
      | RTM_SETLINK i \<Rightarrow> (let (ifaces, w) = process_link_msg nh i ifaces w
                          in process_netlink_msg rest ifaces w)
      | RTM_NEWADDR i \<Rightarrow> do { (ifaces, w) \<leftarrow> process_addr_msg i ifaces w;
                            process_netlink_msg rest ifaces w }
      | RTM_DELADDR i \<Rightarrow> do { (ifaces, w) \<leftarrow> process_addr_msg i ifaces w;
                            process_netlink_msg rest ifaces w }
      | NLMSG_OTHER \<Rightarrow> process_netlink_msg rest ifaces w)"

subsection \<open>radvd.c: the handlers\<close>

definition timer_handler :: iface_callback where
  "timer_handler iface w = do {
     (_, iface, w) \<leftarrow> send_ra_forall iface None w;
     let (next, w) = rand_between (MinRtrAdvInterval iface) (MaxRtrAdvInterval iface) w;
     Some (reschedule_iface iface next w)
   }"

definition config_interface :: "Interface \<Rightarrow> world \<Rightarrow> world" where
  "config_interface iface w =
     (let n = name (props iface); info = ra_header_info iface;
          w = (if AdvLinkMTU iface \<noteq> 0 then set_interface_linkmtu n (AdvLinkMTU iface) w else w);
          w = (if AdvCurHopLimit info \<noteq> 0 then set_interface_curhlim n (AdvCurHopLimit info) w else w);
          w = (if AdvReachableTime info \<noteq> 0 then set_interface_reachtime n (AdvReachableTime info) w else w);
          w = (if AdvRetransTimer info \<noteq> 0 then set_interface_retranstimer n (AdvRetransTimer info) w else w)
      in w)"

definition kickoff_adverts :: iface_callback where
  "kickoff_adverts iface w = do {
     let (now, w) = clock_gettime w;
     let iface = iface\<lparr>times := (times iface)\<lparr>last_ra_time := now\<rparr>\<rparr>;
     if UnicastOnly iface then Some (iface, w)
     else do {
       let (now, w) = clock_gettime w;
       let iface = iface\<lparr>times := (times iface)\<lparr>last_multicast := now\<rparr>\<rparr>;
       (_, iface, w) \<leftarrow> send_ra_forall iface None w;
       let next = min MAX_INITIAL_RTR_ADVERT_INTERVAL (MaxRtrAdvInterval iface);
       Some (reschedule_iface iface next w)
     }
   }"

definition stop_advert_foo :: iface_callback where
  "stop_advert_foo iface w =
     (if \<not> UnicastOnly iface \<and> RemoveAdvOnExit iface then do {
        let iface = iface\<lparr>state_info := (state_info iface)\<lparr>cease_adv := True\<rparr>\<rparr>;
        (_, iface, w) \<leftarrow> send_ra_forall iface None w;
        Some (iface, w)
      } else Some (iface, w))"

definition stop_adverts :: "Interface list \<Rightarrow> world \<Rightarrow> (Interface list \<times> world) option" where
  "stop_adverts ifaces w = for_each_iface stop_advert_foo ifaces w"

definition setup_iface_foo :: iface_callback where
  "setup_iface_foo iface w = do {
     (setup_iface_result, iface, w) \<leftarrow> setup_iface iface w;
     if setup_iface_result < 0 then
       (if IgnoreIfMissing iface then Some (iface, w) else None)
     else kickoff_adverts iface (config_interface iface w)
   }"

definition cleanup_iface_foo :: iface_callback where
  "cleanup_iface_foo iface w = (let (_, w) = cleanup_iface iface w in Some (iface, w))"

definition setup_ifaces :: "Interface list \<Rightarrow> world \<Rightarrow> (Interface list \<times> world) option" where
  "setup_ifaces ifaces w = for_each_iface setup_iface_foo ifaces w"

definition cleanup_ifaces :: "Interface list \<Rightarrow> world \<Rightarrow> (Interface list \<times> world) option" where
  "cleanup_ifaces ifaces w = for_each_iface cleanup_iface_foo ifaces w"

text \<open>\<open>conf\<close> is what \<^verbatim>\<open>readin_config\<close> makes of the configuration file, \<open>None\<close> on a failure.\<close>

definition reload_config :: "Interface list option \<Rightarrow> Interface list \<Rightarrow> world \<Rightarrow>
    (Interface list \<times> world) option" where
  "reload_config conf ifaces w = do {
     (_, w) \<leftarrow> cleanup_ifaces ifaces w;
     ifaces \<leftarrow> conf;
     if ifaces = [] then None else setup_ifaces ifaces w
   }"

subsection \<open>radvd.c: the main loop\<close>

record signals =
  sighup_received :: bool
  sigint_received :: nat
  sigterm_received :: nat
  sigusr1_received :: bool

text \<open>What \<^verbatim>\<open>ppoll\<close> reports: events on the two sockets, a timeout, or an interruption.\<close>

datatype poll_result =
    Poll_events "nlmsg list option" "recvmsg_result option"
  | Poll_timeout
  | Poll_interrupted

record daemon =
  ifaces :: "Interface list"
  sigs :: signals
  wld :: world

datatype loop_result = Continue daemon | Break daemon

text \<open>The local \<^verbatim>\<open>hoplimit\<close> is not initialised, and not read unless \<open>recv_rs_ra\<close> sets it.\<close>

definition handle_packet :: "recvmsg_result \<Rightarrow> Interface list \<Rightarrow> world \<Rightarrow> (Interface list \<times> world) option" where
  "handle_packet r ifs w =
     (let (len, pkt_info, hoplimit) = recv_rs_ra r None 0
      in if len > 0 \<and> pkt_info \<noteq> None then do {
           (ifs, w, _) \<leftarrow> process ifs (take (nat len) (rm_data r)) (rm_addr r) pkt_info hoplimit w;
           Some (ifs, w)
         } else Some (ifs, w))"

definition handle_poll :: "poll_result \<Rightarrow> nat option \<Rightarrow> Interface list \<Rightarrow> world \<Rightarrow>
    (Interface list \<times> world) option" where
  "handle_poll r next_iface_to_expire ifs w =
     (case r of
        Poll_events nl pkt \<Rightarrow> do {
          (ifs, w) \<leftarrow> (case nl of None \<Rightarrow> Some (ifs, w) | Some msgs \<Rightarrow> process_netlink_msg msgs ifs w);
          (case pkt of None \<Rightarrow> Some (ifs, w) | Some p \<Rightarrow> handle_packet p ifs w)
        }
      | Poll_timeout \<Rightarrow>
          (case next_iface_to_expire of
             None \<Rightarrow> Some (ifs, w)
           | Some n \<Rightarrow> do {
               (iface, w) \<leftarrow> timer_handler (ifs ! n) w;
               Some (ifs[n := iface], w)
             })
      | Poll_interrupted \<Rightarrow> Some (ifs, w))"

definition main_loop_iteration :: "Interface list option \<Rightarrow> poll_result \<Rightarrow> daemon \<Rightarrow> loop_result option" where
  "main_loop_iteration conf r d = do {
     let (next, w) = find_iface_by_time (ifaces d) (wld d);
     let w = (case next of None \<Rightarrow> w | Some n \<Rightarrow> snd (next_time_msec (ifaces d ! n) w));
     (ifs, w) \<leftarrow> handle_poll r next (ifaces d) w;
     let d = d\<lparr>ifaces := ifs, wld := w\<rparr>;
     if sigint_received (sigs d) > 0 then Some (Break d)
     else if sigterm_received (sigs d) > 0 then Some (Break d)
     else do {
       (ifs, w) \<leftarrow> (if sighup_received (sigs d) then reload_config conf (ifaces d) (wld d)
                    else Some (ifaces d, wld d));
       let ifs = (if sigusr1_received (sigs d) then reset_prefix_lifetimes ifs else ifs);
       Some (Continue (d\<lparr>ifaces := ifs, wld := w,
               sigs := (sigs d)\<lparr>sighup_received := False, sigusr1_received := False\<rparr>\<rparr>))
     }
   }"

text \<open>The signal handlers; the third SIGINT or SIGTERM aborts.\<close>

definition sighup_handler :: "signals \<Rightarrow> signals" where
  "sighup_handler s = s\<lparr>sighup_received := True\<rparr>"

definition sigusr1_handler :: "signals \<Rightarrow> signals" where
  "sigusr1_handler s = s\<lparr>sigusr1_received := True\<rparr>"

definition sigterm_handler :: "signals \<Rightarrow> signals option" where
  "sigterm_handler s =
     (let s = s\<lparr>sigterm_received := Suc (sigterm_received s)\<rparr>
      in if sigterm_received s > 2 then None else Some s)"

definition sigint_handler :: "signals \<Rightarrow> signals option" where
  "sigint_handler s =
     (let s = s\<lparr>sigint_received := Suc (sigint_received s)\<rparr>
      in if sigint_received s > 2 then None else Some s)"

text \<open>
  Before the loop, what \<^verbatim>\<open>main\<close> does with the interfaces: it reads the configuration, asks once
  whether forwarding is on (which only warns) and sets the interfaces up.
\<close>

definition startup :: "Interface list option \<Rightarrow> world \<Rightarrow> daemon option" where
  "startup conf w = do {
     ifs \<leftarrow> conf;
     if ifs = [] then None
     else do {
       (_, w) \<leftarrow> check_ip6_forwarding w;
       (ifs, w) \<leftarrow> setup_ifaces ifs w;
       Some \<lparr>ifaces = ifs,
         sigs = \<lparr>sighup_received = False, sigint_received = 0, sigterm_received = 0,
                 sigusr1_received = False\<rparr>,
         wld = w\<rparr>
     }
   }"

text \<open>After the loop: the final advertisements, then the multicast groups are left.\<close>

definition shutdown :: "daemon \<Rightarrow> (Interface list \<times> world) option" where
  "shutdown d = do {
     (ifs, w) \<leftarrow> stop_adverts (ifaces d) (wld d);
     cleanup_ifaces ifs w
   }"

subsection \<open>What every handler keeps\<close>

text \<open>
  The invariant of an interface: \<open>iface_inv\<close>, prefixes whose current lifetimes do not exceed the
  configured ones, a captive portal that fits an option, and, when it is ready, an array of
  addresses with one element more than the count says.
\<close>

definition prefix_config_ok :: "AdvPrefix \<Rightarrow> bool" where
  "prefix_config_ok p \<longleftrightarrow> prefix_ok p \<and> AdvPreferredLifetime p \<le> AdvValidLifetime p"

definition addrs_ok :: "Interface \<Rightarrow> bool" where
  "addrs_ok iface \<longleftrightarrow> 0 \<le> addrs_count (props iface) \<and>
     (ready (state_info iface) \<longrightarrow>
        int (length (if_addrs (props iface))) = addrs_count (props iface) + 1)"

definition portal_ok :: "Interface \<Rightarrow> bool" where
  "portal_ok iface \<longleftrightarrow> (case AdvCaptivePortalAPI iface of None \<Rightarrow> True | Some u \<Rightarrow> length u \<le> 2038)"

definition iface_ok :: "Interface \<Rightarrow> bool" where
  "iface_ok iface \<longleftrightarrow> iface_inv iface \<and> list_all prefix_config_ok (AdvPrefixList iface) \<and>
     addrs_ok iface \<and> portal_ok iface"

text \<open>The world: the kernel answers as documented, and every packet sent so far is well-formed.\<close>

definition world_ok :: "world \<Rightarrow> bool" where
  "world_ok w \<longleftrightarrow> kernel_ok (kern w) \<and> packets_wf (sent w)"

lemmas iface_ok_defs = iface_ok_def iface_inv_def addrs_ok_def portal_ok_def iface_static_def
  ready_to_send_def iface_ranges_def

lemma iface_ok_upd [simp]:
  "iface_ok (i\<lparr>times := t\<rparr>) = iface_ok i"
  "iface_ok (i\<lparr>state_info := (state_info i)\<lparr>cease_adv := b\<rparr>\<rparr>) = iface_ok i"
  "iface_ok (count_initial_ra i dest) = iface_ok i"
  by (simp_all add: iface_ok_defs count_initial_ra_def)

lemma iface_ok_wire: "iface_ok i \<Longrightarrow> ready (state_info i) \<Longrightarrow> wire_config_ok i"
  by (auto simp: iface_ok_defs wire_config_ok_def)

lemma update_prefix_times_config:
  "0 \<le> secs \<Longrightarrow> prefix_config_ok p \<Longrightarrow> prefix_config_ok (update_prefix_times c secs p)"
  using update_prefix_times_ok [of secs p c]
  by (auto simp: prefix_config_ok_def update_prefix_times_def)

lemma iface_ok_times:
  "iface_ok i \<Longrightarrow> list_all prefix_config_ok ps \<Longrightarrow> iface_ok (i\<lparr>times := t, AdvPrefixList := ps\<rparr>)"
  by (simp add: iface_ok_def iface_inv_def ready_to_send_def ranges_times addrs_ok_def portal_ok_def)

lemma update_iface_times_ok:
  assumes "iface_ok iface"
  shows "iface_ok (fst (update_iface_times iface w))"
proof -
  obtain t ps where u: "fst (update_iface_times iface w) = iface\<lparr>times := t, AdvPrefixList := ps\<rparr>"
    using update_iface_times_frame [of iface w] by auto
  have "list_all prefix_config_ok (AdvPrefixList (fst (update_iface_times iface w)))"
    using assms
    by (auto simp: iface_ok_def list_all_iff update_iface_times_def clock_gettime_def Let_def
        intro!: update_prefix_times_config)
  with assms show ?thesis
    unfolding u by (simp add: iface_ok_times)
qed

lemma reset_prefix_lifetimes_foo_ok:
  "iface_ok iface \<Longrightarrow> iface_ok (reset_prefix_lifetimes_foo iface)"
  by (auto simp: reset_prefix_lifetimes_foo_def reset_prefix_lifetime_def iface_ok_defs list_all_iff
      prefix_config_ok_def prefix_ok_def)

lemma reschedule_iface_ok [simp]:
  "iface_ok (fst (reschedule_iface iface next w)) = iface_ok iface"
  "world_ok (snd (reschedule_iface iface next w)) = world_ok w"
  by (simp_all add: reschedule_iface_def world_ok_def next_timespec_def clock_gettime_def
      case_prod_beta Let_def)

lemma touch_iface_ok:
  "iface_ok iface \<Longrightarrow> iface_ok (fst (touch_iface iface w))"
  "world_ok (snd (touch_iface iface w)) = world_ok w"
  by (simp_all add: touch_iface_def) (simp add: iface_ok_defs)

lemma setup_iface_ok:
  assumes s: "setup_iface iface w = Some (rc, iface', w')" and i: "iface_ok iface" and w: "world_ok w"
  shows "iface_ok iface' \<and> world_ok w' \<and> (ready (state_info iface') \<longleftrightarrow> rc = 0)"
proof -
  note k = w [unfolded world_ok_def, THEN conjunct1]
  have st: "iface_static iface"
    using i by (simp add: iface_ok_def iface_inv_def)
  note result = setup_iface_result [OF s k st]
  have "iface_inv iface'"
    using setup_iface_inv [OF s k] i by (simp add: iface_ok_def)
  moreover have "addrs_ok iface' \<and> portal_ok iface'"
    using result i by (simp add: iface_ok_def addrs_ok_def portal_ok_def)
  moreover have "world_ok w'"
    using w setup_iface_sent [OF s] by (simp add: world_ok_def)
  ultimately show ?thesis
    using result i by (auto simp: iface_ok_def)
qed

lemma send_ra_ok:
  assumes s: "send_ra iface dest w = Some (rc, iface', w')" and i: "iface_ok iface"
    and rdy: "ready (state_info iface)" and w: "world_ok w"
  shows "iface_ok iface' \<and> ready (state_info iface') \<and> world_ok w'"
proof -
  have "iface_ok iface'"
  proof (cases "AdvSendAdvert iface")
    case False
    with s i show ?thesis by (simp add: send_ra_def)
  next
    case True
    show ?thesis
      by (rule send_ra_steps [OF s True]) (metis i iface_ok_upd(1) update_iface_times_ok)
  qed
  moreover have "world_ok w'"
    using send_ra_wf [OF s iface_ok_wire [OF i rdy]] send_ra_sent [OF s] w
    by (fastforce simp: world_ok_def packets_wf_def ra_packet_wf_def list_all_iff)
  moreover have "state_info iface' = state_info iface"
    using send_ra_sent [OF s] by (auto dest: same_but_times_fields)
  ultimately show ?thesis
    using rdy by simp
qed

lemma send_ra_clients_ok:
  "send_ra_clients dest cs iface w = Some (b, iface', w') \<Longrightarrow> iface_ok iface \<Longrightarrow>
     ready (state_info iface) \<Longrightarrow> world_ok w \<Longrightarrow>
     iface_ok iface' \<and> ready (state_info iface') \<and> world_ok w'"
proof (induction dest cs iface w rule: send_ra_clients.induct)
  case (1 dest iface w)
  then show ?case by simp
next
  case (2 dest c cs iface w)
  show ?case
  proof (cases "dest \<noteq> None \<and> dest \<noteq> Some (Address c) \<or> ignored c")
    case True
    with 2 show ?thesis by (auto split: if_split_asm)
  next
    case False
    with "2.prems"(1) obtain rc i1 w1 where
      1: "send_ra iface (Some (Address c)) w = Some (rc, i1, w1)"
        "(if dest \<noteq> None then Some (True, i1, w1) else send_ra_clients dest cs i1 w1) = Some (b, iface', w')"
      by (auto simp: bind_eq_Some_conv)
    from send_ra_ok [OF 1(1) "2.prems"(2-4)] "2.IH"(3) [OF _ _ 1(1) refl refl] 1(2) False show ?thesis
      by (auto split: if_split_asm)
  qed
qed

lemma send_ra_forall_ok:
  assumes s: "send_ra_forall iface dest w = Some (rc, iface', w')" and i: "iface_ok iface" and w: "world_ok w"
  shows "iface_ok iface' \<and> world_ok w'"
proof -
  from s obtain e i1 w1 where
    e: "ensure_iface_setup iface w = Some (e, i1, w1)" and
    c: "(if e < 0 then Some (-1, i1, w1) else send_ra_to_clients (count_initial_ra i1 dest) dest w1) =
      Some (rc, iface', w')"
    by (auto simp: send_ra_forall_def bind_eq_Some_conv)
  have 1: "iface_ok i1 \<and> world_ok w1"
    using e i w by (auto simp: ensure_iface_setup_def bind_eq_Some_conv split: if_split_asm
        dest: setup_iface_ok)
  show ?thesis
  proof (cases "e < 0")
    case True
    with c 1 show ?thesis by simp
  next
    case False
    with ensure_iface_setup_result(3) [OF e] have "ready (state_info i1)" by simp
    with c False 1 show ?thesis
      by (auto simp: send_ra_to_clients_def bind_eq_Some_conv split: if_split_asm
          dest!: send_ra_ok send_ra_clients_ok)
  qed
qed

lemma world_ok_upd [simp]:
  "world_ok (w\<lparr>ticks := n\<rparr>) = world_ok w" "world_ok (w\<lparr>rands := n\<rparr>) = world_ok w"
  "world_ok (w\<lparr>privsep_out := c\<rparr>) = world_ok w" "world_ok (w\<lparr>group_ops := g\<rparr>) = world_ok w"
  by (simp_all add: world_ok_def)

lemma config_interface_ok [simp]: "world_ok (config_interface iface w) = world_ok w"
  by (simp add: config_interface_def set_interface_defs Let_def)

text \<open>Sending and rescheduling, as \<open>timer_handler\<close> and the answer to a solicitation do it.\<close>

lemma send_and_reschedule_ok:
  assumes "do {
      (rc, iface, w) \<leftarrow> send_ra_forall iface dest w;
      let (next, w) = rand_between (lo iface) (hi iface) w;
      Some (reschedule_iface iface next w)
    } = Some (iface', w')" and "iface_ok iface" and "world_ok w"
  shows "iface_ok iface' \<and> world_ok w'"
proof -
  from assms(1) obtain rc i1 w1 where 1: "send_ra_forall iface dest w = Some (rc, i1, w1)"
    and r: "(iface', w') = reschedule_iface i1 (fst (rand_between (lo i1) (hi i1) w1))
      (snd (rand_between (lo i1) (hi i1) w1))"
    by (auto simp: bind_eq_Some_conv case_prod_beta Let_def)
  have "iface_ok i1 \<and> world_ok w1"
    by (rule send_ra_forall_ok [OF 1 assms(2,3)])
  moreover have "world_ok (snd (rand_between (lo i1) (hi i1) w1)) = world_ok w1"
    by (simp add: rand_between_def c_rand_def Let_def)
  moreover note arg_cong [OF r, of fst] arg_cong [OF r, of snd]
  ultimately show ?thesis
    by simp
qed

lemma timer_handler_ok:
  "timer_handler iface w = Some (iface', w') \<Longrightarrow> iface_ok iface \<Longrightarrow> world_ok w \<Longrightarrow>
     iface_ok iface' \<and> world_ok w'"
  unfolding timer_handler_def by (rule send_and_reschedule_ok)

lemma process_rs_ok:
  assumes p: "process_rs iface msg src w = Some (iface', w')" and i: "iface_ok iface" and w: "world_ok w"
  shows "iface_ok iface' \<and> world_ok w'"
proof -
  obtain b where b: "rs_options src (drop 8 msg) = Some b"
    using rs_options_total by blast
  let ?w = "w\<lparr>ticks := Suc (ticks w), rands := Suc (rands w)\<rparr>"
  let ?far = "\<not> of_int (timespecdiff (clock w (ticks w)) (last_multicast (times iface))) / 1000
      < MinDelayBetweenRAs iface"
  show ?thesis
  proof (cases "b \<and> \<not> (UnicastOnly iface \<or> AdvRASolicitedUnicast iface \<and> \<not> IN6_IS_ADDR_UNSPECIFIED src) \<and> ?far")
    case True
    with p b have "do {
        (rc, iface, w) \<leftarrow> send_ra_forall iface None ?w;
        let (next, w) = rand_between (MinRtrAdvInterval iface) (MaxRtrAdvInterval iface) w;
        Some (reschedule_iface iface next w)
      } = Some (iface', w')"
      by (auto simp: process_rs_def clock_gettime_def c_rand_def Let_def)
    from send_and_reschedule_ok [OF this i] w show ?thesis by simp
  next
    case False
    with p b i w show ?thesis
      by (auto simp: process_rs_def clock_gettime_def c_rand_def Let_def bind_eq_Some_conv prod_eq_iff
          split: if_split_asm dest!: send_ra_forall_ok)
  qed
qed

subsection \<open>The callbacks of for\_each\_iface\<close>

lemma kickoff_adverts_ok:
  "kickoff_adverts iface w = Some (iface', w') \<Longrightarrow> iface_ok iface \<Longrightarrow> world_ok w \<Longrightarrow>
     iface_ok iface' \<and> world_ok w'"
  by (auto simp: kickoff_adverts_def clock_gettime_def Let_def bind_eq_Some_conv prod_eq_iff
      split: if_split_asm dest!: send_ra_forall_ok)

interpretation stop_walk: iface_walk stop_advert_foo iface_ok world_ok
  by unfold_locales
     (auto simp: stop_advert_foo_def Let_def bind_eq_Some_conv split: if_split_asm
       dest!: send_ra_forall_ok)

interpretation setup_walk: iface_walk setup_iface_foo iface_ok world_ok
  by unfold_locales
     (auto simp: setup_iface_foo_def bind_eq_Some_conv split: if_split_asm
       dest!: setup_iface_ok kickoff_adverts_ok)

lemma reschedule_iface_warned [simp]: "warned (snd (reschedule_iface iface next w)) = warned w"
  by (simp add: reschedule_iface_def next_timespec_def case_prod_beta Let_def)

lemma config_interface_warned [simp]: "warned (config_interface iface w) = warned w"
  by (simp add: config_interface_def set_interface_defs Let_def)

lemma kickoff_adverts_warned:
  assumes "kickoff_adverts iface w = Some (iface', w')" and "warned w"
  shows "warned w'"
proof (cases "UnicastOnly iface")
  case True
  with assms show ?thesis by (auto simp: kickoff_adverts_def clock_gettime_def Let_def)
next
  case False
  let ?w = "w\<lparr>ticks := Suc (Suc (ticks w))\<rparr>"
  from assms(1) False obtain i rc i1 w1 n where "send_ra_forall i None ?w = Some (rc, i1, w1)"
    "w' = snd (reschedule_iface i1 n w1)"
    by (fastforce simp: kickoff_adverts_def clock_gettime_def Let_def bind_eq_Some_conv prod_eq_iff)
  with send_ra_forall_warned [of i None ?w rc i1 w1] assms(2) show ?thesis by simp
qed

interpretation setup_warned: iface_walk setup_iface_foo "\<lambda>_. True" warned
proof unfold_locales
  fix i w i' w'
  assume w: "warned w" and s: "setup_iface_foo i w = Some (i', w')"
  from s obtain rc i1 w1 where 1: "setup_iface i w = Some (rc, i1, w1)"
    "(if rc < 0 then (if IgnoreIfMissing i1 then Some (i1, w1) else None)
      else kickoff_adverts i1 (config_interface i1 w1)) = Some (i', w')"
    by (auto simp: setup_iface_foo_def bind_eq_Some_conv)
  have "warned w1" using setup_iface_warned [OF 1(1)] w by simp
  with 1(2) kickoff_adverts_warned [of i1 "config_interface i1 w1"] show "True \<and> warned w'"
    by (auto split: if_split_asm)
qed

text \<open>A daemon that starts while forwarding is off has used up its one report.\<close>

lemma startup_warned:
  assumes "startup conf w = Some d" and "proc_forwarding (kern w) \<notin> {Proc_value 1, Proc_value 2}"
  shows "warned (wld d)"
proof -
  from assms obtain ifs r w1 ifs' w2 where "check_ip6_forwarding w = Some (r, w1)"
    "setup_ifaces ifs w1 = Some (ifs', w2)" "wld d = w2"
    by (auto simp: startup_def bind_eq_Some_conv split: if_split_asm)
  moreover from this assms(2) have "warned w1"
    by (cases "proc_forwarding (kern w)") (auto simp: check_ip6_forwarding_def split: if_split_asm)
  ultimately show ?thesis
    using setup_warned.for_each_keeps [of ifs w1 ifs' w2] by (simp add: setup_ifaces_def list_all_iff)
qed

text \<open>Leaving the groups always comes back; any property of the interfaces survives it.\<close>

interpretation cleanup_walk: iface_walk_total cleanup_iface_foo iface_ok world_ok
  by unfold_locales
     (auto simp: cleanup_iface_foo_def cleanup_iface_def cleanup_allrouters_membership_def)

lemma cleanup_ifaces_returns: "\<exists>w'. cleanup_ifaces ifs w = Some (ifs, w')"
proof (induction ifs arbitrary: w)
  case (Cons i ifs)
  show ?case
    using Cons [of "snd (cleanup_iface i w)"]
    by (auto simp: cleanup_ifaces_def cleanup_iface_foo_def case_prod_beta Let_def)
qed (simp add: cleanup_ifaces_def)

lemma cleanup_ifaces_sent: "cleanup_ifaces ifs w = Some (ifs', w') \<Longrightarrow> sent w' = sent w"
proof (induction ifs arbitrary: w ifs')
  case (Cons i ifs)
  then show ?case
    by (auto simp: cleanup_ifaces_def cleanup_iface_foo_def cleanup_iface_def
        cleanup_allrouters_membership_def bind_eq_Some_conv)
qed (simp add: cleanup_ifaces_def)

lemma cleanup_ifaces_ok:
  assumes "cleanup_ifaces ifs w = Some (ifs', w')" and "world_ok w"
  shows "world_ok w'"
  using assms
proof (induction ifs arbitrary: w ifs')
  case (Cons i ifs)
  then show ?case
    by (auto simp: cleanup_ifaces_def cleanup_iface_foo_def cleanup_iface_def
        cleanup_allrouters_membership_def bind_eq_Some_conv)
qed (simp add: cleanup_ifaces_def)

lemma reload_config_ok:
  assumes r: "reload_config conf old w = Some (ifs', w')" and w: "world_ok w"
    and conf: "\<And>ifs. conf = Some ifs \<Longrightarrow> list_all iface_ok ifs"
  shows "list_all iface_ok ifs' \<and> world_ok w' \<and> ifs' \<noteq> []"
proof -
  from r obtain x w1 ifs where
    1: "cleanup_ifaces old w = Some (x, w1)" "conf = Some ifs" "ifs \<noteq> []"
      "setup_ifaces ifs w1 = Some (ifs', w')"
    by (auto simp: reload_config_def bind_eq_Some_conv split: if_split_asm)
  from setup_walk.for_each_keeps [OF conf [OF 1(2)] cleanup_ifaces_ok [OF 1(1) w]
      1(4) [unfolded setup_ifaces_def]] 1(3)
  show ?thesis by auto
qed

lemma startup_ok:
  assumes s: "startup conf w = Some d" and w: "world_ok w"
    and conf: "\<And>ifs. conf = Some ifs \<Longrightarrow> list_all iface_ok ifs"
  shows "list_all iface_ok (ifaces d) \<and> world_ok (wld d)"
proof -
  from s obtain ifs rc w1 ifs' w' where
    1: "conf = Some ifs" "check_ip6_forwarding w = Some (rc, w1)" "setup_ifaces ifs w1 = Some (ifs', w')"
      "ifaces d = ifs'" "wld d = w'"
    by (auto simp: startup_def bind_eq_Some_conv split: if_split_asm)
  have "world_ok w1"
    using 1(2) w by (auto simp: check_ip6_forwarding_def bind_eq_Some_conv world_ok_def split: if_split_asm)
  from setup_walk.for_each_keeps [OF conf [OF 1(1)] this 1(3) [unfolded setup_ifaces_def]] 1(4,5)
  show ?thesis by auto
qed

subsection \<open>Packets and link events\<close>

lemma list_all_update: "list_all P xs \<Longrightarrow> P x \<Longrightarrow> list_all P (xs[n := x])"
  unfolding list_all_iff by (auto dest: set_update_subset_insert [THEN subsetD])

lemma find_index_nth: "find_index P xs = Some n \<Longrightarrow> list_all Q xs \<Longrightarrow> Q (xs ! n)"
  by (auto dest: find_index_Some simp: list_all_length)

text \<open>What \<open>process\<close> does: nothing, or it works on one interface, set up first if it is not ready.\<close>

lemma process_cases:
  assumes p: "process ifs msg src pkt hop w = Some (ifs', w', logs)"
  obtains (ignored) "ifs' = ifs" "w' = w"
  | (handled) idx n i1 w1 where "find_iface_by_index ifs idx = Some n"
      "i1 = ifs ! n \<and> w1 = w \<or> (\<exists>rc. setup_iface (ifs ! n) w = Some (rc, i1, w1))"
      "ifs' = ifs[n := i1] \<and> w' = w1 \<or>
       (\<exists>i2. process_rs i1 msg src w1 = Some (i2, w') \<and> ifs' = ifs[n := i2])"
proof (cases "length msg < 8")
  case True
  with p ignored show ?thesis by (auto simp: process_def bind_eq_Some_conv)
next
  case False
  then have "msg \<noteq> []" by auto
  with False have rd: "rd_byte msg 0 = Some (msg ! 0)" "rd_byte msg 1 = Some (msg ! 1)" by auto
  from p obtain idx where idx: "pkt = Some idx" by (auto simp: process_def bind_eq_Some_conv)
  show ?thesis
  proof (cases "find_iface_by_index ifs idx")
    case None
    with p rd idx False ignored show ?thesis
      by (simp add: process_def Let_def del: One_nat_def split: if_split_asm)
  next
    case (Some n)
    show ?thesis
    proof (cases "ifs' = ifs \<and> w' = w")
      case True
      with ignored show ?thesis by simp
    next
      case changed: False
      with p rd idx False Some obtain rc i1 w1 where
        s: "(if ready (state_info (ifs ! n)) then Some (0, ifs ! n, w) else setup_iface (ifs ! n) w) =
          Some (rc, i1, w1)" and
        r: "(if rc \<noteq> 0 then Some (ifs[n := i1], w1, []) else if hop \<noteq> 255 then Some (ifs[n := i1], w1, [])
          else if msg ! 0 = ND_ROUTER_SOLICIT
          then process_rs i1 msg src w1 \<bind> (\<lambda>(iface, w). Some (ifs[n := i1, n := iface], w, []))
          else process_ra i1 msg \<bind> (\<lambda>logs. Some (ifs[n := i1], w1, logs))) = Some (ifs', w', logs)"
        by (simp add: process_def Let_def del: One_nat_def split: if_split_asm)
           (auto simp: bind_eq_Some_conv simp del: One_nat_def)
      show ?thesis
      proof (rule handled [OF Some])
        show "i1 = ifs ! n \<and> w1 = w \<or> (\<exists>rc. setup_iface (ifs ! n) w = Some (rc, i1, w1))"
          using s by (auto split: if_split_asm)
        show "ifs' = ifs[n := i1] \<and> w' = w1 \<or>
            (\<exists>i2. process_rs i1 msg src w1 = Some (i2, w') \<and> ifs' = ifs[n := i2])"
          using r by (auto simp: bind_eq_Some_conv split: if_split_asm)
      qed
    qed
  qed
qed

lemma process_ok:
  assumes p: "process ifs msg src pkt hop w = Some (ifs', w', logs)"
    and i: "list_all iface_ok ifs" and w: "world_ok w"
  shows "list_all iface_ok ifs' \<and> world_ok w'"
  using p
proof (cases rule: process_cases)
  case ignored
  with i w show ?thesis by simp
next
  case (handled idx n i1 w1)
  have "iface_ok (ifs ! n)"
    using handled(1) i by (auto simp: find_iface_by_index_def intro: find_index_nth)
  with handled(2) w have 1: "iface_ok i1 \<and> world_ok w1"
    by (auto dest: setup_iface_ok)
  with handled(3) i show ?thesis
    by (auto dest: process_rs_ok intro!: list_all_update)
qed

lemma touch_at_ok:
  assumes "list_all iface_ok ifs" and "iface_ok (ifs ! n)"
  shows "list_all iface_ok (fst (touch_at n ifs w))"
  using assms touch_iface_ok [of "ifs ! n" w]
  by (auto simp: touch_at_def case_prod_beta Let_def intro!: list_all_update)

lemma touch_at_world: "world_ok (snd (touch_at n ifs w)) = world_ok w"
  using touch_iface_ok [of "ifs ! n" w] by (simp add: touch_at_def case_prod_beta Let_def)

lemma find_by_name_nth: "find_iface_by_name ifs nam = Some n \<Longrightarrow> list_all Q ifs \<Longrightarrow> Q (ifs ! n)"
  by (auto simp: find_iface_by_name_def split: option.split_asm intro: find_index_nth)

lemma find_by_index_nth: "find_iface_by_index ifs idx = Some n \<Longrightarrow> list_all Q ifs \<Longrightarrow> Q (ifs ! n)"
  by (auto simp: find_iface_by_index_def intro: find_index_nth)

lemma process_link_msg_ok:
  assumes "list_all iface_ok ifs" and "world_ok w"
  shows "list_all iface_ok (fst (process_link_msg nh idx ifs w)) \<and>
    world_ok (snd (process_link_msg nh idx ifs w))"
  using assms
  by (auto simp: process_link_msg_def cleanup_iface_def cleanup_allrouters_membership_def touch_at_world
      split: option.split intro: touch_at_ok find_by_name_nth find_by_index_nth)

lemma process_addr_msg_ok:
  assumes "process_addr_msg idx ifs w = Some (ifs', w')" and "list_all iface_ok ifs" and "world_ok w"
  shows "list_all iface_ok ifs' \<and> world_ok w'"
proof -
  from assms(1) consider "ifs' = ifs" "w' = w"
    | n where "find_iface_by_index ifs idx = Some n" "(ifs', w') = touch_at n ifs w"
    by (auto simp: process_addr_msg_def Let_def case_prod_beta split: option.split_asm if_split_asm)
  then show ?thesis
  proof cases
    case (2 n)
    have "iface_ok (ifs ! n)"
      by (rule find_by_index_nth [OF 2(1) assms(2)])
    with arg_cong [OF 2(2), of fst] arg_cong [OF 2(2), of snd] assms(2,3) show ?thesis
      using touch_at_ok [of ifs n w] touch_at_world [of n ifs w] by simp
  qed (use assms in simp)
qed

lemma process_netlink_msg_ok:
  "process_netlink_msg msgs ifs w = Some (ifs', w') \<Longrightarrow> list_all iface_ok ifs \<Longrightarrow> world_ok w \<Longrightarrow>
     list_all iface_ok ifs' \<and> world_ok w'"
proof (induction msgs arbitrary: ifs w)
  case (Cons nh msgs)
  show ?case
    using Cons.prems Cons.IH process_link_msg_ok [OF Cons.prems(2,3)]
    by (cases nh) (auto simp: case_prod_beta Let_def bind_eq_Some_conv dest: process_addr_msg_ok)
qed simp

subsection \<open>Configuring the interface through the helper\<close>

text \<open>The commands of one interface, and the files they set when all of them can be opened.\<close>

definition config_commands :: "Interface \<Rightarrow> privsep_command list" where
  "config_commands iface =
     (let n = take 15 (name (props iface)); info = ra_header_info iface
      in (if AdvLinkMTU iface \<noteq> 0 then [\<lparr>cmd_type = SET_INTERFACE_LINKMTU, cmd_iface = n, cmd_val = AdvLinkMTU iface\<rparr>] else []) @
         (if AdvCurHopLimit info \<noteq> 0 then [\<lparr>cmd_type = SET_INTERFACE_CURHLIM, cmd_iface = n, cmd_val = ucast (AdvCurHopLimit info)\<rparr>] else []) @
         (if AdvReachableTime info \<noteq> 0 then [\<lparr>cmd_type = SET_INTERFACE_REACHTIME, cmd_iface = n, cmd_val = AdvReachableTime info\<rparr>] else []) @
         (if AdvRetransTimer info \<noteq> 0 then [\<lparr>cmd_type = SET_INTERFACE_RETRANSTIMER, cmd_iface = n, cmd_val = AdvRetransTimer info\<rparr>] else []))"

definition in_bounds :: "u32 \<Rightarrow> u32 \<Rightarrow> u32 \<Rightarrow> bool" where
  "in_bounds lo hi v \<longleftrightarrow> lo \<le> v \<and> v \<le> hi"

definition config_writes :: "Interface \<Rightarrow> (string \<times> u32) list" where
  "config_writes iface =
     (let n = name (props iface); info = ra_header_info iface
      in (if in_bounds 1280 131072 (AdvLinkMTU iface) then [(strdupf PROC_SYS_IP6_LINKMTU n, AdvLinkMTU iface)] else []) @
         (if in_bounds 2 255 (ucast (AdvCurHopLimit info)) then [(strdupf PROC_SYS_IP6_CURHLIM n, ucast (AdvCurHopLimit info))] else []) @
         (if in_bounds 100 3600000 (AdvReachableTime info)
          then [(strdupf PROC_SYS_IP6_BASEREACHTIME_MS n, AdvReachableTime info)] else []) @
         (if in_bounds 10 3600000 (AdvRetransTimer info)
          then [(strdupf PROC_SYS_IP6_RETRANSTIMER_MS n, AdvRetransTimer info)] else []))"

lemma config_interface_commands:
  "config_interface iface w = w\<lparr>privsep_out := privsep_out w @ config_commands iface\<rparr>"
  by (simp add: config_interface_def config_commands_def set_interface_defs Let_def)

lemma set_interface_var_writable:
  assumes "plain_name iface" and "\<forall>path. open_file fs path = Writable"
  shows "set_interface_var iface var val fs = (0, fs\<lparr>written := written fs @ [(strdupf var iface, val)]\<rparr>)"
  using assms by (auto simp: set_interface_var_def plain_name_def Let_def)

lemma run_command_writable:
  assumes "plain_name n" and "\<forall>path. open_file fs path = Writable"
  shows
    "run_command \<lparr>cmd_type = SET_INTERFACE_LINKMTU, cmd_iface = n, cmd_val = v\<rparr> fs =
       (if in_bounds 1280 131072 v then fs\<lparr>written := written fs @ [(strdupf PROC_SYS_IP6_LINKMTU n, v)]\<rparr> else fs)"
    "run_command \<lparr>cmd_type = SET_INTERFACE_CURHLIM, cmd_iface = n, cmd_val = v\<rparr> fs =
       (if in_bounds 2 255 v then fs\<lparr>written := written fs @ [(strdupf PROC_SYS_IP6_CURHLIM n, v)]\<rparr> else fs)"
    "run_command \<lparr>cmd_type = SET_INTERFACE_REACHTIME, cmd_iface = n, cmd_val = v\<rparr> fs =
       (if in_bounds 100 3600000 v then fs\<lparr>written := written fs @ [(strdupf PROC_SYS_IP6_BASEREACHTIME_MS n, v)]\<rparr> else fs)"
    "run_command \<lparr>cmd_type = SET_INTERFACE_RETRANSTIMER, cmd_iface = n, cmd_val = v\<rparr> fs =
       (if in_bounds 10 3600000 v then fs\<lparr>written := written fs @ [(strdupf PROC_SYS_IP6_RETRANSTIMER_MS n, v)]\<rparr> else fs)"
  by (auto simp: run_command_def privsep_command_run_def in_bounds_def not_less
      set_interface_var_writable [OF assms] simp del: One_nat_def)

lemma config_commands_run:
  assumes "plain_name (name (props iface))" and "\<forall>path. open_file fs path = Writable"
  shows "fold run_command (config_commands iface) fs = fs\<lparr>written := written fs @ config_writes iface\<rparr>"
proof -
  have n: "take 15 (name (props iface)) = name (props iface)"
    using assms(1) by (simp add: plain_name_def)
  have 0: "\<not> in_bounds 1280 131072 0" "\<not> in_bounds 2 255 0" "\<not> in_bounds 100 3600000 0" "\<not> in_bounds 10 3600000 0"
    by (simp_all add: in_bounds_def)
  show ?thesis
    using assms
    by (simp add: config_commands_def config_writes_def run_command_writable n 0 Let_def)
qed

text \<open>The daemon and the helper together: the pipe carries the commands, the helper sets the files.\<close>

lemma config_interface_applied:
  assumes "plain_name (name (props iface))" and "CHR 0x00 \<notin> set (name (props iface))"
    and "\<forall>path. open_file fs path = Writable"
    and "undisturbed script" and "96 < moves script"
  shows "\<exists>cmds. privsep_out (config_interface iface w) = privsep_out w @ cmds \<and>
    privsep_read_loop script (concat (map command_bytes cmds)) fs =
      Some (fs\<lparr>written := written fs @ config_writes iface\<rparr>)"
proof (intro exI conjI)
  show "privsep_out (config_interface iface w) = privsep_out w @ config_commands iface"
    by (simp add: config_interface_commands)
  have "list_all (\<lambda>cmd. wire_name_ok (cmd_iface cmd)) (config_commands iface)"
    using assms(1,2) by (auto simp: config_commands_def wire_name_ok_def Let_def dest: in_set_takeD)
  moreover have "length (config_commands iface) \<le> 4"
    by (simp add: config_commands_def Let_def)
  ultimately show "privsep_read_loop script (concat (map command_bytes (config_commands iface))) fs =
      Some (fs\<lparr>written := written fs @ config_writes iface\<rparr>)"
    using assms(4,5) config_commands_run [OF assms(1,3)] by (subst privsep_read_loop_runs) simp_all
qed

end
