(* ===== verification/Runs.thy ===== *)
theory Runs
  imports Daemon
begin

text \<open>
  The runs of the daemon as a step relation. Between two turns of the main loop the kernel may
  change and signals may arrive; a turn sees any result of \<^verbatim>\<open>ppoll\<close>; the configuration that a SIGHUP
  rereads is any of a set of possible results of \<^verbatim>\<open>readin_config\<close>. The invariant of \<open>Daemon\<close> holds
  in every reachable state.
\<close>

subsection \<open>One turn of the main loop\<close>

lemma find_iface_by_time_loop_world:
  "\<exists>n. snd (find_iface_by_time_loop timeout next pos ifs w) = w\<lparr>ticks := n\<rparr>"
proof (induction ifs arbitrary: timeout "next" pos w)
  case Nil
  show ?case by (auto intro: exI [of _ "ticks w"])
next
  case (Cons i ifs)
  from Cons [of _ _ _ "w\<lparr>ticks := Suc (ticks w)\<rparr>"] show ?case
    by (simp add: next_time_msec_eq Let_def)
qed

lemma find_iface_by_time_world: "\<exists>n. snd (find_iface_by_time ifs w) = w\<lparr>ticks := n\<rparr>"
proof (cases ifs)
  case (Cons i rest)
  obtain n where "snd (find_iface_by_time_loop (int_of_msec (fst (next_time_msec i w))) 0 1 rest
      (snd (next_time_msec i w))) = (snd (next_time_msec i w))\<lparr>ticks := n\<rparr>"
    using find_iface_by_time_loop_world by blast
  then show ?thesis
    by (simp add: find_iface_by_time_def Cons case_prod_beta Let_def next_time_msec_eq exI [of _ n])
qed (auto simp: find_iface_by_time_def intro: exI [of _ "ticks w"])

lemma find_iface_by_time_ok: "world_ok (snd (find_iface_by_time ifs w)) = world_ok w"
  using find_iface_by_time_world [of ifs w] by auto

lemma find_iface_by_time_nth:
  assumes "fst (find_iface_by_time ifs w) = Some n"
  shows "n < length ifs"
proof -
  have "ifs \<noteq> []"
    using assms by (auto simp: find_iface_by_time_def)
  from find_iface_by_time_min [OF this, of w] assms show ?thesis by auto
qed

lemma handle_poll_ok:
  assumes h: "handle_poll r next ifs w = Some (ifs', w')" and i: "list_all iface_ok ifs" and w: "world_ok w"
    and n: "\<And>n. next = Some n \<Longrightarrow> n < length ifs"
  shows "list_all iface_ok ifs' \<and> world_ok w'"
proof (cases r)
  case (Poll_events nl pkt)
  with h obtain ifs1 w1 where
    1: "(case nl of None \<Rightarrow> Some (ifs, w) | Some msgs \<Rightarrow> process_netlink_msg msgs ifs w) = Some (ifs1, w1)"
      "(case pkt of None \<Rightarrow> Some (ifs1, w1) | Some p \<Rightarrow> handle_packet p ifs1 w1) = Some (ifs', w')"
    by (auto simp: handle_poll_def bind_eq_Some_conv)
  have "list_all iface_ok ifs1 \<and> world_ok w1"
    using 1(1) i w process_netlink_msg_ok [of _ ifs w ifs1 w1] by (auto split: option.split_asm)
  with 1(2) show ?thesis
    by (auto simp: handle_packet_def bind_eq_Some_conv Let_def split: option.split_asm if_split_asm prod.split_asm
        dest: process_ok)
next
  case Poll_timeout
  show ?thesis
  proof (cases "next")
    case (Some m)
    with h Poll_timeout obtain i1 where
      1: "timer_handler (ifs ! m) w = Some (i1, w')" "ifs' = ifs[m := i1]"
      by (auto simp: handle_poll_def bind_eq_Some_conv)
    have "iface_ok (ifs ! m)"
      using i n [OF Some] by (simp add: list_all_length)
    from timer_handler_ok [OF 1(1) this w] i show ?thesis
      by (simp add: 1(2) list_all_update)
  qed (use h i w Poll_timeout in \<open>simp add: handle_poll_def\<close>)
qed (use h i w in \<open>simp add: handle_poll_def\<close>)

definition daemon_ok :: "daemon \<Rightarrow> bool" where
  "daemon_ok d \<longleftrightarrow> list_all iface_ok (ifaces d) \<and> world_ok (wld d)"

lemma reset_prefix_lifetimes_ok:
  "list_all iface_ok ifs \<Longrightarrow> list_all iface_ok (reset_prefix_lifetimes ifs)"
  by (simp add: reset_prefix_lifetimes_def list.pred_map o_def list_all_iff reset_prefix_lifetimes_foo_ok)

text \<open>The state after a turn, whether the loop goes on or ends.\<close>

fun loop_state :: "loop_result \<Rightarrow> daemon" where
  "loop_state (Continue d) = d"
| "loop_state (Break d) = d"

lemma main_loop_iteration_ok:
  assumes m: "main_loop_iteration conf r d = Some l" and d: "daemon_ok d"
    and conf: "\<And>ifs. conf = Some ifs \<Longrightarrow> list_all iface_ok ifs"
  shows "daemon_ok (loop_state l)"
proof -
  obtain nxt w where f: "find_iface_by_time (ifaces d) (wld d) = (nxt, w)" by fastforce
  define w1 where "w1 = (case nxt of None \<Rightarrow> w | Some n \<Rightarrow> snd (next_time_msec (ifaces d ! n) w))"
  have w1: "world_ok w1"
    using d find_iface_by_time_ok [of "ifaces d" "wld d"]
    by (auto simp: f w1_def daemon_ok_def next_time_msec_eq split: option.split)
  from m obtain ifs w2 where
    h: "handle_poll r nxt (ifaces d) w1 = Some (ifs, w2)" and
    rest: "(let d = d\<lparr>ifaces := ifs, wld := w2\<rparr> in
      if sigint_received (sigs d) > 0 then Some (Break d)
      else if sigterm_received (sigs d) > 0 then Some (Break d)
      else do {
        (ifs, w) \<leftarrow> (if sighup_received (sigs d) then reload_config conf (ifaces d) (wld d)
                     else Some (ifaces d, wld d));
        let ifs = (if sigusr1_received (sigs d) then reset_prefix_lifetimes ifs else ifs);
        Some (Continue (d\<lparr>ifaces := ifs, wld := w,
                sigs := (sigs d)\<lparr>sighup_received := False, sigusr1_received := False\<rparr>\<rparr>))
      }) = Some l"
    by (auto simp: main_loop_iteration_def f w1_def [symmetric] bind_eq_Some_conv)
  have "\<And>n. nxt = Some n \<Longrightarrow> n < length (ifaces d)"
    using find_iface_by_time_nth [of "ifaces d" "wld d"] by (simp add: f)
  from handle_poll_ok [OF h _ w1 this] d have 2: "list_all iface_ok ifs \<and> world_ok w2"
    by (simp add: daemon_ok_def)
  show ?thesis
  proof (cases "sigint_received (sigs d) > 0 \<or> sigterm_received (sigs d) > 0")
    case True
    with rest 2 show ?thesis by (auto simp: daemon_ok_def Let_def split: if_split_asm)
  next
    case False
    with rest obtain ifs3 w3 where
      3: "(if sighup_received (sigs d) then reload_config conf ifs w2 else Some (ifs, w2)) = Some (ifs3, w3)"
      and l: "ifaces (loop_state l) = (if sigusr1_received (sigs d) then reset_prefix_lifetimes ifs3 else ifs3)"
        "wld (loop_state l) = w3"
      by (auto simp: Let_def bind_eq_Some_conv cong: if_cong)
    have "list_all iface_ok ifs3 \<and> world_ok w3"
      using 3 2 reload_config_ok [OF _ _ conf, of conf ifs w2 ifs3 w3] by (auto split: if_split_asm)
    with l show ?thesis by (auto simp: daemon_ok_def reset_prefix_lifetimes_ok)
  qed
qed

subsection \<open>Steps and reachable states\<close>

text \<open>
  The process runs, has left the loop, has ended, or was ended by \<^verbatim>\<open>exit\<close>, \<^verbatim>\<open>abort\<close> or a fault with
  the packets it had sent. \<open>C\<close> holds what \<^verbatim>\<open>readin_config\<close> may return.
\<close>

datatype proc_state =
    Running daemon
  | Stopping daemon
  | Exited "Interface list" world
  | Aborted world

inductive radvd_step :: "Interface list option set \<Rightarrow> proc_state \<Rightarrow> proc_state \<Rightarrow> bool"
  for C :: "Interface list option set" where
  kernel_changes: "kernel_ok k \<Longrightarrow>
     radvd_step C (Running d) (Running (d\<lparr>wld := (wld d)\<lparr>kern := k\<rparr>\<rparr>))"
| sighup: "radvd_step C (Running d) (Running (d\<lparr>sigs := sighup_handler (sigs d)\<rparr>))"
| sigusr1: "radvd_step C (Running d) (Running (d\<lparr>sigs := sigusr1_handler (sigs d)\<rparr>))"
| sigterm: "sigterm_handler (sigs d) = Some s \<Longrightarrow>
     radvd_step C (Running d) (Running (d\<lparr>sigs := s\<rparr>))"
| sigterm_abort: "sigterm_handler (sigs d) = None \<Longrightarrow>
     radvd_step C (Running d) (Aborted (wld d))"
| sigint: "sigint_handler (sigs d) = Some s \<Longrightarrow>
     radvd_step C (Running d) (Running (d\<lparr>sigs := s\<rparr>))"
| sigint_abort: "sigint_handler (sigs d) = None \<Longrightarrow>
     radvd_step C (Running d) (Aborted (wld d))"
| turn: "conf \<in> C \<Longrightarrow> main_loop_iteration conf r d = Some (Continue d') \<Longrightarrow>
     radvd_step C (Running d) (Running d')"
| leave: "conf \<in> C \<Longrightarrow> main_loop_iteration conf r d = Some (Break d') \<Longrightarrow>
     radvd_step C (Running d) (Stopping d')"
| die: "conf \<in> C \<Longrightarrow> main_loop_iteration conf r d = None \<Longrightarrow>
     radvd_step C (Running d) (Aborted (wld d))"
| stop: "shutdown d = Some (ifs, w) \<Longrightarrow> radvd_step C (Stopping d) (Exited ifs w)"
| stop_die: "shutdown d = None \<Longrightarrow> radvd_step C (Stopping d) (Aborted (wld d))"

inductive_cases radvd_stepE [elim!]:
  "radvd_step C (Running d) s"
  "radvd_step C (Stopping d) s"
  "radvd_step C (Exited ifs w) s"
  "radvd_step C (Aborted w) s"

inductive radvd_reach :: "Interface list option set \<Rightarrow> world \<Rightarrow> proc_state \<Rightarrow> bool"
  for C :: "Interface list option set" and w0 :: world where
  start: "conf \<in> C \<Longrightarrow> startup conf w0 = Some d \<Longrightarrow> radvd_reach C w0 (Running d)"
| step: "radvd_reach C w0 s \<Longrightarrow> radvd_step C s s' \<Longrightarrow> radvd_reach C w0 s'"

fun state_ok :: "proc_state \<Rightarrow> bool" where
  "state_ok (Running d) = daemon_ok d"
| "state_ok (Stopping d) = daemon_ok d"
| "state_ok (Exited ifs w) = (list_all iface_ok ifs \<and> world_ok w)"
| "state_ok (Aborted w) = world_ok w"

definition configs_ok :: "Interface list option set \<Rightarrow> bool" where
  "configs_ok C \<longleftrightarrow> (\<forall>ifs. Some ifs \<in> C \<longrightarrow> list_all iface_ok ifs)"

lemma shutdown_ok:
  assumes s: "shutdown d = Some (ifs, w)" and d: "daemon_ok d"
  shows "list_all iface_ok ifs \<and> world_ok w"
proof -
  from s obtain ifs1 w1 where
    1: "stop_adverts (ifaces d) (wld d) = Some (ifs1, w1)" "cleanup_ifaces ifs1 w1 = Some (ifs, w)"
    by (auto simp: shutdown_def bind_eq_Some_conv)
  have "list_all iface_ok ifs1 \<and> world_ok w1"
    using stop_walk.for_each_keeps [OF _ _ 1(1) [unfolded stop_adverts_def]] d by (simp add: daemon_ok_def)
  with cleanup_walk.for_each_keeps [OF _ _ 1(2) [unfolded cleanup_ifaces_def]] show ?thesis by simp
qed

lemma radvd_step_ok:
  assumes "radvd_step C s s'" and "state_ok s" and "configs_ok C"
  shows "state_ok s'"
  using assms
proof (cases rule: radvd_step.cases)
  case (turn conf r d d')
  with assms(2,3) main_loop_iteration_ok [of conf r d "Continue d'"] show ?thesis
    by (auto simp: configs_ok_def)
next
  case (leave conf r d d')
  with assms(2,3) main_loop_iteration_ok [of conf r d "Break d'"] show ?thesis
    by (auto simp: configs_ok_def)
next
  case (stop d ifs w)
  with assms(2) shutdown_ok show ?thesis by simp
qed (auto simp: daemon_ok_def world_ok_def)

lemma radvd_reach_ok:
  assumes "radvd_reach C w0 s" and "configs_ok C" and "world_ok w0"
  shows "state_ok s"
  using assms(1)
proof induction
  case (start conf d)
  with startup_ok [of conf w0 d] assms(2,3) show ?case
    by (auto simp: daemon_ok_def configs_ok_def)
next
  case (step s s')
  with assms(2) show ?case by (auto intro: radvd_step_ok)
qed

subsection \<open>The report about forwarding\<close>

text \<open>Nothing resets the static variable: once reported, it stays so, through reloads too.\<close>

lemma rand_between_warned [simp]: "warned (snd (rand_between a b w)) = warned w"
  by (simp add: rand_between_def c_rand_def case_prod_beta Let_def)

lemma timer_handler_warned:
  assumes "timer_handler iface w = Some (iface', w')" and "warned w"
  shows "warned w'"
  using assms by (auto simp: timer_handler_def bind_eq_Some_conv case_prod_beta Let_def prod_eq_iff
      dest: send_ra_forall_warned)

lemma process_rs_warned:
  assumes "process_rs iface msg src w = Some (iface', w')" and "warned w"
  shows "warned w'"
proof -
  obtain b where "rs_options src (drop 8 msg) = Some b"
    using rs_options_total by blast
  with assms show ?thesis
    by (auto simp: process_rs_def clock_gettime_def c_rand_def case_prod_beta Let_def bind_eq_Some_conv prod_eq_iff
        split: if_split_asm dest!: send_ra_forall_warned)
qed

lemma process_warned:
  assumes "process ifs msg src pkt hop w = Some (ifs', w', logs)" and "warned w"
  shows "warned w'"
  using assms(1)
  by (cases rule: process_cases) (use assms(2) in \<open>auto dest: setup_iface_warned process_rs_warned\<close>)

lemma touch_at_warned [simp]: "warned (snd (touch_at n ifs w)) = warned w"
  by (simp add: touch_at_def touch_iface_def case_prod_beta Let_def)

lemma cleanup_iface_warned [simp]: "warned (snd (cleanup_iface iface w)) = warned w"
  by (simp add: cleanup_iface_def cleanup_allrouters_membership_def Let_def)

lemma process_link_msg_warned [simp]: "warned (snd (process_link_msg nh i ifs w)) = warned w"
  by (simp add: process_link_msg_def case_prod_beta Let_def split: option.split)

lemma process_addr_msg_warned:
  assumes "process_addr_msg i ifs w = Some (ifs', w')" and "warned w"
  shows "warned w'"
proof -
  from assms(1) have "w' = w \<or> (\<exists>n. w' = snd (touch_at n ifs w))"
    by (auto simp: process_addr_msg_def Let_def case_prod_beta prod_eq_iff split: option.split_asm if_split_asm)
  with assms(2) show ?thesis by auto
qed

lemma process_netlink_msg_warned:
  "process_netlink_msg msgs ifs w = Some (ifs', w') \<Longrightarrow> warned w \<Longrightarrow> warned w'"
proof (induction msgs arbitrary: ifs w)
  case (Cons nh msgs)
  then show ?case
    by (cases nh) (auto simp: case_prod_beta Let_def bind_eq_Some_conv dest: process_addr_msg_warned)
qed simp

lemma handle_packet_warned:
  assumes "handle_packet r ifs w = Some (ifs', w')" and "warned w"
  shows "warned w'"
  using assms
  by (auto simp: handle_packet_def bind_eq_Some_conv Let_def split: if_split_asm prod.split_asm dest: process_warned)

lemma handle_poll_warned:
  assumes "handle_poll r next ifs w = Some (ifs', w')" and "warned w"
  shows "warned w'"
  using assms
  by (auto simp: handle_poll_def bind_eq_Some_conv split: poll_result.split_asm option.split_asm
      dest: process_netlink_msg_warned handle_packet_warned timer_handler_warned)

interpretation cleanup_warned: iface_walk cleanup_iface_foo "\<lambda>_. True" warned
  by unfold_locales (auto simp: cleanup_iface_foo_def cleanup_iface_def cleanup_allrouters_membership_def)

lemma reload_config_warned:
  assumes "reload_config conf ifs w = Some (ifs', w')" and "warned w"
  shows "warned w'"
proof -
  from assms(1) obtain x w1 ifs1 where "cleanup_ifaces ifs w = Some (x, w1)" "setup_ifaces ifs1 w1 = Some (ifs', w')"
    by (auto simp: reload_config_def bind_eq_Some_conv split: if_split_asm)
  with assms(2) cleanup_warned.for_each_keeps [of ifs w x w1] setup_warned.for_each_keeps [of ifs1 w1 ifs' w']
  show ?thesis by (simp add: cleanup_ifaces_def setup_ifaces_def list_all_iff)
qed

lemma main_loop_iteration_warned:
  assumes m: "main_loop_iteration conf r d = Some l" and "warned (wld d)"
  shows "warned (wld (loop_state l))"
proof -
  obtain nxt w where f: "find_iface_by_time (ifaces d) (wld d) = (nxt, w)" by fastforce
  then have w: "warned w"
    using find_iface_by_time_world [of "ifaces d" "wld d"] assms(2) by auto
  define w1 where "w1 = (case nxt of None \<Rightarrow> w | Some n \<Rightarrow> snd (next_time_msec (ifaces d ! n) w))"
  have "warned w1" using w by (auto simp: w1_def next_time_msec_eq split: option.split)
  moreover from m obtain ifs w2 where "handle_poll r nxt (ifaces d) w1 = Some (ifs, w2)" and
    rest: "wld (loop_state l) = w2 \<or> (\<exists>ifs3. reload_config conf ifs w2 = Some (ifs3, wld (loop_state l)))"
    by (auto simp: main_loop_iteration_def f w1_def [symmetric] bind_eq_Some_conv Let_def split: if_split_asm)
  ultimately have "warned w2" by (blast dest: handle_poll_warned)
  with rest show ?thesis by (auto dest: reload_config_warned)
qed

lemma radvd_reach_warned:
  assumes "radvd_reach C w0 (Running d)" and "proc_forwarding (kern w0) \<notin> {Proc_value 1, Proc_value 2}"
  shows "warned (wld d)"
  using assms(1)
proof (induction "Running d" arbitrary: d)
  case (start conf d)
  with startup_warned assms(2) show ?case by blast
next
  case (step s)
  from step(3) show ?case
  proof (cases rule: radvd_step.cases)
    case (turn conf r d0)
    with step(2) [OF turn(1)] main_loop_iteration_warned [OF turn(3)] show ?thesis by simp
  qed (use step(2) in auto)
qed

subsection \<open>The end of the process\<close>

text \<open>One SIGTERM or SIGINT is enough: the next turn of the loop does not go on.\<close>

lemma main_loop_iteration_breaks:
  assumes "sigint_received (sigs d) > 0 \<or> sigterm_received (sigs d) > 0"
  shows "main_loop_iteration conf r d \<noteq> Some (Continue d')"
  using assms by (auto simp: main_loop_iteration_def bind_eq_Some_conv case_prod_beta Let_def)

text \<open>No step forgets a termination signal.\<close>

lemma signals_kept:
  assumes "main_loop_iteration conf r d = Some l"
  shows "sigint_received (sigs (loop_state l)) = sigint_received (sigs d) \<and>
    sigterm_received (sigs (loop_state l)) = sigterm_received (sigs d)"
  using assms
  by (auto simp: main_loop_iteration_def bind_eq_Some_conv case_prod_beta Let_def split: if_split_asm)

text \<open>
  What the process may be in after a termination signal: still before its next turn, with nothing done or
  sent since the signal and a turn ahead that can only be the last; stopping after exactly one turn; gone
  after the shutdown; or aborted by the third signal, by a failure in the last turn (which is not possible
  when the signal interrupts the wait), or by one in the shutdown.
\<close>

definition last_turn :: "Interface list option set \<Rightarrow> daemon \<Rightarrow> daemon \<Rightarrow> bool" where
  "last_turn C d d' \<longleftrightarrow>
     (\<exists>conf \<in> C. \<exists>r d1. ifaces d1 = ifaces d \<and> sent (wld d1) = sent (wld d) \<and>
        main_loop_iteration conf r d1 = Some (Break d'))"

fun after_signal :: "Interface list option set \<Rightarrow> daemon \<Rightarrow> proc_state \<Rightarrow> bool" where
  "after_signal C d (Running d') =
     (ifaces d' = ifaces d \<and> sent (wld d') = sent (wld d) \<and>
      (\<forall>conf r d''. main_loop_iteration conf r d' \<noteq> Some (Continue d'')) \<and>
      (\<forall>conf. \<exists>d''. main_loop_iteration conf Poll_interrupted d' = Some (Break d'')))"
| "after_signal C d (Stopping d') = last_turn C d d'"
| "after_signal C d (Exited ifs w) = (\<exists>d'. last_turn C d d' \<and> shutdown d' = Some (ifs, w))"
| "after_signal C d (Aborted w) =
     ((\<exists>d1. ifaces d1 = ifaces d \<and> sent (wld d1) = sent (wld d) \<and>
         (sigterm_handler (sigs d1) = None \<or> sigint_handler (sigs d1) = None \<or>
          (\<exists>conf \<in> C. \<exists>r. r \<noteq> Poll_interrupted \<and> main_loop_iteration conf r d1 = None))) \<or>
      (\<exists>d'. last_turn C d d' \<and> shutdown d' = None))"

lemma interrupted_turn_breaks:
  assumes "sigint_received (sigs d) > 0 \<or> sigterm_received (sigs d) > 0"
  shows "\<exists>d''. main_loop_iteration conf Poll_interrupted d = Some (Break d'')"
  using assms by (auto simp: main_loop_iteration_def handle_poll_def case_prod_beta Let_def)

lemma signalled_kept:
  assumes "radvd_step C (Running d) (Running d')" and "sigint_received (sigs d) > 0 \<or> sigterm_received (sigs d) > 0"
  shows "(sigint_received (sigs d') > 0 \<or> sigterm_received (sigs d') > 0) \<and>
    ifaces d' = ifaces d \<and> sent (wld d') = sent (wld d)"
  using assms main_loop_iteration_breaks [OF assms(2)]
  by (auto simp: sighup_handler_def sigusr1_handler_def sigterm_handler_def sigint_handler_def Let_def
      split: if_split_asm)

lemma after_signal_run:
  assumes run: "(radvd_step C)\<^sup>*\<^sup>* (Running d) s"
    and sig: "sigint_received (sigs d) > 0 \<or> sigterm_received (sigs d) > 0"
  shows "after_signal C d s"
proof -
  let ?P = "\<lambda>s. after_signal C d s \<and>
    (\<forall>d'. s = Running d' \<longrightarrow> sigint_received (sigs d') > 0 \<or> sigterm_received (sigs d') > 0)"
  have now: "after_signal C d (Running d')"
    if "sigint_received (sigs d') > 0 \<or> sigterm_received (sigs d') > 0" "ifaces d' = ifaces d" "sent (wld d') = sent (wld d)" for d'
    using that main_loop_iteration_breaks [OF that(1)] interrupted_turn_breaks [OF that(1)] by simp
  from run have "?P s"
  proof (induction rule: rtranclp_induct)
    case base
    with sig now show ?case by simp
  next
    case (step s s')
    show ?case
    proof (cases s)
      case (Running d1)
      with step.IH have d1: "sigint_received (sigs d1) > 0 \<or> sigterm_received (sigs d1) > 0"
        "ifaces d1 = ifaces d" "sent (wld d1) = sent (wld d)" by auto
      show ?thesis
      proof (cases s')
        case (Running d2)
        with signalled_kept [of C d1 d2] step.hyps(2) \<open>s = Running d1\<close> d1 now [of d2] show ?thesis by auto
      next
        case (Stopping d2)
        with step.hyps(2) \<open>s = Running d1\<close> d1 show ?thesis by (auto simp: last_turn_def)
      next
        case (Aborted w)
        have "r \<noteq> Poll_interrupted" if "main_loop_iteration conf r d1 = None" for conf r
          using that interrupted_turn_breaks [OF d1(1), of conf] by auto
        with step.hyps(2) \<open>s = Running d1\<close> d1 Aborted show ?thesis by auto metis+
      qed (use step.hyps(2) \<open>s = Running d1\<close> in auto)
    next
      case (Stopping d1)
      with step show ?thesis by (cases s') auto
    qed (use step.hyps(2) in auto)
  qed
  then show ?thesis by blast
qed

lemma signal_counts:
  assumes "radvd_reach C w0 (Running d)"
  shows "sigint_received (sigs d) \<le> 2 \<and> sigterm_received (sigs d) \<le> 2"
  using assms
proof (induction "Running d" arbitrary: d)
  case (start conf d)
  then show ?case by (auto simp: startup_def bind_eq_Some_conv split: if_split_asm)
next
  case (step s)
  from step(3) show ?case
  proof (cases rule: radvd_step.cases)
    case (turn conf r d0)
    with step(2) [OF turn(1)] signals_kept [OF turn(3)] show ?thesis by simp
  qed (use step(2) in \<open>auto simp: sighup_handler_def sigusr1_handler_def sigterm_handler_def
      sigint_handler_def Let_def split: if_split_asm\<close>)
qed

subsection \<open>The final advertisements\<close>

definition sends_only :: "(ra_packet \<Rightarrow> bool) \<Rightarrow> world \<Rightarrow> world \<Rightarrow> bool" where
  "sends_only P w w' \<longleftrightarrow> (\<exists>pkts. sent w' = sent w @ pkts \<and> list_all P pkts)"

definition withdraws :: "ra_packet \<Rightarrow> bool" where
  "withdraws p \<longleftrightarrow> take 2 (drop 6 (pkt_data p)) = [0, 0]"

lemma sends_only_none: "sent w' = sent w \<Longrightarrow> sends_only P w w'"
  by (simp add: sends_only_def)

lemma sends_only_trans: "sends_only P w w1 \<Longrightarrow> sends_only P w1 w' \<Longrightarrow> sends_only P w w'"
  by (auto simp: sends_only_def)

definition ceasing :: "Interface \<Rightarrow> bool" where
  "ceasing iface \<longleftrightarrow> cease_adv (state_info iface) \<and> wire_config_ok iface"

lemma ceasing_same: "same_but_times i j \<Longrightarrow> ceasing j = ceasing i"
  by (auto simp: same_but_times_def ceasing_def)

lemma send_ra_withdraws:
  assumes s: "send_ra iface dest w = Some (rc, iface', w')" and c: "ceasing iface"
  shows "sends_only withdraws w w' \<and> ceasing iface'"
proof -
  from send_ra_wf [OF s] c obtain pkts where
    "sent w' = sent w @ pkts" "list_all (\<lambda>p. ra_with (ra_header_info iface) True (pkt_data p)) pkts"
    by (auto simp: ceasing_def)
  then have "sends_only withdraws w w'"
    by (auto simp: sends_only_def withdraws_def list_all_iff ra_with_cease_lifetime)
  moreover have "ceasing iface'"
    using send_ra_sent [OF s] c by (auto dest: ceasing_same)
  ultimately show ?thesis ..
qed

lemma send_ra_clients_withdraws:
  "send_ra_clients dest cs iface w = Some (b, iface', w') \<Longrightarrow> ceasing iface \<Longrightarrow>
     sends_only withdraws w w' \<and> ceasing iface'"
proof (induction dest cs iface w rule: send_ra_clients.induct)
  case (1 dest iface w)
  then show ?case by (simp add: sends_only_none)
next
  case (2 dest c cs iface w)
  show ?case
  proof (cases "dest \<noteq> None \<and> dest \<noteq> Some (Address c) \<or> ignored c")
    case True
    with 2 show ?thesis by (auto simp: sends_only_none split: if_split_asm)
  next
    case False
    with "2.prems"(1) obtain rc i1 w1 where
      1: "send_ra iface (Some (Address c)) w = Some (rc, i1, w1)"
        "(if dest \<noteq> None then Some (True, i1, w1) else send_ra_clients dest cs i1 w1) = Some (b, iface', w')"
      by (auto simp: bind_eq_Some_conv)
    from send_ra_withdraws [OF 1(1) "2.prems"(2)] "2.IH"(3) [OF _ _ 1(1) refl refl] 1(2) False show ?thesis
      by (auto split: if_split_asm intro: sends_only_trans)
  qed
qed

lemma send_ra_forall_withdraws:
  assumes s: "send_ra_forall iface dest w = Some (rc, iface', w')" and i: "iface_ok iface" and w: "world_ok w"
    and c: "cease_adv (state_info iface)"
  shows "sends_only withdraws w w'"
proof -
  from s obtain e i1 w1 where
    e: "ensure_iface_setup iface w = Some (e, i1, w1)" and
    r: "(if e < 0 then Some (-1, i1, w1) else send_ra_to_clients (count_initial_ra i1 dest) dest w1) =
      Some (rc, iface', w')"
    by (auto simp: send_ra_forall_def bind_eq_Some_conv)
  note sent1 = ensure_iface_setup_result [OF e]
  show ?thesis
  proof (cases "e < 0")
    case True
    with r sent1 show ?thesis by (simp add: sends_only_none)
  next
    case False
    have "iface_static iface" "kernel_ok (kern w)"
      using i w by (simp_all add: iface_ok_def iface_inv_def world_ok_def)
    with e c i w have "cease_adv (state_info i1)" "iface_ok i1"
      by (auto simp: ensure_iface_setup_def bind_eq_Some_conv split: if_split_asm
          dest: setup_iface_ok setup_iface_result)
    then have "ceasing (count_initial_ra i1 dest)"
      using iface_ok_wire [of i1] sent1(3) False
      by (simp add: ceasing_def count_initial_ra_def)
    moreover from r False have "send_ra_to_clients (count_initial_ra i1 dest) dest w1 = Some (rc, iface', w')"
      by simp
    ultimately have "sends_only withdraws w1 w'"
      unfolding send_ra_to_clients_def
      by (auto simp: bind_eq_Some_conv sends_only_none split: if_split_asm intro: sends_only_trans
          dest!: send_ra_withdraws send_ra_clients_withdraws)
    with sent1(1) show ?thesis by (simp add: sends_only_def)
  qed
qed

interpretation stop_withdraws: iface_walk stop_advert_foo iface_ok
  "\<lambda>w. world_ok w \<and> sends_only withdraws w0 w" for w0
proof unfold_locales
  fix i w i' w'
  assume i: "iface_ok i" and w: "world_ok w \<and> sends_only withdraws w0 w"
    and s: "stop_advert_foo i w = Some (i', w')"
  have "sends_only withdraws w w'"
    using s i w by (auto simp: stop_advert_foo_def Let_def bind_eq_Some_conv sends_only_none
        split: if_split_asm dest: send_ra_forall_withdraws)
  with w stop_walk.foo_keeps [OF i _ s] show "iface_ok i' \<and> world_ok w' \<and> sends_only withdraws w0 w'"
    by (auto intro: sends_only_trans)
qed

lemma shutdown_withdraws:
  assumes s: "shutdown d = Some (ifs, w)" and d: "daemon_ok d"
  shows "sends_only withdraws (wld d) w"
proof -
  from s obtain ifs1 w1 where
    1: "stop_adverts (ifaces d) (wld d) = Some (ifs1, w1)" "cleanup_ifaces ifs1 w1 = Some (ifs, w)"
    by (auto simp: shutdown_def bind_eq_Some_conv)
  have "sends_only withdraws (wld d) w1"
    using stop_withdraws.for_each_keeps [OF _ _ 1(1) [unfolded stop_adverts_def], of "wld d"] d
    by (simp add: daemon_ok_def sends_only_none)
  moreover have "sent w = sent w1"
    using 1(2) by (rule cleanup_ifaces_sent)
  ultimately show ?thesis by (simp add: sends_only_def)
qed

text \<open>A ready interface that has to withdraw reaches all its targets.\<close>

lemma stop_advert_foo_reaches:
  assumes "\<not> UnicastOnly iface" and "RemoveAdvOnExit iface" and "AdvSendAdvert iface" and "sendable iface"
    and "ready (state_info iface)" and "sends_succeed w" and "iface_ok iface" and "world_ok w"
  shows "\<exists>iface' w' pkts. stop_advert_foo iface w = Some (iface', w') \<and> sent w' = sent w @ pkts \<and>
    pkt_dest ` set pkts = set (ra_targets iface None) \<and> list_all withdraws pkts"
proof -
  let ?i = "iface\<lparr>state_info := (state_info iface)\<lparr>cease_adv := True\<rparr>\<rparr>"
  have "sendable ?i" "ra_targets ?i None = ra_targets iface None"
    using assms(4) by (simp_all add: sendable_def ready_to_send_def iface_static_def ra_targets_def)
  with send_ra_forall_reaches [of ?i w None] assms obtain i' w' pkts where
    s: "send_ra_forall ?i None w = Some (0, i', w')" "sent w' = sent w @ pkts"
      "pkt_dest ` set pkts = set (ra_targets iface None)"
    by auto
  have "sends_only withdraws w w'"
    by (rule send_ra_forall_withdraws [OF s(1)]) (use assms in simp_all)
  with s(2) have "list_all withdraws pkts"
    by (simp add: sends_only_def)
  with s assms(1,2) show ?thesis
    by (simp add: stop_advert_foo_def)
qed

end
