(* ===== verification/Text_Output.thy ===== *)
theory Text_Output
  imports Prelude
begin

text \<open>
  Printing, as the C library does it for this program: numbers by \<^verbatim>\<open>%u\<close>, \<^verbatim>\<open>%d\<close> and \<^verbatim>\<open>%x\<close>, addresses
  by \<^verbatim>\<open>inet_ntop\<close> (\<open>addrtostr\<close> of \<^verbatim>\<open>util.c\<close>), and the escaping of foreign text by \<open>print_sanitized\<close>
  of \<^verbatim>\<open>radvdump.c\<close>. What is written to the standard output is a string.
\<close>

unbundle bit_operations_syntax

subsection \<open>Numbers\<close>

definition digit :: "nat \<Rightarrow> char" where
  "digit d = ''0123456789abcdef'' ! d"

fun num_text :: "nat \<Rightarrow> nat \<Rightarrow> string" where
  "num_text base n =
     (if base < 2 \<or> n < base then [digit n] else num_text base (n div base) @ [digit (n mod base)])"

declare num_text.simps [simp del]

abbreviation dec :: "nat \<Rightarrow> string" where
  "dec n \<equiv> num_text 10 n"

abbreviation hex :: "nat \<Rightarrow> string" where
  "hex n \<equiv> num_text 16 n"

definition dec_int :: "int \<Rightarrow> string" where
  "dec_int i = (if i < 0 then ''-'' else []) @ dec (nat \<bar>i\<bar>)"

abbreviation nl :: string where
  "nl \<equiv> [CHR 0x0A]"

abbreviation tab :: string where
  "tab \<equiv> [CHR 0x09]"

text \<open>The value of a numeral, for the round trips.\<close>

definition digit_value :: "char \<Rightarrow> nat" where
  "digit_value c = (let n = of_char c in if n < 58 then n - 48 else n - 87)"

definition num_value :: "nat \<Rightarrow> string \<Rightarrow> nat" where
  "num_value base s = foldl (\<lambda>acc c. acc * base + digit_value c) 0 s"

lemma less_16_cases:
  assumes "d < (16 :: nat)"
  shows "d \<in> {0, 1, 2, 3, 4, 5, 6, 7, 8, 9, 10, 11, 12, 13, 14, 15}"
proof -
  have "{..<16} = {0, 1, 2, 3, 4, 5, 6, 7, 8, 9, 10, 11, 12, 13, 14, 15 :: nat}"
    by (simp add: lessThan_nat_numeral lessThan_Suc insert_commute)
  with assms show ?thesis by blast
qed

lemma digit_value_digit [simp]: "d < 16 \<Longrightarrow> digit_value (digit d) = d"
  by (drule less_16_cases) (auto simp: digit_def digit_value_def)

lemma num_value_num_text:
  assumes "2 \<le> base" and "base \<le> 16"
  shows "num_value base (num_text base n) = n"
  using assms
proof (induction base n rule: num_text.induct)
  case (1 base n)
  show ?case
  proof (cases "n < base")
    case True
    with 1(3) show ?thesis
      by (simp add: num_text.simps [of base n] num_value_def)
  next
    case False
    then have "num_text base n = num_text base (n div base) @ [digit (n mod base)]"
      using "1.prems" by (simp add: num_text.simps [of base n])
    moreover have "n mod base < 16"
      using "1.prems" mod_less_divisor [of base n] by linarith
    then have "digit_value (digit (n mod base)) = n mod base"
      by (rule digit_value_digit)
    ultimately show ?thesis
      using 1 False by (simp add: num_value_def mult.commute)
  qed
qed

lemma num_text_inject: "2 \<le> base \<Longrightarrow> base \<le> 16 \<Longrightarrow> num_text base m = num_text base n \<longleftrightarrow> m = n"
  by (metis num_value_num_text)

subsection \<open>Addresses\<close>

definition addr_words :: "in6_addr \<Rightarrow> u16 list" where
  "addr_words a = map (\<lambda>i. ucast (drop_bit (16 * (7 - i)) a)) [0..<8]"

text \<open>The first of the longest runs of zero words: its start and its length.\<close>

definition zero_run :: "u16 list \<Rightarrow> nat \<Rightarrow> nat" where
  "zero_run ws i = length (takeWhile (\<lambda>x. x = 0) (drop i ws))"

definition best_run :: "u16 list \<Rightarrow> nat \<times> nat" where
  "best_run ws = fold (\<lambda>i (b, l). if l < zero_run ws i then (i, zero_run ws i) else (b, l)) [0..<8] (0, 0)"

definition dotted_quad :: "in6_addr \<Rightarrow> string" where
  "dotted_quad a =
     (let byte = (\<lambda>i. dec (unat (ucast (drop_bit (8 * (3 - i)) a) :: byte)))
      in byte 0 @ ''.'' @ byte 1 @ ''.'' @ byte 2 @ ''.'' @ byte 3)"

text \<open>The words from \<open>i\<close> on; an embedded IPv4 address ends the text.\<close>

fun words_text :: "in6_addr \<Rightarrow> nat \<Rightarrow> nat \<Rightarrow> u16 list \<Rightarrow> nat \<Rightarrow> string" where
  "words_text a b l [] i = (if 2 \<le> l \<and> b + l = 8 then '':'' else [])"
| "words_text a b l (x # ws) i =
     (if 2 \<le> l \<and> b \<le> i \<and> i < b + l then (if i = b then '':'' else []) @ words_text a b l ws (Suc i)
      else (if i \<noteq> 0 then '':'' else []) @
        (if i = 6 \<and> b = 0 \<and> (l = 6 \<or> l = 5 \<and> addr_words a ! 5 = 0xffff) then dotted_quad a
         else hex (unat x) @ words_text a b l ws (Suc i)))"

definition inet_ntop :: "in6_addr \<Rightarrow> string" where
  "inet_ntop a = (let ws = addr_words a; (b, l) = best_run ws in words_text a b l ws 0)"

text \<open>The buffer of 46 characters holds every address, so the call cannot fail.\<close>

definition addrtostr :: "in6_addr \<Rightarrow> string" where
  "addrtostr a = inet_ntop a"

subsection \<open>Foreign text\<close>

text \<open>The printable characters of the C locale.\<close>

definition isprint :: "nat \<Rightarrow> bool" where
  "isprint c \<longleftrightarrow> 0x20 \<le> c \<and> c < 0x7f"

definition sanitized_char :: "byte \<Rightarrow> string" where
  "sanitized_char b =
     (let c = unat b
      in if c = 0x5c \<or> c = 0x22 then [CHR 0x5c, char_of c]
         else if isprint c then [char_of c]
         else [CHR 0x5c, CHR ''x'', digit (c div 16), digit (c mod 16)])"

definition print_sanitized :: "byte list \<Rightarrow> string" where
  "print_sanitized src = concat (map sanitized_char src)"

text \<open>The characters that leave the tool: printable ones, line feeds and tabs.\<close>

definition safe_char :: "char \<Rightarrow> bool" where
  "safe_char c \<longleftrightarrow> isprint (of_char c) \<or> c = CHR 0x0A \<or> c = CHR 0x09"

abbreviation safe_text :: "string \<Rightarrow> bool" where
  "safe_text s \<equiv> list_all safe_char s"

text \<open>For a literal the test is one of its bits: below 128, and above the control characters or one of the two.\<close>

lemma safe_char_Char [simp]:
  "safe_char (Char b0 b1 b2 b3 b4 b5 b6 b7) \<longleftrightarrow>
     \<not> b7 \<and> ((b5 \<or> b6) \<and> \<not> (b0 \<and> b1 \<and> b2 \<and> b3 \<and> b4 \<and> b5 \<and> b6) \<or>
       b3 \<and> \<not> b2 \<and> \<not> b4 \<and> \<not> b5 \<and> \<not> b6 \<and> (b0 \<noteq> b1))"
  by (cases b0; cases b1; cases b2; cases b3; cases b4; cases b5; cases b6; cases b7)
     (simp_all add: safe_char_def isprint_def)

lemma isprint_digit: "d < 16 \<Longrightarrow> isprint (of_char (digit d))"
  by (drule less_16_cases) (auto simp: digit_def isprint_def)

lemma safe_digit [simp]: "d < 16 \<Longrightarrow> safe_char (digit d)"
  by (simp add: safe_char_def isprint_digit)

lemma safe_num_text: "2 \<le> base \<Longrightarrow> base \<le> 16 \<Longrightarrow> safe_text (num_text base n)"
proof (induction base n rule: num_text.induct)
  case (1 base n)
  have "n mod base < 16"
    using "1.prems" mod_less_divisor [of base n] by linarith
  with 1 show ?case
    by (subst num_text.simps) auto
qed

lemma safe_numbers [simp]: "safe_text (dec n)" "safe_text (hex n)" "safe_text (dec_int i)"
  by (simp_all add: safe_num_text dec_int_def)

lemma safe_dotted_quad [simp]: "safe_text (dotted_quad a)"
  by (simp add: dotted_quad_def Let_def)

lemma safe_words_text [simp]: "safe_text (words_text a b l ws i)"
  by (induction ws arbitrary: i) auto

lemma safe_addrtostr [simp]: "safe_text (addrtostr a)"
  by (simp add: addrtostr_def inet_ntop_def Let_def split: prod.split)

lemma safe_sanitized_char: "safe_text (sanitized_char b)"
proof -
  have "unat b < 256"
    using unsigned_less [of b, where 'a = nat] by simp
  then show ?thesis
    by (auto simp: sanitized_char_def Let_def safe_char_def isprint_def isprint_digit [unfolded isprint_def])
qed

lemma safe_print_sanitized [simp]: "safe_text (print_sanitized src)"
  by (induction src) (simp_all add: print_sanitized_def safe_sanitized_char)

text \<open>Escaping loses nothing: the text can be read back.\<close>

fun unescape :: "string \<Rightarrow> byte list" where
  "unescape [] = []"
| "unescape (c # s) =
     (if c \<noteq> CHR 0x5c then of_char c # unescape s
      else case s of [] \<Rightarrow> []
        | d # s \<Rightarrow>
            if d \<noteq> CHR ''x'' then of_char d # unescape s
            else case s of h # l # s \<Rightarrow> word_of_nat (16 * digit_value h + digit_value l) # unescape s
              | _ \<Rightarrow> [])"

lemma of_char_char_of_byte: "(of_char (char_of (unat b)) :: byte) = b"
proof -
  have "unat b < 256"
    using unsigned_less [of b, where 'a = nat] by simp
  then have "(of_char (char_of (unat b)) :: nat) = unat b"
    by (simp add: of_char_of)
  then have "(word_of_nat (of_char (char_of (unat b))) :: byte) = b"
    by (simp only: of_nat_unat ucast_id)
  then show ?thesis
    by (simp only: of_nat_of_char)
qed

lemma unescape_sanitized_char: "unescape (sanitized_char b @ s) = b # unescape s"
proof -
  have b: "unat b < 256"
    using unsigned_less [of b, where 'a = nat] by simp
  have code: "char_of (unat b) = c \<longleftrightarrow> unat b = of_char c" for c
  proof -
    have "take_bit 8 (unat b) = unat b"
      using b by (simp add: take_bit_nat_eq_self)
    then show ?thesis
      by (simp add: char_of_eq_iff)
  qed
  have "word_of_nat (16 * (unat b div 16) + unat b mod 16) = b"
    by (simp only: mult_div_mod_eq of_nat_unat ucast_id)
  with b show ?thesis
    unfolding sanitized_char_def Let_def
    by (auto simp: isprint_def code of_char_char_of_byte simp del: of_nat_add of_nat_mult)
       (metis of_char_char_of_byte)+
qed

lemma unescape_print_sanitized: "unescape (print_sanitized src) = src"
  by (induction src) (simp_all add: print_sanitized_def unescape_sanitized_char)

end
