(* ===== verification/Radvdump.thy ===== *)
theory Radvdump
  imports Process Recv Text_Output
begin

text \<open>
  The dump tool, \<^verbatim>\<open>radvdump.c\<close>: it prints a received Router Advertisement as a configuration file
  for radvd. The message lies in a buffer of 65535 bytes that is zero behind the received part; the
  tool reads options through struct pointers, so a read may reach behind the option. A read
  outside the buffer is the value \<open>None\<close>. The text that goes to the log is left out.
\<close>

unbundle bit_operations_syntax

subsection \<open>Lines\<close>

definition on_off :: "bool \<Rightarrow> string" where
  "on_off b = (if b then ''on'' else ''off'')"

text \<open>A line that is left out with \<^verbatim>\<open>-e\<close> when its value is the default.\<close>

definition flag_line :: "bool \<Rightarrow> bool \<Rightarrow> string \<Rightarrow> bool \<Rightarrow> string" where
  "flag_line edefs dflt key b =
     (if \<not> edefs \<or> dflt \<noteq> b then key @ '' '' @ on_off b @ '';'' @ nl else [])"

definition num_line :: "bool \<Rightarrow> nat \<Rightarrow> string \<Rightarrow> nat \<Rightarrow> string" where
  "num_line edefs dflt key n =
     (if \<not> edefs \<or> dflt \<noteq> n then key @ '' '' @ dec n @ '';'' @ nl else [])"

text \<open>Lifetimes print the largest value as \<^verbatim>\<open>infinity\<close>.\<close>

definition lifetime_line :: "string \<Rightarrow> u32 \<Rightarrow> string" where
  "lifetime_line key v =
     (if v = 0xffffffff then key @ '' infinity; # (0xffffffff)'' @ nl
      else key @ '' '' @ dec (unat v) @ '';'' @ nl)"

definition print_preferences :: "byte \<Rightarrow> string" where
  "print_preferences p =
     (if p = 0 then ''medium'' else if p = 1 then ''high'' else if p = 2 then []
      else if p = 3 then ''low'' else [])"

definition flag_preference :: "byte \<Rightarrow> byte" where
  "flag_preference flags = drop_bit 3 (flags AND 0x18) AND 0xff"

subsection \<open>Reads\<close>

definition rd_u16 :: "byte list \<Rightarrow> nat \<Rightarrow> u16 option" where
  "rd_u16 m i = map_option from_be (rd_bytes m i 2)"

definition rd_u64 :: "byte list \<Rightarrow> nat \<Rightarrow> u64 option" where
  "rd_u64 m i = map_option from_be (rd_bytes m i 8)"

text \<open>What \<^verbatim>\<open>strnlen\<close> and \<^verbatim>\<open>strncat\<close> read: up to \<open>n\<close> bytes, stopping at a zero byte.\<close>

fun rd_strn :: "byte list \<Rightarrow> nat \<Rightarrow> byte list option" where
  "rd_strn m 0 = Some []"
| "rd_strn [] (Suc n) = None"
| "rd_strn (b # m) (Suc n) = (if b = 0 then Some [] else map_option (Cons b) (rd_strn m n))"

subsection \<open>print\_ff: the header\<close>

definition dump_header :: "bool \<Rightarrow> byte list \<Rightarrow> string option" where
  "dump_header edefs msg = do {
     flags \<leftarrow> rd_byte msg 5;
     reachable \<leftarrow> rd_u32 msg 8;
     retransmit \<leftarrow> rd_u32 msg 12;
     curhoplimit \<leftarrow> rd_byte msg 4;
     router_lifetime \<leftarrow> rd_u16 msg 6;
     Some (
       flag_line edefs False (tab @ ''AdvManagedFlag'') (flags AND ND_RA_FLAG_MANAGED \<noteq> 0) @
       flag_line edefs False (tab @ ''AdvOtherConfigFlag'') (flags AND ND_RA_FLAG_OTHER \<noteq> 0) @
       num_line edefs 0 (tab @ ''AdvReachableTime'') (unat reachable) @
       num_line edefs 0 (tab @ ''AdvRetransTimer'') (unat retransmit) @
       num_line edefs (unat DFLT_AdvCurHopLimit) (tab @ ''AdvCurHopLimit'') (unat curhoplimit) @
       num_line edefs 1800 (tab @ ''AdvDefaultLifetime'') (unat router_lifetime) @
       flag_line edefs False (tab @ ''AdvHomeAgentFlag'') (flags AND ND_RA_FLAG_HOME_AGENT \<noteq> 0) @
       flag_line edefs False (tab @ ''AdvSNACRouterFlag'') (flags AND ND_RA_FLAG_SNAC_ROUTER \<noteq> 0) @
       (if \<not> edefs \<or> flag_preference flags \<noteq> 0
        then tab @ ''AdvDefaultPreference '' @ print_preferences (flag_preference flags) @ '';'' @ nl
        else []))
   }"

subsection \<open>print\_ff: the first pass over the options\<close>

definition dump_home_agent :: "bool \<Rightarrow> byte list \<Rightarrow> string option" where
  "dump_home_agent edefs opt_str = do {
     flags \<leftarrow> rd_byte opt_str 2;
     preference \<leftarrow> rd_u16 opt_str 4;
     lifetime \<leftarrow> rd_u16 opt_str 6;
     Some (tab @ ''AdvHomeAgentInfo on;'' @ nl @
       flag_line edefs False (tab @ ''AdvMobRtrSupportFlag'') (flags AND 0x80 \<noteq> 0) @
       num_line edefs 0 (tab @ ''HomeAgentPreference'') (unat preference) @
       num_line edefs 1800 (tab @ ''HomeAgentLifetime'') (unat lifetime))
   }"

definition ND_OPT_TIMESTAMP :: byte where [simp]: "ND_OPT_TIMESTAMP = 13"

definition dump_option1 :: "bool \<Rightarrow> byte list \<Rightarrow> nat \<Rightarrow> string option" where
  "dump_option1 edefs opt_str optlen = do {
     type \<leftarrow> rd_byte opt_str 0;
     if type = ND_OPT_MTU then do {
       mtu \<leftarrow> rd_u32 opt_str 4;
       Some (num_line edefs 0 (tab @ ''AdvLinkMTU'') (unat mtu))
     }
     else if type = ND_OPT_SOURCE_LINKADDR then
       Some (if \<not> edefs then tab @ ''AdvSourceLLAddress on;'' @ nl else [])
     else if type = ND_OPT_RTR_ADV_INTERVAL then Some (tab @ ''AdvIntervalOpt on;'' @ nl)
     else if type = ND_OPT_HOME_AGENT_INFO then dump_home_agent edefs opt_str
     else if type = ND_OPT_CAPTIVE_PORTAL then do {
       portal \<leftarrow> rd_strn (drop 2 opt_str) (optlen - 2);
       Some (tab @ ''AdvCaptivePortalAPI '' @ [CHR 0x22] @ print_sanitized portal @ [CHR 0x22] @ '';'' @ nl)
     }
     else if type = ND_OPT_TIMESTAMP then do {
       ts \<leftarrow> rd_u64 opt_str 8;
       Some (tab @ ''AdvTimestamp '' @ [CHR 0x22] @ dec (unat (drop_bit 16 ts)) @ '' secs, '' @
         dec (unat (ts AND 0xffff)) @ '' fracs'' @ [CHR 0x22] @ '';'' @ nl)
     }
     else Some []
   }"

subsection \<open>print\_ff: the second pass over the options\<close>

definition dump_prefix :: "bool \<Rightarrow> byte list \<Rightarrow> string option" where
  "dump_prefix edefs opt_str = do {
     plen \<leftarrow> rd_byte opt_str 2;
     flags \<leftarrow> rd_byte opt_str 3;
     valid \<leftarrow> rd_u32 opt_str 4;
     preferred \<leftarrow> rd_u32 opt_str 8;
     addr \<leftarrow> rd_addr opt_str 16;
     Some (nl @ tab @ ''prefix '' @ addrtostr addr @ ''/'' @ dec (unat plen) @ nl @ tab @ ''{'' @ nl @
       (if \<not> edefs \<or> DFLT_AdvValidLifetime \<noteq> valid
        then lifetime_line (tab @ tab @ ''AdvValidLifetime'') valid else []) @
       (if \<not> edefs \<or> DFLT_AdvPreferredLifetime \<noteq> preferred
        then lifetime_line (tab @ tab @ ''AdvPreferredLifetime'') preferred else []) @
       flag_line edefs True (tab @ tab @ ''AdvOnLink'') (flags AND ND_OPT_PI_FLAG_ONLINK \<noteq> 0) @
       flag_line edefs True (tab @ tab @ ''AdvAutonomous'') (flags AND ND_OPT_PI_FLAG_AUTO \<noteq> 0) @
       flag_line edefs False (tab @ tab @ ''AdvRouterAddr'') (flags AND ND_OPT_PI_FLAG_RADDR \<noteq> 0) @
       flag_line edefs False (tab @ tab @ ''AdvDHCPv6PDPreferred'')
         (flags AND ND_OPT_PI_FLAG_DHCPv6_PD_PREF \<noteq> 0) @
       tab @ ''}; # End of prefix definition'' @ nl @ nl)
   }"

text \<open>The preference of the route is left out depending on the flags of the header, as in the code.\<close>

definition dump_route :: "bool \<Rightarrow> byte \<Rightarrow> byte list \<Rightarrow> nat \<Rightarrow> string option" where
  "dump_route edefs ra_flags opt_str optlen = do {
     len \<leftarrow> rd_byte opt_str 1;
     plen \<leftarrow> rd_byte opt_str 2;
     flags \<leftarrow> rd_byte opt_str 3;
     lifetime \<leftarrow> rd_u32 opt_str 4;
     let rest =
       (if \<not> edefs \<or> flag_preference ra_flags \<noteq> 0
        then tab @ tab @ ''AdvRoutePreference '' @ print_preferences (flag_preference flags) @ '';'' @ nl
        else []) @
       lifetime_line (tab @ tab @ ''AdvRouteLifetime'') lifetime @
       tab @ ''}; # End of route definition'' @ nl @ nl;
     if optlen = 8 then Some (nl @ tab @ ''route ::/0'' @ nl @ tab @ ''{'' @ nl @ rest)
     else if len > 3 \<or> len = 0 \<or> plen > 64 \<and> len < 3 \<or> plen > 0 \<and> len < 1
     then Some (''# Invalid Route Information option length '' @ dec (unat len) @ '', per RFC4191 section 2.3 '')
     else do {
       prefix \<leftarrow> (if len > 1 then rd_bytes opt_str 8 ((unat len - 1) * 8) else Some []);
       let addr = from_be (prefix @ replicate (16 - length prefix) 0);
       Some (nl @ tab @ ''route '' @ addrtostr addr @ ''/'' @ dec (unat plen) @ nl @ tab @ ''{'' @ nl @ rest)
     }
   }"

fun dump_rdnss_addrs :: "byte list \<Rightarrow> nat list \<Rightarrow> string option" where
  "dump_rdnss_addrs opt_str [] = Some []"
| "dump_rdnss_addrs opt_str (i # is) = do {
     addr \<leftarrow> rd_addr opt_str (8 + 16 * i);
     rest \<leftarrow> dump_rdnss_addrs opt_str is;
     Some ('' '' @ addrtostr addr @ rest)
   }"

definition dump_rdnss :: "byte list \<Rightarrow> string option" where
  "dump_rdnss opt_str = do {
     len \<leftarrow> rd_byte opt_str 1;
     if len \<ge> 3 \<and> len mod 2 = 1 then do {
       addrs \<leftarrow> dump_rdnss_addrs opt_str [0 ..< (unat len - 1) div 2];
       lifetime \<leftarrow> rd_u32 opt_str 4;
       Some (nl @ tab @ ''RDNSS'' @ addrs @ nl @ tab @ ''{'' @ nl @
         lifetime_line (tab @ tab @ ''AdvRDNSSLifetime'') lifetime @
         tab @ ''}; # End of RDNSS definition'' @ nl @ nl)
     }
     else Some (''# Invalid RDNSS length '' @ dec (unat len) @ '', per RFC8106 section 5.1 '')
   }"

text \<open>
  The array \<^verbatim>\<open>suffix\<close> of 256 characters as the bytes of the string in it. A label is copied without
  a check that it lies inside the option.
\<close>

function dump_dnssl_suffixes :: "byte list \<Rightarrow> nat \<Rightarrow> nat \<Rightarrow> byte list \<Rightarrow> string option" where
  "dump_dnssl_suffixes opt_str limit offset suffix =
     (if limit \<le> offset then Some []
      else do {
        label_len \<leftarrow> rd_byte opt_str (8 + offset);
        if label_len = 0 then
          (if suffix = [] then dump_dnssl_suffixes opt_str limit (Suc offset) []
           else do {
             rest \<leftarrow> dump_dnssl_suffixes opt_str limit (Suc offset) [];
             Some ('' '' @ print_sanitized suffix @ rest)
           })
        else if 256 - length suffix < unat label_len + 2 then Some []
        else do {
          label \<leftarrow> rd_strn (drop (8 + Suc offset) opt_str) (unat label_len);
          dump_dnssl_suffixes opt_str limit (Suc offset + unat label_len)
            (suffix @ (if suffix = [] then [] else [0x2e]) @ label)
        }
      })"
  by pat_completeness auto
termination
  by (relation "measure (\<lambda>(opt_str, limit, offset, suffix). limit - offset)") auto

declare dump_dnssl_suffixes.simps [simp del]

definition dump_dnssl :: "byte list \<Rightarrow> string option" where
  "dump_dnssl opt_str = do {
     len \<leftarrow> rd_byte opt_str 1;
     suffixes \<leftarrow> dump_dnssl_suffixes opt_str ((unat len - 1) * 8) 0 [];
     lifetime \<leftarrow> rd_u32 opt_str 4;
     Some (nl @ tab @ ''DNSSL'' @ suffixes @ nl @ tab @ ''{'' @ nl @
       lifetime_line (tab @ tab @ ''AdvDNSSLLifetime'') lifetime @
       tab @ ''}; # End of DNSSL definition'' @ nl @ nl)
   }"

definition pref64_size :: "u16 \<Rightarrow> int" where
  "pref64_size code =
     (if code = 0 then 96 else if code = 1 then 64 else if code = 2 then 56 else if code = 3 then 48
      else if code = 4 then 40 else if code = 5 then 32 else -1)"

definition dump_pref64 :: "byte list \<Rightarrow> nat \<Rightarrow> string option" where
  "dump_pref64 opt_str optlen =
     (if optlen \<noteq> 16 then Some []
      else do {
        lifetime_preflen \<leftarrow> rd_u16 opt_str 2;
        prefix \<leftarrow> rd_bytes opt_str 4 12;
        Some (nl @ tab @ ''nat64prefix '' @ addrtostr (from_be (prefix @ replicate 4 0)) @ ''/'' @
          dec_int (pref64_size (lifetime_preflen AND 7)) @ nl @ tab @ ''{'' @ nl @
          tab @ tab @ ''AdvValidLifetime '' @ dec (unat (lifetime_preflen AND 0xFFF8)) @ '';'' @ nl @
          tab @ ''}; # End of nat64prefix definition'' @ nl @ nl)
      })"

definition dump_option2 :: "bool \<Rightarrow> byte \<Rightarrow> byte list \<Rightarrow> nat \<Rightarrow> string option" where
  "dump_option2 edefs ra_flags opt_str optlen = do {
     type \<leftarrow> rd_byte opt_str 0;
     if type = ND_OPT_PREFIX_INFORMATION then dump_prefix edefs opt_str
     else if type = ND_OPT_ROUTE_INFORMATION then dump_route edefs ra_flags opt_str optlen
     else if type = ND_OPT_RDNSS_INFORMATION then dump_rdnss opt_str
     else if type = ND_OPT_DNSSL_INFORMATION then dump_dnssl opt_str
     else if type = ND_OPT_PREF64 then dump_pref64 opt_str optlen
     else Some []
   }"

subsection \<open>print\_ff\<close>

text \<open>
  Both passes walk the options in the same way; the flag says that the walk ended at an option that
  is longer than the rest of the message, which ends the whole output.
\<close>

function dump_loop :: "(byte list \<Rightarrow> nat \<Rightarrow> string option) \<Rightarrow> byte list \<Rightarrow> int \<Rightarrow> (string \<times> bool) option" where
  "dump_loop dump_option opt_str len =
     (if len < 2 then Some ([], False)
      else do {
        l \<leftarrow> rd_byte opt_str 1;
        let optlen = unat l * 8;
        if optlen = 0 then Some ([], False)
        else if int optlen > len then Some ([], True)
        else do {
          text \<leftarrow> dump_option opt_str optlen;
          (rest, end_of_interface) \<leftarrow> dump_loop dump_option (drop optlen opt_str) (len - int optlen);
          Some (text @ rest, end_of_interface)
        }
      })"
  by pat_completeness auto
termination
proof (relation "measure (\<lambda>(dump_option, opt_str, len). nat len)", goal_cases)
  case (2 dump_option opt_str len l optlen t)
  then have "0 < optlen" "int optlen \<le> len" by simp_all
  then show ?case by simp
qed simp

declare dump_loop.simps [simp del]

definition dump_preamble :: "string \<Rightarrow> in6_addr \<Rightarrow> string \<Rightarrow> string" where
  "dump_preamble VERSION addr if_name =
     ''#'' @ nl @ ''# radvd configuration generated by radvdump '' @ VERSION @ nl @
     ''# based on Router Advertisement from '' @ addrtostr addr @ nl @
     ''# received by interface '' @ if_name @ nl @
     ''#'' @ nl @ nl @ ''interface '' @ if_name @ nl @ ''{'' @ nl @ tab @ ''AdvSendAdvert on;'' @ nl @
     tab @ ''# Note: {Min,Max}RtrAdvInterval cannot be obtained with radvdump'' @ nl"

definition dump_closing :: string where
  "dump_closing = ''}; # End of interface definition'' @ nl"

definition print_ff :: "string \<Rightarrow> kernel \<Rightarrow> byte list \<Rightarrow> int \<Rightarrow> in6_addr \<Rightarrow> u32 \<Rightarrow> bool \<Rightarrow> string option" where
  "print_ff VERSION k msg len addr ifindex edefs = do {
     let if_name = (case if_indextoname k ifindex of Some n \<Rightarrow> n | None \<Rightarrow> []);
     header \<leftarrow> dump_header edefs msg;
     ra_flags \<leftarrow> rd_byte msg 5;
     let start = dump_preamble VERSION addr if_name @ header;
     if len = 16 then Some start
     else do {
       (first, end_of_interface) \<leftarrow> dump_loop (dump_option1 edefs) (drop 16 msg) (len - 16);
       if end_of_interface then Some (start @ first @ dump_closing)
       else do {
         (second, _) \<leftarrow> dump_loop (dump_option2 edefs ra_flags) (drop 16 msg) (len - 16);
         Some (start @ first @ second @ dump_closing)
       }
     }
   }"

subsection \<open>main\<close>

text \<open>The buffer is cleared before every call.\<close>

definition recv_buffer :: "recvmsg_result \<Rightarrow> byte list" where
  "recv_buffer r =
     (let d = take (nat (rm_len r)) (rm_data r) in d @ replicate (MSG_SIZE_RECV - length d) 0)"

datatype dump_step = Dump_exit | Dump_text string

text \<open>
  One turn of the loop. Every unexpected message ends the tool; without packet information it reads
  through a NULL pointer, which is \<open>None\<close> as well.
\<close>

definition radvdump_step :: "string \<Rightarrow> kernel \<Rightarrow> bool \<Rightarrow> recvmsg_result \<Rightarrow> dump_step option" where
  "radvdump_step VERSION k edefs r =
     (let (len, pkt_info, hoplimit) = recv_rs_ra r None 0; msg = recv_buffer r
      in if len > 0 then
           if len < 8 then Some Dump_exit
           else do {
             type \<leftarrow> rd_byte msg 0;
             if type \<noteq> ND_ROUTER_SOLICIT \<and> type \<noteq> ND_ROUTER_ADVERT then Some Dump_exit
             else do {
               ifindex \<leftarrow> pkt_info;
               if type = ND_ROUTER_SOLICIT then Some (Dump_text [])
               else map_option Dump_text (print_ff VERSION k msg len (rm_addr r) (word_of_int ifindex) edefs)
             }
           }
         else Some Dump_exit)"

fun radvdump_main :: "string \<Rightarrow> kernel \<Rightarrow> bool \<Rightarrow> recvmsg_result list \<Rightarrow> string option" where
  "radvdump_main VERSION k edefs [] = Some []"
| "radvdump_main VERSION k edefs (r # rs) = do {
     s \<leftarrow> radvdump_step VERSION k edefs r;
     (case s of
        Dump_exit \<Rightarrow> Some []
      | Dump_text t \<Rightarrow> map_option (\<lambda>out. t @ out) (radvdump_main VERSION k edefs rs))
   }"

subsection \<open>Only safe characters leave the tool\<close>

named_theorems dump_safe \<open>the text a part of the output consists of is safe\<close>

lemma safe_lines [dump_safe, simp]:
  "safe_text key \<Longrightarrow> safe_text (flag_line edefs dflt key b)"
  "safe_text key \<Longrightarrow> safe_text (num_line edefs d key n)"
  "safe_text key \<Longrightarrow> safe_text (lifetime_line key v)"
  "safe_text (print_preferences p)"
  by (simp_all add: flag_line_def num_line_def lifetime_line_def print_preferences_def on_off_def)

text \<open>What an operation returns is safe, if it returns.\<close>

abbreviation safe_result :: "string option \<Rightarrow> bool" where
  "safe_result r \<equiv> pred_option safe_text r"

lemma safe_bind: "(\<And>x. m = Some x \<Longrightarrow> safe_result (f x)) \<Longrightarrow> safe_result (m \<bind> f)"
  by (cases m) simp_all

lemma safe_if: "(b \<Longrightarrow> safe_result x) \<Longrightarrow> (\<not> b \<Longrightarrow> safe_result y) \<Longrightarrow> safe_result (if b then x else y)"
  by simp

lemma safe_Some: "safe_text t \<Longrightarrow> safe_result (Some t)"
  by simp

lemmas safe_intros = safe_bind safe_if safe_Some

lemma safe_resultD: "safe_result r \<Longrightarrow> r = Some t \<Longrightarrow> safe_text t"
  by simp

lemma dump_header_safe: "safe_result (dump_header edefs msg)"
  unfolding dump_header_def by (intro safe_intros) simp

lemma dump_option1_safe: "safe_result (dump_option1 edefs opt_str optlen)"
  unfolding dump_option1_def dump_home_agent_def by (intro safe_intros) simp_all

lemma dump_prefix_safe: "safe_result (dump_prefix edefs opt_str)"
  unfolding dump_prefix_def by (intro safe_intros) simp

lemma dump_route_safe: "safe_result (dump_route edefs ra_flags opt_str optlen)"
  unfolding dump_route_def Let_def by (intro safe_intros) simp_all

lemma dump_rdnss_addrs_safe: "safe_result (dump_rdnss_addrs opt_str is)"
  by (induction opt_str "is" rule: dump_rdnss_addrs.induct)
     (auto intro!: safe_bind dest: safe_resultD)

lemma dump_rdnss_safe: "safe_result (dump_rdnss opt_str)"
  unfolding dump_rdnss_def
  by (intro safe_intros) (simp_all add: safe_resultD [OF dump_rdnss_addrs_safe])

lemma dump_dnssl_suffixes_safe: "safe_result (dump_dnssl_suffixes opt_str limit offset suffix)"
proof (induction opt_str limit offset suffix rule: dump_dnssl_suffixes.induct)
  case (1 opt_str limit offset suffix)
  show ?case
    by (subst dump_dnssl_suffixes.simps) (intro safe_intros "1.IH"; (simp add: safe_resultD [OF "1.IH"(2)])?)
qed

lemma dump_dnssl_safe: "safe_result (dump_dnssl opt_str)"
  unfolding dump_dnssl_def
  by (intro safe_intros) (simp add: safe_resultD [OF dump_dnssl_suffixes_safe])

lemma dump_pref64_safe: "safe_result (dump_pref64 opt_str optlen)"
  unfolding dump_pref64_def by (intro safe_intros) simp_all

lemma dump_option2_safe: "safe_result (dump_option2 edefs ra_flags opt_str optlen)"
  unfolding dump_option2_def
  by (intro safe_intros dump_prefix_safe dump_route_safe dump_rdnss_safe dump_dnssl_safe dump_pref64_safe) simp

subsection \<open>Reads within a longer buffer, and with enough of it\<close>

text \<open>\<open>y\<close> returns what \<open>x\<close> returns, if that returns.\<close>

definition opt_extends :: "'a option \<Rightarrow> 'a option \<Rightarrow> bool" where
  "opt_extends x y \<longleftrightarrow> (\<forall>t. x = Some t \<longrightarrow> y = Some t)"

lemma extends_refl: "opt_extends x x"
  by (simp add: opt_extends_def)

lemma extends_bind: "opt_extends x y \<Longrightarrow> (\<And>t. opt_extends (f t) (g t)) \<Longrightarrow> opt_extends (x \<bind> f) (y \<bind> g)"
  by (cases x) (simp_all add: opt_extends_def)

lemma extends_if: "opt_extends x x' \<Longrightarrow> opt_extends y y' \<Longrightarrow> opt_extends (if b then x else y) (if b then x' else y')"
  by simp

lemma extends_map: "opt_extends x y \<Longrightarrow> opt_extends (map_option f x) (map_option f y)"
  by (cases x) (simp_all add: opt_extends_def)

lemma rd_byte_extends: "opt_extends (rd_byte m i) (rd_byte (m @ r) i)"
  by (simp add: opt_extends_def rd_byte_def nth_append)

lemma rd_bytes_extends: "opt_extends (rd_bytes m i n) (rd_bytes (m @ r) i n)"
  by (simp add: opt_extends_def rd_bytes_def)

lemma rd_word_extends:
  "opt_extends (rd_u16 m i) (rd_u16 (m @ r) i)" "opt_extends (rd_u32 m i) (rd_u32 (m @ r) i)"
  "opt_extends (rd_u64 m i) (rd_u64 (m @ r) i)" "opt_extends (rd_addr m i) (rd_addr (m @ r) i)"
  by (simp_all add: rd_u16_def rd_u32_def rd_u64_def rd_addr_def extends_map rd_bytes_extends)

lemma rd_strn_extends: "opt_extends (rd_strn m n) (rd_strn (m @ r) n)"
  by (induction m n rule: rd_strn.induct) (simp_all add: extends_map extends_refl, simp add: opt_extends_def)

lemma rd_strn_drop_extends: "opt_extends (rd_strn (drop i m) n) (rd_strn (drop i (m @ r)) n)"
  using rd_strn_extends [of "drop i m" n "drop (i - length m) r"] by simp

lemmas rd_extends = rd_byte_extends rd_bytes_extends rd_word_extends rd_strn_drop_extends
lemmas extends_intros = rd_extends extends_bind extends_if extends_refl

lemma dump_rdnss_addrs_extends: "opt_extends (dump_rdnss_addrs m is) (dump_rdnss_addrs (m @ r) is)"
  by (induction "is") (auto intro!: extends_intros)

lemma dump_dnssl_suffixes_extends:
  "opt_extends (dump_dnssl_suffixes m limit offset suffix) (dump_dnssl_suffixes (m @ r) limit offset suffix)"
proof (induction "limit - offset" arbitrary: offset suffix rule: less_induct)
  case less
  then have IH: "\<not> limit \<le> offset \<Longrightarrow> offset < offset' \<Longrightarrow>
      opt_extends (dump_dnssl_suffixes m limit offset' s) (dump_dnssl_suffixes (m @ r) limit offset' s)" for offset' s
    by simp
  show ?case
  proof (cases "limit \<le> offset")
    case True
    then show ?thesis by (simp add: dump_dnssl_suffixes.simps extends_refl)
  next
    case False
    show ?thesis
      by (subst (1 2) dump_dnssl_suffixes.simps) (intro extends_intros IH [OF False]; simp)
  qed
qed

lemmas dump_option_defs = dump_option1_def dump_home_agent_def dump_option2_def dump_prefix_def
  dump_route_def dump_rdnss_def dump_dnssl_def dump_pref64_def

lemma dump_option1_extends: "opt_extends (dump_option1 edefs m n) (dump_option1 edefs (m @ r) n)"
  unfolding dump_option_defs by (intro extends_intros)

lemma dump_option2_extends: "opt_extends (dump_option2 edefs fl m n) (dump_option2 edefs fl (m @ r) n)"
  unfolding dump_option_defs Let_def
  by (intro extends_intros dump_rdnss_addrs_extends dump_dnssl_suffixes_extends)

lemma rd_total:
  "i < length m \<Longrightarrow> rd_byte m i \<noteq> None"
  "i + n \<le> length m \<Longrightarrow> rd_bytes m i n \<noteq> None"
  "i + 2 \<le> length m \<Longrightarrow> rd_u16 m i \<noteq> None"
  "i + 4 \<le> length m \<Longrightarrow> rd_u32 m i \<noteq> None"
  "i + 8 \<le> length m \<Longrightarrow> rd_u64 m i \<noteq> None"
  "i + 16 \<le> length m \<Longrightarrow> rd_addr m i \<noteq> None"
  by (auto simp: rd_byte_def rd_bytes_def rd_u16_def rd_u32_def rd_u64_def rd_addr_def)

lemma rd_strn_total: "n \<le> length m \<Longrightarrow> rd_strn m n \<noteq> None"
  by (induction m n rule: rd_strn.induct) auto

lemma bind_total: "m \<noteq> None \<Longrightarrow> (\<And>x. m = Some x \<Longrightarrow> f x \<noteq> None) \<Longrightarrow> m \<bind> f \<noteq> None"
  by auto

lemma if_total: "(b \<Longrightarrow> x \<noteq> None) \<Longrightarrow> (\<not> b \<Longrightarrow> y \<noteq> None) \<Longrightarrow> (if b then x else y) \<noteq> None"
  by simp

lemma dump_rdnss_addrs_total:
  "(\<And>i. i \<in> set is \<Longrightarrow> 24 + 16 * i \<le> length m) \<Longrightarrow> dump_rdnss_addrs m is \<noteq> None"
proof (induction m "is" rule: dump_rdnss_addrs.induct)
  case (2 m i "is")
  then have "24 + 16 * i \<le> length m" and "dump_rdnss_addrs m is \<noteq> None"
    by simp_all
  then show ?case
    by (auto intro!: bind_total rd_total)
qed simp

lemma dump_dnssl_suffixes_total:
  "8 + limit + 254 \<le> length m \<Longrightarrow> dump_dnssl_suffixes m limit offset suffix \<noteq> None"
proof (induction m limit offset suffix rule: dump_dnssl_suffixes.induct)
  case (1 m limit offset suffix)
  have label: "rd_strn (drop (8 + Suc offset) m) (unat l) \<noteq> None"
    if "\<not> limit \<le> offset" "\<not> 256 - length suffix < unat l + 2" for l :: byte
    using that "1.prems" by (intro rd_strn_total) auto
  show ?case
  proof (cases "limit \<le> offset")
    case True
    then show ?thesis by (simp add: dump_dnssl_suffixes.simps)
  next
    case False
    then have "rd_byte m (8 + offset) \<noteq> None"
      using "1.prems" by (intro rd_total) simp
    with False show ?thesis
      by (subst dump_dnssl_suffixes.simps)
         (intro bind_total if_total "1.IH" label "1.prems"; simp)
  qed
qed

lemma dump_option1_total:
  assumes "8 \<le> n" and "n + 254 \<le> length m"
  shows "dump_option1 edefs m n \<noteq> None"
  unfolding dump_option1_def dump_home_agent_def
  using assms by (intro bind_total if_total rd_total rd_strn_total) auto

lemma dump_prefix_total: "32 \<le> length m \<Longrightarrow> dump_prefix edefs m \<noteq> None"
  unfolding dump_prefix_def by (intro bind_total rd_total) simp_all

lemma dump_route_total: "24 \<le> length m \<Longrightarrow> dump_route edefs fl m n \<noteq> None"
proof -
  assume m: "24 \<le> length m"
  have "8 + (unat l - 1) * 8 \<le> length m" if "\<not> (3 < l \<or> b)" for l :: byte and b
  proof -
    have "unat l \<le> 3"
      using that by (simp add: not_less word_le_nat_alt)
    with m show ?thesis by simp
  qed
  with m show ?thesis
    unfolding dump_route_def Let_def by (intro bind_total if_total rd_total) (simp_all, blast?)
qed

lemma dump_rdnss_total: "8 \<le> n \<Longrightarrow> n = unat (m ! 1) * 8 \<Longrightarrow> n \<le> length m \<Longrightarrow> dump_rdnss m \<noteq> None"
proof -
  assume n: "8 \<le> n" "n = unat (m ! 1) * 8" "n \<le> length m"
  then have "rd_byte m 1 = Some (m ! 1)"
    by (simp add: rd_byte_def)
  moreover have "24 + 16 * i \<le> length m" if "i \<in> set [0 ..< (unat (m ! 1) - 1) div 2]" for i
    using that n by auto
  ultimately show ?thesis
    unfolding dump_rdnss_def using n
    by (intro bind_total if_total rd_total dump_rdnss_addrs_total) simp_all
qed

lemma dump_dnssl_total: "8 \<le> n \<Longrightarrow> n = unat (m ! 1) * 8 \<Longrightarrow> n + 254 \<le> length m \<Longrightarrow> dump_dnssl m \<noteq> None"
proof -
  assume n: "8 \<le> n" "n = unat (m ! 1) * 8" "n + 254 \<le> length m"
  then have "rd_byte m 1 = Some (m ! 1)"
    by (simp add: rd_byte_def)
  with n show ?thesis
    unfolding dump_dnssl_def by (intro bind_total rd_total dump_dnssl_suffixes_total) auto
qed

lemma dump_option2_total:
  assumes "8 \<le> n" and "n = unat (m ! 1) * 8" and "n + 254 \<le> length m"
  shows "dump_option2 edefs fl m n \<noteq> None"
  unfolding dump_option2_def dump_pref64_def
  using assms
  by (intro bind_total if_total rd_total dump_prefix_total dump_route_total
      dump_rdnss_total [OF assms(1,2)] dump_dnssl_total [OF assms]) auto

lemma dump_loop_step:
  assumes "rd_byte m 1 = Some l" and "n = unat l * 8" and "0 < n" and "int n \<le> len"
  shows "dump_loop f m len =
    f m n \<bind> (\<lambda>t. dump_loop f (drop n m) (len - int n) \<bind> (\<lambda>(rest, e). Some (t @ rest, e)))"
proof -
  have "8 \<le> n"
    using assms(2,3) by (simp del: of_nat_mult)
  then have "(len < 2) = False" "(n = 0) = False" "(len < int n) = False"
    using assms(4) by auto
  then show ?thesis
    by (subst dump_loop.simps)
       (simp only: assms(1) assms(2) [symmetric] bind.bind_lunit Let_def if_False)
qed

text \<open>
  The contract of a pass over the options: what it prints for an option is safe, depends on the
  bytes it reads only, and it can print any option behind which 254 more bytes lie in the buffer.
\<close>

locale dump_pass =
  fixes dump_option :: "byte list \<Rightarrow> nat \<Rightarrow> string option"
  assumes option_safe: "dump_option m n = Some t \<Longrightarrow> safe_text t"
    and option_extends: "opt_extends (dump_option m n) (dump_option (m @ r) n)"
    and option_total: "8 \<le> n \<Longrightarrow> n = unat (m ! 1) * 8 \<Longrightarrow> n + 254 \<le> length m \<Longrightarrow> dump_option m n \<noteq> None"
begin

lemma loop_safe: "dump_loop dump_option m len = Some (t, e) \<Longrightarrow> safe_text t"
proof (induction "nat len" arbitrary: m len t e rule: less_induct)
  case less
  from less.prems consider "t = []"
    | l n where "rd_byte m 1 = Some l" "n = unat l * 8" "0 < n" "int n \<le> len"
    by (subst (asm) dump_loop.simps) (auto simp: bind_eq_Some_conv Let_def split: if_split_asm)
  then show ?case
  proof cases
    case 2
    from less.prems [unfolded dump_loop_step [OF 2]] obtain t1 t2 where
      t: "dump_option m n = Some t1" "dump_loop dump_option (drop n m) (len - int n) = Some (t2, e)" "t = t1 @ t2"
      by (auto simp: bind_eq_Some_conv)
    with less.hyps [OF _ t(2)] option_safe [OF t(1)] 2(3,4) show ?thesis
      by simp
  qed simp
qed

lemma loop_total: "len + 254 \<le> int (length m) \<Longrightarrow> \<exists>r. dump_loop dump_option m len = Some r"
proof (induction "nat len" arbitrary: m len rule: less_induct)
  case less
  show ?case
  proof (cases "len < 2 \<or> m ! 1 = 0 \<or> len < 8 * uint (m ! 1)")
    case True
    then show ?thesis
      using less.prems by (subst dump_loop.simps) (auto simp: rd_byte_def Let_def)
  next
    case False
    define n where "n = unat (m ! 1) * 8"
    have n: "0 < n" "int n \<le> len"
      using False by (auto simp: n_def unat_gt_0)
    then have "8 \<le> n"
      by (simp add: n_def)
    have "n + 254 \<le> length m"
      using n less.prems by linarith
    from option_total [OF \<open>8 \<le> n\<close> n_def this] obtain t where t: "dump_option m n = Some t"
      by blast
    have "len - int n + 254 \<le> int (length (drop n m))"
      using less.prems n by simp
    from less.hyps [OF _ this] n obtain r where "dump_loop dump_option (drop n m) (len - int n) = Some r"
      by auto
    with t show ?thesis
      using n False less.prems
      by (subst dump_loop_step [OF _ n_def n]) (auto simp: rd_byte_def split: prod.split)
  qed
qed

text \<open>A message made of well-formed options is printed option by option.\<close>

lemma loop_append:
  assumes "list_all2 (\<lambda>opt t. nd_opt_wf opt \<and> dump_option opt (length opt) = Some t) opts ts" and "0 \<le> l"
  shows "dump_loop dump_option (concat opts @ r) (int (length (concat opts)) + l) =
    dump_loop dump_option r l \<bind> (\<lambda>(t, e). Some (concat ts @ t, e))"
  using assms(1)
proof (induction opts ts rule: list_all2_induct)
  case Nil
  then show ?case by (cases "dump_loop dump_option r l") auto
next
  case (Cons opt opts t ts)
  let ?m = "opt @ concat opts @ r"
  have wf: "8 \<le> length opt" "length opt = unat (opt ! 1) * 8" "?m ! 1 = opt ! 1"
    using Cons.hyps by (auto simp: nd_opt_wf_def nth_append unat_gt_0 mult.commute)
  have "dump_option ?m (length opt) = Some t"
    using Cons.hyps option_extends [of opt "length opt" "concat opts @ r"] by (simp add: opt_extends_def)
  moreover have "rd_byte ?m 1 = Some (opt ! 1)"
    using wf by (simp add: rd_byte_def)
  ultimately have "dump_loop dump_option ?m (int (length (concat (opt # opts))) + l) =
      dump_loop dump_option (concat opts @ r) (int (length (concat opts)) + l) \<bind>
        (\<lambda>(rest, e). Some (t @ rest, e))"
    using wf(1) assms(2) by (subst dump_loop_step [OF _ wf(2)]) auto
  with Cons.IH show ?case
    by (cases "dump_loop dump_option r l") auto
qed

lemma loop_options:
  assumes "list_all2 (\<lambda>opt t. nd_opt_wf opt \<and> dump_option opt (length opt) = Some t) opts ts"
  shows "dump_loop dump_option (concat opts @ r) (int (length (concat opts))) = Some (concat ts, False)"
  using loop_append [OF assms, of 0 r] by (simp add: dump_loop.simps [of _ _ 0])

end

interpretation pass1: dump_pass "dump_option1 edefs" for edefs
  by unfold_locales
     (rule safe_resultD [OF dump_option1_safe] dump_option1_extends dump_option1_total; assumption)+

interpretation pass2: dump_pass "dump_option2 edefs ra_flags" for edefs ra_flags
  by unfold_locales
     (rule safe_resultD [OF dump_option2_safe] dump_option2_extends dump_option2_total; assumption)+

subsection \<open>The whole output\<close>

lemma print_ff_safe:
  assumes "print_ff VERSION k msg len addr ifindex edefs = Some out"
    and "safe_text VERSION" and "\<And>i n. if_indextoname k i = Some n \<Longrightarrow> safe_text n"
  shows "safe_text out"
proof -
  have name: "safe_text (case if_indextoname k ifindex of Some n \<Rightarrow> n | None \<Rightarrow> [])"
    using assms(3) by (simp split: option.split)
  have pre: "safe_text (dump_preamble VERSION addr (case if_indextoname k ifindex of Some n \<Rightarrow> n | None \<Rightarrow> []))"
    using assms(2) name by (simp add: dump_preamble_def)
  have "safe_text dump_closing"
    by (simp add: dump_closing_def)
  with pre have "safe_result (print_ff VERSION k msg len addr ifindex edefs)"
    unfolding print_ff_def Let_def
    by (auto intro!: safe_bind simp: safe_resultD [OF dump_header_safe] pass1.loop_safe pass2.loop_safe)
  with assms(1) show ?thesis by simp
qed

text \<open>Every message that leaves 254 bytes of the buffer free is printed, whatever it holds.\<close>

lemma print_ff_total:
  assumes "16 \<le> length msg" and "len + 254 \<le> int (length msg)"
  shows "\<exists>out. print_ff VERSION k msg len addr ifindex edefs = Some out"
proof -
  have "len - 16 + 254 \<le> int (length (drop 16 msg))"
    using assms by simp
  note loops = pass1.loop_total [OF this, of edefs] pass2.loop_total [OF this, of edefs]
  have header: "dump_header edefs msg \<noteq> None" "rd_byte msg 5 \<noteq> None"
    unfolding dump_header_def using assms(1) by (intro bind_total rd_total; simp)+
  obtain t1 e where 1: "dump_loop (dump_option1 edefs) (drop 16 msg) (len - 16) = Some (t1, e)"
    using loops(1) by auto
  obtain g where 2: "\<And>fl. dump_loop (dump_option2 edefs fl) (drop 16 msg) (len - 16) = Some (g fl)"
    using loops(2) by metis
  have "print_ff VERSION k msg len addr ifindex edefs \<noteq> None"
    unfolding print_ff_def Let_def
    using header by (intro bind_total if_total) (auto simp: 1 2 split: prod.split)
  then show ?thesis by blast
qed

lemma radvdump_main_safe:
  assumes "safe_text VERSION" and "\<And>i n. if_indextoname k i = Some n \<Longrightarrow> safe_text n"
  shows "radvdump_main VERSION k edefs rs = Some out \<Longrightarrow> safe_text out"
proof (induction rs arbitrary: out)
  case (Cons r rs)
  have "safe_text t" if "radvdump_step VERSION k edefs r = Some (Dump_text t)" for t
    using that assms
    by (auto simp: radvdump_step_def Let_def bind_eq_Some_conv split: if_split_asm prod.split_asm
        dest: print_ff_safe [of VERSION k])
  note step = this
  from Cons.prems obtain s where s: "radvdump_step VERSION k edefs r = Some s"
    "(case s of Dump_exit \<Rightarrow> Some [] | Dump_text t \<Rightarrow> map_option (\<lambda>out. t @ out) (radvdump_main VERSION k edefs rs)) = Some out"
    by (auto simp: bind_eq_Some_conv)
  show ?case
  proof (cases s)
    case Dump_exit
    with s(2) show ?thesis by simp
  next
    case (Dump_text t)
    with s(2) obtain rest where "radvdump_main VERSION k edefs rs = Some rest" "out = t @ rest"
      by auto
    with Cons.IH [of rest] step [of t] s(1) Dump_text show ?thesis by simp
  qed
qed simp

lemma recv_buffer_length:
  "int (length (rm_data r)) = rm_len r \<Longrightarrow> rm_len r \<le> 65535 \<Longrightarrow> length (recv_buffer r) = 65535"
  by (simp add: recv_buffer_def Let_def)

lemma radvdump_step_total:
  assumes "int (length (rm_data r)) = rm_len r" and "rm_len r \<le> 65281"
    and "Cmsg_PKTINFO 36 i \<in> set (rm_cmsgs r)"
  shows "\<exists>s. radvdump_step VERSION k edefs r = Some s"
proof -
  obtain len p h where r: "recv_rs_ra r None 0 = (len, p, h)"
    by (cases "recv_rs_ra r None 0") auto
  have pinfo: "p \<noteq> None" if "recv_cmsgs cs q x = (False, p, h)" "Cmsg_PKTINFO 36 i \<in> set cs \<or> q \<noteq> None" for cs q x
    using that by (induction cs q x rule: recv_cmsgs.induct) (auto split: if_split_asm)
  have b: "length (recv_buffer r) = 65535"
    using assms(1,2) by (intro recv_buffer_length) simp_all
  show ?thesis
  proof (cases "len \<le> 0")
    case True
    then show ?thesis by (simp add: radvdump_step_def r)
  next
    case False
    then have l: "len = rm_len r" and p: "p \<noteq> None"
      using r pinfo [of "rm_cmsgs r" None 255] assms(3)
      by (auto simp: recv_rs_ra_def Let_def split: if_split_asm prod.split_asm)
    have "\<exists>out. print_ff VERSION k (recv_buffer r) len (rm_addr r) j edefs = Some out" for j
      using b assms(2) l by (intro print_ff_total) simp_all
    then have "print_ff VERSION k (recv_buffer r) len (rm_addr r) j edefs \<noteq> None" for j
      by auto
    moreover have "rd_byte (recv_buffer r) 0 \<noteq> None"
      using b by (intro rd_total) simp
    ultimately show ?thesis
      using p by (auto simp: radvdump_step_def r Let_def)
  qed
qed

text \<open>The prefix option is read without a look at its length, which may reach behind the buffer.\<close>

lemma dump_prefix_short: "length m < 32 \<Longrightarrow> dump_prefix edefs m = None"
proof -
  assume "length m < 32"
  then have "rd_addr m 16 = None"
    by (simp add: rd_addr_def rd_bytes_def)
  then show ?thesis
    unfolding dump_prefix_def
    by (cases "rd_byte m 2"; cases "rd_byte m 3"; cases "rd_u32 m 4"; cases "rd_u32 m 8"; simp del: rd_simps)
qed

text \<open>An advertisement of 65528 bytes: options of an unknown type, and a prefix option of 8 bytes.\<close>

definition filler_options :: "byte list list" where
  "filler_options = replicate 32 ([200, 255] @ replicate 2038 0) @ [[200, 28] @ replicate 222 0]"

definition overread_msg :: "byte list" where
  "overread_msg = replicate 16 0 @ concat filler_options @ [3, 1, 0, 0, 0, 0, 0, 0]"

lemma length_filler: "length (concat filler_options) = 65504"
  by (simp add: filler_options_def length_concat sum_list_replicate)

lemma filler_printed:
  assumes "\<And>m n. rd_byte m 0 = Some 200 \<Longrightarrow> f m n = Some []"
  shows "list_all2 (\<lambda>opt t. nd_opt_wf opt \<and> f opt (length opt) = Some t) filler_options (replicate 33 [])"
proof -
  have f: "f opt n = Some [] \<and> nd_opt_wf opt" if "opt \<in> set filler_options" for opt n
    using that assms by (auto simp: filler_options_def nd_opt_wf_def)
  moreover have "length filler_options = 33"
    by (simp add: filler_options_def)
  ultimately show ?thesis
    by (simp add: list_all2_conv_all_nth)
qed

lemma print_ff_overread:
  "print_ff VERSION k (overread_msg @ replicate 7 0) 65528 addr ifindex edefs = None"
proof -
  let ?r = "[3, 1, 0, 0, 0, 0, 0, 0] @ replicate 7 (0 :: byte)"
  have m: "drop 16 (overread_msg @ replicate 7 0) = concat filler_options @ ?r"
    by (simp add: overread_msg_def)
  have f1: "list_all2 (\<lambda>opt t. nd_opt_wf opt \<and> dump_option1 edefs opt (length opt) = Some t) filler_options (replicate 33 [])"
    by (rule filler_printed) (simp add: dump_option1_def del: rd_simps)
  have f2: "list_all2 (\<lambda>opt t. nd_opt_wf opt \<and> dump_option2 edefs fl opt (length opt) = Some t) filler_options (replicate 33 [])" for fl
    by (rule filler_printed) (simp add: dump_option2_def del: rd_simps)
  have r: "rd_byte ?r 1 = Some 1" "rd_byte ?r 0 = Some 3" "length ?r < 32"
    by simp_all
  have "dump_loop (dump_option1 edefs) ?r 8 = Some ([], False)"
    using r by (subst dump_loop_step [OF r(1), of 8]) (simp_all add: dump_option1_def dump_loop.simps del: rd_simps)
  from pass1.loop_append [OF f1, where l = 8 and r = ?r, unfolded this length_filler]
  have 1: "dump_loop (dump_option1 edefs) (concat filler_options @ ?r) 65512 = Some ([], False)"
    by simp
  have "dump_loop (dump_option2 edefs fl) ?r 8 = None" for fl
    using r by (subst dump_loop_step [OF r(1), of 8]) (simp_all add: dump_option2_def dump_prefix_short del: rd_simps)
  with pass2.loop_append [OF f2, where l = 8 and r = ?r, unfolded length_filler]
  have 2: "dump_loop (dump_option2 edefs fl) (concat filler_options @ ?r) 65512 = None" for fl
    by simp
  have len: "(65528 :: int) - 16 = 65512" "((65528 :: int) = 16) = False"
    by simp_all
  show ?thesis
    unfolding print_ff_def Let_def m
    by (simp only: len 1 2 bind.bind_lunit bind.bind_lzero prod.case if_False bind_rzero)
qed

end
