(* ===== verification/Dump_Text.thy ===== *)
theory Dump_Text
  imports Radvdump
begin

text \<open>
  What \<^verbatim>\<open>radvdump\<close> prints for an advertisement that radvd built: the specification is the text of
  the configuration, written from the records of the interface; the theorems say that the tool,
  which only sees the bytes, prints this text.
\<close>

unbundle bit_operations_syntax

subsection \<open>The text of a configuration\<close>

definition preference_text :: "int \<Rightarrow> string" where
  "preference_text p = (if p = 0 then ''medium'' else if p = 1 then ''high'' else ''low'')"

definition header_text :: "bool \<Rightarrow> ra_header_info \<Rightarrow> string" where
  "header_text edefs info =
     flag_line edefs False (tab @ ''AdvManagedFlag'') (AdvManagedFlag info) @
     flag_line edefs False (tab @ ''AdvOtherConfigFlag'') (AdvOtherConfigFlag info) @
     num_line edefs 0 (tab @ ''AdvReachableTime'') (unat (AdvReachableTime info)) @
     num_line edefs 0 (tab @ ''AdvRetransTimer'') (unat (AdvRetransTimer info)) @
     num_line edefs 64 (tab @ ''AdvCurHopLimit'') (unat (AdvCurHopLimit info)) @
     num_line edefs 1800 (tab @ ''AdvDefaultLifetime'') (nat (AdvDefaultLifetime info)) @
     flag_line edefs False (tab @ ''AdvHomeAgentFlag'') (AdvHomeAgentFlag info) @
     flag_line edefs False (tab @ ''AdvSNACRouterFlag'') (AdvSNACRouterFlag info) @
     (if \<not> edefs \<or> AdvDefaultPreference info \<noteq> 0
      then tab @ ''AdvDefaultPreference '' @ preference_text (AdvDefaultPreference info) @ '';'' @ nl else [])"

definition home_agent_text :: "bool \<Rightarrow> mipv6 \<Rightarrow> string" where
  "home_agent_text edefs m =
     tab @ ''AdvHomeAgentInfo on;'' @ nl @
     flag_line edefs False (tab @ ''AdvMobRtrSupportFlag'') (AdvMobRtrSupportFlag m) @
     num_line edefs 0 (tab @ ''HomeAgentPreference'') (unat (HomeAgentPreference m)) @
     num_line edefs 1800 (tab @ ''HomeAgentLifetime'') (nat (HomeAgentLifetime m))"

definition portal_text :: "string \<Rightarrow> string" where
  "portal_text u = tab @ ''AdvCaptivePortalAPI '' @ [CHR 0x22] @ print_sanitized (string_bytes u) @ [CHR 0x22] @ '';'' @ nl"

definition prefix_text :: "bool \<Rightarrow> AdvPrefix \<Rightarrow> string" where
  "prefix_text edefs p =
     nl @ tab @ ''prefix '' @ addrtostr (Prefix p) @ ''/'' @ dec (unat (PrefixLen p)) @ nl @ tab @ ''{'' @ nl @
     (if \<not> edefs \<or> DFLT_AdvValidLifetime \<noteq> curr_validlft p
      then lifetime_line (tab @ tab @ ''AdvValidLifetime'') (curr_validlft p) else []) @
     (if \<not> edefs \<or> DFLT_AdvPreferredLifetime \<noteq> curr_preferredlft p
      then lifetime_line (tab @ tab @ ''AdvPreferredLifetime'') (curr_preferredlft p) else []) @
     flag_line edefs True (tab @ tab @ ''AdvOnLink'') (AdvOnLinkFlag p) @
     flag_line edefs True (tab @ tab @ ''AdvAutonomous'') (AdvAutonomousFlag p) @
     flag_line edefs False (tab @ tab @ ''AdvRouterAddr'') (AdvRouterAddr p) @
     flag_line edefs False (tab @ tab @ ''AdvDHCPv6PDPreferred'') (AdvDHCPv6PDPreferredFlag p) @
     tab @ ''}; # End of prefix definition'' @ nl @ nl"

text \<open>A route of at most 64 bits travels with the first 64 bits of its prefix only.\<close>

definition route_text :: "bool \<Rightarrow> int \<Rightarrow> AdvRoute \<Rightarrow> string" where
  "route_text edefs default_preference r =
     nl @ tab @ ''route '' @
     (if Route_PrefixLen r = 0 then ''::/0''
      else addrtostr (if Route_PrefixLen r \<le> 64 then push_bit 64 (drop_bit 64 (Route_Prefix r)) else Route_Prefix r) @
        ''/'' @ dec (unat (Route_PrefixLen r))) @ nl @ tab @ ''{'' @ nl @
     (if \<not> edefs \<or> default_preference \<noteq> 0
      then tab @ tab @ ''AdvRoutePreference '' @ preference_text (AdvRoutePreference r) @ '';'' @ nl else []) @
     lifetime_line (tab @ tab @ ''AdvRouteLifetime'') (AdvRouteLifetime r) @
     tab @ ''}; # End of route definition'' @ nl @ nl"

definition rdnss_text :: "AdvRDNSS \<Rightarrow> string" where
  "rdnss_text r =
     nl @ tab @ ''RDNSS'' @ concat (map (\<lambda>a. '' '' @ addrtostr a) (AdvRDNSSAddr r)) @ nl @ tab @ ''{'' @ nl @
     lifetime_line (tab @ tab @ ''AdvRDNSSLifetime'') (AdvRDNSSLifetime r) @
     tab @ ''}; # End of RDNSS definition'' @ nl @ nl"

text \<open>A final dot of a name is not part of what is sent.\<close>

definition suffix_text :: "string \<Rightarrow> string" where
  "suffix_text s = '' '' @ print_sanitized (string_bytes (join_labels (name_labels s)))"

definition dnssl_text :: "AdvDNSSL \<Rightarrow> string" where
  "dnssl_text d =
     nl @ tab @ ''DNSSL'' @ concat (map suffix_text (AdvDNSSLSuffixes d)) @ nl @ tab @ ''{'' @ nl @
     lifetime_line (tab @ tab @ ''AdvDNSSLLifetime'') (AdvDNSSLLifetime d) @
     tab @ ''}; # End of DNSSL definition'' @ nl @ nl"

subsection \<open>Flags and preferences come back\<close>

lemma preference_bits_cases:
  "preference_bits 0 = 0" "preference_bits 1 = 8" "preference_bits (- 1) = 0x18"
  by (simp_all add: preference_bits_def mask_eq_exp_minus_1)

definition preference_ok :: "int \<Rightarrow> bool" where
  "preference_ok p \<longleftrightarrow> p = 0 \<or> p = 1 \<or> p = - 1"

lemma c_flag_and [simp]: "c_flag b f AND m = c_flag b (f AND m)" "c_flag b 0 = 0"
  "c_flag b f = 0 \<longleftrightarrow> \<not> b \<or> f = 0"
  by (simp_all add: c_flag_def)

lemma preference_bits_and_mask:
  assumes "preference_ok p"
  shows "preference_bits p AND 0x80 = 0" "preference_bits p AND 0x40 = 0" "preference_bits p AND 0x20 = 0"
    "preference_bits p AND 0x02 = 0" "preference_bits p AND 0x18 = preference_bits p"
  using assms by (auto simp: preference_ok_def preference_bits_cases)

lemma header_flags:
  assumes "preference_ok p"
    and "f = c_flag a 0x80 OR c_flag b 0x40 OR c_flag c 0x20 OR c_flag d 0x02 OR preference_bits p"
  shows "f AND 0x80 \<noteq> 0 \<longleftrightarrow> a" "f AND 0x40 \<noteq> 0 \<longleftrightarrow> b" "f AND 0x20 \<noteq> 0 \<longleftrightarrow> c" "f AND 0x02 \<noteq> 0 \<longleftrightarrow> d"
    "print_preferences (flag_preference f) = preference_text p" "flag_preference f \<noteq> 0 \<longleftrightarrow> p \<noteq> 0"
proof -
  show "f AND 0x80 \<noteq> 0 \<longleftrightarrow> a" "f AND 0x40 \<noteq> 0 \<longleftrightarrow> b" "f AND 0x20 \<noteq> 0 \<longleftrightarrow> c" "f AND 0x02 \<noteq> 0 \<longleftrightarrow> d"
    by (simp_all add: assms(2) bit.conj_disj_distrib2 preference_bits_and_mask [OF assms(1)])
  have "f AND 0x18 = preference_bits p"
    by (simp add: assms(2) bit.conj_disj_distrib2 preference_bits_and_mask [OF assms(1)])
  then show "print_preferences (flag_preference f) = preference_text p" "flag_preference f \<noteq> 0 \<longleftrightarrow> p \<noteq> 0"
    using assms(1)
    by (auto simp: preference_ok_def preference_bits_cases flag_preference_def print_preferences_def
        preference_text_def)
qed

lemma prefix_flags:
  fixes f :: byte
  assumes "f = c_flag a 0x80 OR c_flag b 0x40 OR c_flag c 0x20 OR c_flag d 0x10"
  shows "f AND 0x80 \<noteq> 0 \<longleftrightarrow> a" "f AND 0x40 \<noteq> 0 \<longleftrightarrow> b" "f AND 0x20 \<noteq> 0 \<longleftrightarrow> c" "f AND 0x10 \<noteq> 0 \<longleftrightarrow> d"
  by (simp_all add: assms bit.conj_disj_distrib2)

lemma route_flags:
  "preference_ok p \<Longrightarrow> print_preferences (flag_preference (preference_bits p)) = preference_text p"
  by (auto simp: preference_ok_def preference_bits_cases flag_preference_def print_preferences_def preference_text_def)

subsection \<open>The options one by one\<close>

text \<open>The type byte decides which pass prints an option.\<close>

lemma type_byte:
  "rd_byte (prefix_option_image p cease) 0 = Some 3"
  "rd_byte (nat64prefix_option_image n) 0 = Some 38"
  "rd_byte (mtu_option_image mtu) 0 = Some 5"
  "rd_byte (sllao_option_image s) 0 = Some 1"
  "rd_byte (rtr_adv_interval_image x) 0 = Some 7"
  "rd_byte (home_agent_info_image m) 0 = Some 8"
  "rd_byte (lowpanco_image co) 0 = Some 34"
  "rd_byte (abro_image a) 0 = Some 35"
  "rd_byte (capport_option_image u) 0 = Some 37"
  "rd_byte (rdnss_option_image r cease) 0 = Some 25"
  "rd_byte (dnssl_option_image d cease b) 0 = Some 31"
  by (simp_all add: rd_byte_def prefix_option_image_def nat64prefix_option_image_def mtu_option_image_def
      sllao_option_image_def rtr_adv_interval_image_def home_agent_info_image_def lowpanco_image_def
      abro_image_def capport_option_image_def rdnss_option_image_def rdnss_info_image_def
      dnssl_option_image_def dnssl_info_image_def Let_def)

abbreviation route_option_image :: "AdvRoute \<Rightarrow> bool \<Rightarrow> byte list" where
  "route_option_image r cease \<equiv> take (unat (route_option_len (Route_PrefixLen r)) * 8) (route_info_image r cease)"

lemma option1_other: "rd_byte m 0 = Some t \<Longrightarrow> t \<in> {3, 24, 25, 31, 34, 35, 38} \<Longrightarrow> dump_option1 edefs m n = Some []"
  by (auto simp: dump_option1_def)

lemma option2_other: "rd_byte m 0 = Some t \<Longrightarrow> t \<in> {1, 5, 7, 8, 34, 35, 37} \<Longrightarrow> dump_option2 edefs fl m n = Some []"
  by (auto simp: dump_option2_def)

lemma dump_mtu: "dump_option1 edefs (mtu_option_image mtu) n = Some (num_line edefs 0 (tab @ ''AdvLinkMTU'') (unat mtu))"
proof -
  have "rd_u32 (mtu_option_image mtu) 4 = Some mtu"
    by (simp add: mtu_option_image_def from_be_be)
  then show ?thesis
    by (simp add: dump_option1_def type_byte del: rd_simps)
qed

lemma dump_sllao:
  "dump_option1 edefs (sllao_option_image s) n = Some (if \<not> edefs then tab @ ''AdvSourceLLAddress on;'' @ nl else [])"
  by (simp add: dump_option1_def type_byte del: rd_simps)

lemma dump_interval: "dump_option1 edefs (rtr_adv_interval_image x) n = Some (tab @ ''AdvIntervalOpt on;'' @ nl)"
  by (simp add: dump_option1_def type_byte del: rd_simps)

lemma unat_word_of_int_u16: "0 \<le> i \<Longrightarrow> i < 65536 \<Longrightarrow> unat (word_of_int i :: u16) = nat i"
  by (simp add: unat_eq_nat_uint uint_word_of_int)

lemma dump_home_agent_image:
  assumes "0 \<le> HomeAgentLifetime m" and "HomeAgentLifetime m < 65536"
  shows "dump_option1 edefs (home_agent_info_image m) n = Some (home_agent_text edefs m)"
proof -
  let ?i = "home_agent_info_image m"
  have "rd_byte ?i 2 = Some (c_flag (AdvMobRtrSupportFlag m) 0x80)"
    "rd_u16 ?i 4 = Some (HomeAgentPreference m)" "rd_u16 ?i 6 = Some (word_of_int (HomeAgentLifetime m))"
    by (simp_all add: home_agent_info_image_def rd_u16_def rd_bytes_def rd_byte_def from_be_be)
  moreover have "(c_flag b 0x80 :: byte) AND 0x80 \<noteq> 0 \<longleftrightarrow> b" for b
    by (simp add: c_flag_def)
  ultimately show ?thesis
    using assms by (simp add: dump_option1_def type_byte dump_home_agent_def home_agent_text_def
        unat_word_of_int_u16 del: rd_simps)
qed

lemma rd_strn_text:
  "0 \<notin> set s \<Longrightarrow> length s \<le> n \<Longrightarrow> length s < n \<longrightarrow> (\<exists>r'. r = 0 # r') \<Longrightarrow> rd_strn (s @ r) n = Some s"
proof (induction s arbitrary: n)
  case Nil
  then show ?case by (cases n) auto
next
  case (Cons b s)
  then show ?case by (cases n) auto
qed

lemma dump_portal:
  assumes "CHR 0x00 \<notin> set u"
  shows "dump_option1 edefs (capport_option_image u) (length (capport_option_image u)) = Some (portal_text u)"
proof -
  define z where "z = (length u + 2 + 7) div 8 * 8 - (length u + 2)"
  have z: "capport_option_image u = [37, word_of_nat ((length u + 2 + 7) div 8)] @ string_bytes u @ replicate z 0"
    by (simp only: capport_option_image_def z_def Let_def ND_OPT_CAPTIVE_PORTAL_def)
  have "rd_strn (string_bytes u @ replicate z 0) (length u + z) = Some (string_bytes u)"
    using assms by (intro rd_strn_text) (auto simp: string_bytes_def of_char_byte_0 gr0_conv_Suc)
  then show ?thesis
    by (simp add: dump_option1_def type_byte portal_text_def del: rd_simps) (simp add: z)
qed

lemma dump_prefix_image:
  assumes "\<not> cease"
  shows "dump_option2 edefs fl (prefix_option_image p cease) n = Some (prefix_text edefs p)"
proof -
  let ?i = "prefix_option_image p cease"
  have "rd_byte ?i 2 = Some (PrefixLen p)"
    "rd_byte ?i 3 = Some (c_flag (AdvOnLinkFlag p) 0x80 OR c_flag (AdvAutonomousFlag p) 0x40 OR
      c_flag (AdvRouterAddr p) 0x20 OR c_flag (AdvDHCPv6PDPreferredFlag p) 0x10)"
    "rd_u32 ?i 4 = Some (curr_validlft p)" "rd_u32 ?i 8 = Some (curr_preferredlft p)"
    "rd_addr ?i 16 = Some (Prefix p)"
    using assms by (simp_all add: prefix_option_image_def rd_u32_def rd_addr_def rd_bytes_def rd_byte_def from_be_be)
  then show ?thesis
    by (simp add: dump_option2_def type_byte dump_prefix_def prefix_text_def prefix_flags [OF refl] del: rd_simps)
qed

text \<open>An address of which only the first bytes were sent.\<close>

lemma from_be_truncated:
  fixes a :: in6_addr
  assumes "j \<le> 16"
  shows "from_be (take j (s6_addr a) @ replicate (16 - j) 0) = push_bit (128 - 8 * j) (drop_bit (128 - 8 * j) a)"
    (is "from_be ?bs = (?r :: in6_addr)")
proof (rule bit_word_eqI)
  fix k
  assume "k < LENGTH(128)"
  then have k: "k < 128" "k div 8 < 16" by simp_all
  have len: "length ?bs = 16"
    using assms by simp
  have "bit (?bs ! (15 - k div 8)) (k mod 8) \<longleftrightarrow> 128 - 8 * j \<le> k \<and> bit a k"
  proof (cases "15 - k div 8 < j")
    case True
    then have "8 * (16 - Suc (15 - k div 8)) + k mod 8 = k"
      using k by simp
    with True k assms show ?thesis
      by (auto simp: nth_append bit_be_nth simp del: be_nth)
  next
    case False
    then have "\<not> 128 - 8 * j \<le> k"
      using k assms by auto
    with False k assms show ?thesis
      by (simp add: nth_append)
  qed
  then show "bit (from_be ?bs :: in6_addr) k \<longleftrightarrow> bit ?r k"
    using k len by (auto simp: bit_from_be [OF refl] bit_push_bit_iff bit_drop_bit_eq)
qed

lemma route_reads:
  assumes "t = take (n * 8) (route_info_image r False)" and "n = 1 \<or> n = 2 \<or> n = 3"
  shows "length t = n * 8" "rd_byte t 0 = Some 24" "rd_byte t 1 = Some (route_option_len (Route_PrefixLen r))"
    "rd_byte t 2 = Some (Route_PrefixLen r)" "rd_byte t 3 = Some (preference_bits (AdvRoutePreference r))"
    "rd_u32 t 4 = Some (AdvRouteLifetime r)"
    "rd_bytes t 8 ((n - 1) * 8) = Some (take ((n - 1) * 8) (s6_addr (Route_Prefix r)))"
  using assms by (auto simp: route_info_image_def rd_byte_def rd_bytes_def rd_u32_def from_be_be)

lemma route_len_cases:
  assumes "plen \<le> 128"
  obtains "plen = 0" "route_option_len plen = 1"
  | "plen \<noteq> 0" "plen \<le> 64" "\<not> 64 < plen" "route_option_len plen = 2"
  | "plen \<noteq> 0" "\<not> plen \<le> 64" "route_option_len plen = 3"
proof -
  have "plen > 0 \<longleftrightarrow> plen \<noteq> 0"
    by (simp add: word_gt_0)
  with assms that show thesis
    unfolding route_option_len_def by (cases "plen = 0"; cases "plen \<le> 64") (auto simp: not_le)
qed

lemma dump_route_image:
  assumes "Route_PrefixLen r \<le> 128" and "preference_ok (AdvRoutePreference r)"
    and "flag_preference fl \<noteq> 0 \<longleftrightarrow> p \<noteq> 0"
  shows "dump_option2 edefs fl (route_option_image r False) (length (route_option_image r False)) =
    Some (route_text edefs p r)"
proof -
  have tr: "from_be (take 8 (s6_addr (Route_Prefix r)) @ replicate 8 0) = push_bit 64 (drop_bit 64 (Route_Prefix r))"
    using from_be_truncated [of 8 "Route_Prefix r"] by simp
  have p: "print_preferences (flag_preference (preference_bits (AdvRoutePreference r))) = preference_text (AdvRoutePreference r)"
    "flag_preference fl = 0 \<longleftrightarrow> p = 0"
    using assms(2,3) route_flags by auto
  define t where "t = route_option_image r False"
  have "dump_option2 edefs fl t (length t) = Some (route_text edefs p r)"
  proof (rule route_len_cases [OF assms(1)])
    assume l: "Route_PrefixLen r = 0" "route_option_len (Route_PrefixLen r) = 1"
    then have "t = take (1 * 8) (route_info_image r False)"
      by (simp add: t_def)
    note rd = route_reads [OF this, simplified]
    show ?thesis
      using rd l by (simp add: dump_option2_def dump_route_def route_text_def p del: rd_simps)
  next
    assume l: "Route_PrefixLen r \<noteq> 0" "Route_PrefixLen r \<le> 64" "\<not> 64 < Route_PrefixLen r"
      "route_option_len (Route_PrefixLen r) = 2"
    then have "t = take (2 * 8) (route_info_image r False)"
      by (simp add: t_def)
    note rd = route_reads [OF this, simplified]
    show ?thesis
      using rd l by (simp add: dump_option2_def dump_route_def route_text_def p tr del: rd_simps)
  next
    assume l: "Route_PrefixLen r \<noteq> 0" "\<not> Route_PrefixLen r \<le> 64" "route_option_len (Route_PrefixLen r) = 3"
    then have "t = take (3 * 8) (route_info_image r False)"
      by (simp add: t_def)
    note rd = route_reads [OF this, simplified]
    show ?thesis
      using rd l by (simp add: dump_option2_def dump_route_def route_text_def p from_be_be del: rd_simps)
  qed
  then show ?thesis by (simp only: t_def)
qed

text \<open>The NAT64 option counts its lifetime in units of eight seconds, rounded up.\<close>

definition nat64_text :: "NAT64Prefix \<Rightarrow> string" where
  "nat64_text p =
     nl @ tab @ ''nat64prefix '' @ addrtostr (push_bit 32 (drop_bit 32 (NAT64_Prefix p))) @ ''/'' @
     dec (unat (NAT64_PrefixLen p)) @ nl @ tab @ ''{'' @ nl @
     tab @ tab @ ''AdvValidLifetime '' @ dec ((unat (NAT64_curr_validlft p) + 7) div 8 * 8) @ '';'' @ nl @
     tab @ ''}; # End of nat64prefix definition'' @ nl @ nl"

definition nat64_ok :: "NAT64Prefix \<Rightarrow> bool" where
  "nat64_ok p \<longleftrightarrow> NAT64_PrefixLen p \<in> {32, 40, 48, 56, 64, 96} \<and> unat (NAT64_curr_validlft p) \<le> 65528"

lemma prefix_length_code_cases:
  assumes "plen \<in> {32, 40, 48, 56, 64, 96}"
  shows "prefix_length_code plen \<le> 5" "dec_int (pref64_size (ucast (prefix_length_code plen))) = dec (unat plen)"
  using assms by (auto simp: prefix_length_code_def pref64_size_def dec_int_def)

lemma nat64_word:
  fixes v :: u32 and c :: byte
  assumes "unat v \<le> 65528" and "c \<le> 5"
  defines "w \<equiv> (ucast (((v + 7) AND 0xFFF8) OR (ucast c AND 0x7)) :: u16)"
  shows "w AND 7 = ucast c" "unat (w AND 0xFFF8) = (unat v + 7) div 8 * 8"
proof -
  have m: "(7 :: u16) = mask 3" "(7 :: u32) = mask 3" "(0xFFF8 :: u32) = push_bit 3 (mask 13)" "(0xFFF8 :: u16) = push_bit 3 (mask 13)"
    by (simp_all add: mask_eq_exp_minus_1 push_bit_eq_mult)
  have "k < 3" if "bit c k" for k
  proof (rule ccontr)
    assume "\<not> k < 3"
    then have "(2 :: nat) ^ 3 \<le> 2 ^ k"
      by (intro power_increasing) simp_all
    moreover have "unat c < 8"
      using assms(2) by (simp add: word_le_nat_alt)
    ultimately have "unat c div 2 ^ k = 0"
      by simp
    moreover have "bit (unat c) k"
      using that by (simp add: bit_unsigned_iff bit_imp_le_length)
    ultimately show False
      by (simp add: bit_iff_odd)
  qed
  then show "w AND 7 = ucast c"
    unfolding w_def m by (intro bit_word_eqI) (auto simp: bit_simps)
  have "w AND 0xFFF8 = push_bit 3 (drop_bit 3 (ucast (v + 7) :: u16))"
    unfolding w_def m by (intro bit_word_eqI) (auto simp: bit_simps)
  moreover have "unat (ucast (v + 7) :: u16) = unat v + 7"
  proof -
    have "unat (v + 7) = unat v + 7"
      using assms(1) by (subst unat_plus_if') auto
    then show ?thesis
      using assms(1) by (simp add: unsigned_ucast_eq take_bit_nat_eq_self)
  qed
  moreover have "unat (push_bit 3 (drop_bit 3 y)) = unat y div 8 * 8" for y :: u16
  proof -
    have "unat (drop_bit 3 y) = unat y div 8"
      by (simp add: drop_bit_eq_div unat_div)
    moreover have "unat y div 8 * 8 < 65536"
      using unsigned_less [of y, where 'a = nat] by simp
    ultimately show ?thesis
      by (simp add: push_bit_eq_mult unat_word_ariths mult.commute)
  qed
  ultimately show "unat (w AND 0xFFF8) = (unat v + 7) div 8 * 8"
    by simp
qed

lemma dump_nat64_image:
  assumes "nat64_ok p"
  shows "dump_option2 edefs fl (nat64prefix_option_image p) 16 = Some (nat64_text p)"
proof -
  let ?i = "nat64prefix_option_image p"
  let ?w = "ucast (((NAT64_curr_validlft p + 7) AND 0xFFF8) OR (ucast (prefix_length_code (NAT64_PrefixLen p)) AND 0x7)) :: u16"
  have rd: "rd_u16 ?i 2 = Some ?w" "rd_bytes ?i 4 12 = Some (take 12 (s6_addr (NAT64_Prefix p)))"
    by (simp_all add: nat64prefix_option_image_def rd_u16_def rd_bytes_def from_be_be)
  have code: "prefix_length_code (NAT64_PrefixLen p) \<le> 5"
    "dec_int (pref64_size (ucast (prefix_length_code (NAT64_PrefixLen p)))) = dec (unat (NAT64_PrefixLen p))"
    using assms prefix_length_code_cases by (simp_all add: nat64_ok_def)
  have w: "?w AND 7 = ucast (prefix_length_code (NAT64_PrefixLen p))"
    "unat (?w AND 0xFFF8) = (unat (NAT64_curr_validlft p) + 7) div 8 * 8"
    using nat64_word code(1) assms by (simp_all add: nat64_ok_def)
  have tr: "from_be (take 12 (s6_addr a) @ replicate 4 0) = push_bit 32 (drop_bit 32 a)" for a :: in6_addr
    using from_be_truncated [of 12 a] by simp
  show ?thesis
    unfolding dump_option2_def dump_pref64_def nat64_text_def
    by (simp add: type_byte rd w code tr del: rd_simps)
qed

lemma dump_rdnss_addrs_image:
  "\<forall>i \<in> set is. i < length (AdvRDNSSAddr r) \<Longrightarrow>
     dump_rdnss_addrs (rdnss_option_image r cease) is = Some (concat (map (\<lambda>i. '' '' @ addrtostr (AdvRDNSSAddr r ! i)) is))"
proof (induction "is")
  case (Cons i "is")
  let ?m = "rdnss_option_image r cease"
  have len: "length (rdnss_info_image r cease) = 8"
    by (simp add: rdnss_info_image_def)
  have "take 16 (drop (8 + 16 * i) ?m) = s6_addr (AdvRDNSSAddr r ! i)"
    using Cons.prems by (simp add: rdnss_option_image_def len concat_s6_addr_nth)
  then have "rd_addr ?m (8 + 16 * i) = Some (AdvRDNSSAddr r ! i)"
    using Cons.prems by (simp add: rdnss_bytes_def from_be_be rd_addr_def rd_bytes_def)
  with Cons show ?case by simp
qed simp

lemma dump_rdnss_image:
  assumes "AdvRDNSSAddr r \<noteq> []" and "rdnss_bytes r div 8 \<le> 255"
  shows "dump_option2 edefs fl (rdnss_option_image r False) n = Some (rdnss_text r)"
proof -
  let ?m = "rdnss_option_image r False" and ?n = "length (AdvRDNSSAddr r)"
  define len :: byte where "len = word_of_nat (1 + 2 * ?n)"
  have n: "0 < ?n" "1 + 2 * ?n \<le> 255"
    using assms by (simp_all add: rdnss_bytes_def)
  then have len: "unat len = 1 + 2 * ?n"
    unfolding len_def by (simp only: unat_of_nat) (simp add: take_bit_nat_eq_self)
  have rd: "rd_byte ?m 1 = Some len" "rd_u32 ?m 4 = Some (AdvRDNSSLifetime r)"
    by (simp_all add: rdnss_option_image_def rdnss_info_image_def rdnss_bytes_def len_def rd_byte_def rd_u32_def
        rd_bytes_def from_be_be)
  have odd: "3 \<le> len" "len mod 2 = 1"
    using n len by (simp_all add: word_le_nat_alt unat_mod word_unat_eq_iff Suc_le_eq)
  have "dump_rdnss_addrs ?m [0 ..< (unat len - 1) div 2] =
      Some (concat (map (\<lambda>i. '' '' @ addrtostr (AdvRDNSSAddr r ! i)) [0 ..< ?n]))"
    using len by (subst dump_rdnss_addrs_image) simp_all
  also have "map (\<lambda>i. '' '' @ addrtostr (AdvRDNSSAddr r ! i)) [0 ..< ?n] = map (\<lambda>a. '' '' @ addrtostr a) (AdvRDNSSAddr r)"
    by (intro nth_equalityI) simp_all
  finally show ?thesis
    unfolding dump_option2_def dump_rdnss_def rdnss_text_def
    using odd by (simp add: type_byte rd del: rd_simps One_nat_def)
qed

subsection \<open>Search lists\<close>

definition add_label :: "byte list \<Rightarrow> string \<Rightarrow> byte list" where
  "add_label suffix l = suffix @ (if suffix = [] then [] else [0x2e]) @ string_bytes l"

lemma dump_label:
  assumes "drop (8 + offset) m = word_of_nat (length l) # string_bytes l @ tail" and "offset < limit"
    and "l \<noteq> []" and "CHR 0x00 \<notin> set l" and "length suffix + length l \<le> 254"
  shows "dump_dnssl_suffixes m limit offset suffix =
    dump_dnssl_suffixes m limit (Suc (offset + length l)) (add_label suffix l)"
proof -
  have n: "unat (word_of_nat (length l) :: byte) = length l"
    using assms(5) by (simp add: unat_of_nat take_bit_nat_eq_self)
  have "8 + offset < length m"
    using assms(1) by (metis drop_all linorder_not_le list.distinct(1))
  then have "rd_byte m (8 + offset) = Some (word_of_nat (length l))"
    using assms(1) by (simp add: rd_byte_def nth_via_drop)
  moreover have "word_of_nat (length l) \<noteq> (0 :: byte)"
    using n assms(3) by (metis length_0_conv unsigned_0)
  moreover have "drop (8 + Suc offset) m = string_bytes l @ tail"
    using assms(1) by (metis add_Suc_right drop_Suc list.sel(3) tl_drop)
  then have "rd_strn (drop (8 + Suc offset) m) (length l) = Some (string_bytes l)"
    using assms(4) by (simp only:) (rule rd_strn_text; force simp: string_bytes_def of_char_byte_0)
  moreover have "\<not> 256 - length suffix < Suc (Suc (length l))"
    using assms(5) by simp
  ultimately show ?thesis
    using assms(2)
    by (subst dump_dnssl_suffixes.simps) (simp add: n add_label_def del: rd_simps)
qed

lemma dump_name_end:
  assumes "drop (8 + offset) m = 0 # tail" and "offset < limit"
  shows "dump_dnssl_suffixes m limit offset suffix =
    dump_dnssl_suffixes m limit (Suc offset) [] \<bind>
      (\<lambda>rest. Some ((if suffix = [] then [] else '' '' @ print_sanitized suffix) @ rest))"
proof -
  have "8 + offset < length m"
    using assms(1) by (metis drop_all linorder_not_le list.distinct(1))
  then have "rd_byte m (8 + offset) = Some 0"
    using assms(1) by (simp add: rd_byte_def nth_via_drop)
  then show ?thesis
    using assms(2)
    by (subst dump_dnssl_suffixes.simps) (cases "dump_dnssl_suffixes m limit (Suc offset) []"; simp del: rd_simps)
qed

lemma dump_zeros:
  assumes "drop (8 + offset) m = replicate z 0" and "limit = offset + z"
  shows "dump_dnssl_suffixes m limit offset [] = Some []"
  using assms
proof (induction z arbitrary: offset)
  case 0
  then show ?case by (simp add: dump_dnssl_suffixes.simps)
next
  case (Suc z)
  have "drop (8 + Suc offset) m = replicate z 0"
    using Suc.prems(1) by (metis add_Suc_right drop_Suc list.sel(3) replicate_Suc tl_drop)
  with Suc.IH [of "Suc offset"] Suc.prems show ?case
    by (subst dump_name_end [of _ _ "replicate z 0"]) simp_all
qed

definition wire_labels :: "string list \<Rightarrow> byte list" where
  "wire_labels ls = concat (map (\<lambda>l. word_of_nat (length l) # string_bytes l) ls)"

lemma dump_labels:
  assumes "drop (8 + offset) m = wire_labels ls @ tail" and "offset + length (wire_labels ls) \<le> limit"
    and "list_all (\<lambda>l. l \<noteq> [] \<and> CHR 0x00 \<notin> set l) ls" and "length (foldl add_label suffix ls) \<le> 254"
  shows "dump_dnssl_suffixes m limit offset suffix =
    dump_dnssl_suffixes m limit (offset + length (wire_labels ls)) (foldl add_label suffix ls)"
  using assms
proof (induction ls arbitrary: offset suffix)
  case Nil
  then show ?case by (simp add: wire_labels_def)
next
  case (Cons l ls)
  have grow: "length suffix' \<le> length (foldl add_label suffix' ls')" for suffix' ls'
  proof (induction ls' arbitrary: suffix')
    case (Cons a ls')
    from Cons.IH [of "add_label suffix' a"] show ?case
      by (simp add: add_label_def)
  qed simp
  have m: "drop (8 + offset) m = word_of_nat (length l) # string_bytes l @ wire_labels ls @ tail"
    using Cons.prems(1) by (simp add: wire_labels_def)
  have "length (add_label suffix l) \<le> 254"
    using grow [of "add_label suffix l" ls] Cons.prems(4) by simp
  then have "length suffix + length l \<le> 254"
    by (simp add: add_label_def split: if_split_asm)
  with m Cons.prems have "dump_dnssl_suffixes m limit offset suffix =
      dump_dnssl_suffixes m limit (Suc (offset + length l)) (add_label suffix l)"
    by (intro dump_label) (auto simp: wire_labels_def)
  also have "drop (8 + Suc (offset + length l)) m = drop (Suc (length l)) (drop (8 + offset) m)"
    by (simp add: ac_simps)
  then have "drop (8 + Suc (offset + length l)) m = wire_labels ls @ tail"
    by (simp add: m)
  then have "dump_dnssl_suffixes m limit (Suc (offset + length l)) (add_label suffix l) =
      dump_dnssl_suffixes m limit (Suc (offset + length l) + length (wire_labels ls)) (foldl add_label (add_label suffix l) ls)"
    using Cons.prems by (intro Cons.IH) (simp_all add: wire_labels_def)
  finally show ?case
    by (simp add: wire_labels_def add.assoc)
qed

lemma add_labels_join:
  "list_all (\<lambda>l. l \<noteq> []) ls \<Longrightarrow> foldl add_label [] ls = string_bytes (join_labels ls)"
proof -
  have step: "list_all (\<lambda>l. l \<noteq> []) ls \<Longrightarrow> s \<noteq> [] \<Longrightarrow> ls \<noteq> [] \<Longrightarrow>
      foldl add_label s ls = s @ 0x2e # string_bytes (join_labels ls)" for s ls
  proof (induction ls arbitrary: s rule: join_labels.induct)
    case (2 l)
    then show ?case by (simp add: add_label_def)
  next
    case (3 l l' ls)
    then show ?case
      by (subst foldl_Cons, subst "3.IH") (simp_all add: add_label_def string_bytes_def)
  qed simp
  assume ls: "list_all (\<lambda>l. l \<noteq> []) ls"
  then show ?thesis
  proof (cases ls rule: join_labels.cases)
    case (3 l l' ls')
    with ls show ?thesis
      using step [of "l' # ls'" "string_bytes l"] by (simp add: add_label_def string_bytes_def)
  qed (simp_all add: add_label_def string_bytes_def)
qed

text \<open>A name that fits the array of the tool, and so comes back as it was configured.\<close>

definition shown_name :: "string \<Rightarrow> bool" where
  "shown_name s \<longleftrightarrow> name_ok s \<and> list_all (\<lambda>l. CHR 0x00 \<notin> set l) (name_labels s) \<and>
     length (join_labels (name_labels s)) \<le> 254"

lemma dump_name:
  assumes "drop (8 + offset) m = wire_domain s @ tail" and "offset + length (wire_domain s) \<le> limit" and "shown_name s"
  shows "dump_dnssl_suffixes m limit offset [] =
    dump_dnssl_suffixes m limit (offset + length (wire_domain s)) [] \<bind> (\<lambda>rest. Some (suffix_text s @ rest))"
proof -
  let ?ls = "name_labels s" and ?s = "string_bytes (join_labels (name_labels s))"
  have w: "wire_domain s = wire_labels ?ls @ [0]"
    by (simp add: wire_domain_def wire_name_def wire_labels_def)
  have ls: "list_all (\<lambda>l. l \<noteq> [] \<and> CHR 0x00 \<notin> set l) ?ls" "list_all (\<lambda>l. l \<noteq> []) ?ls" "?ls \<noteq> []"
    using assms(3) by (auto simp: shown_name_def name_ok_def label_ok_def list_all_iff)
  have ne: "?s \<noteq> []"
    using ls(2,3) by (cases ?ls rule: join_labels.cases) (auto simp: string_bytes_def)
  note j = add_labels_join [OF ls(2)]
  have "dump_dnssl_suffixes m limit offset [] = dump_dnssl_suffixes m limit (offset + length (wire_labels ?ls)) ?s"
    using dump_labels [of offset m ?ls "0 # tail" limit "[]"] assms ls(1) j by (simp add: w shown_name_def)
  moreover have "drop (8 + (offset + length (wire_labels ?ls))) m = drop (length (wire_labels ?ls)) (drop (8 + offset) m)"
    by (simp add: ac_simps)
  then have "drop (8 + (offset + length (wire_labels ?ls))) m = 0 # tail"
    by (simp add: assms(1) w)
  ultimately show ?thesis
    using assms(2) ne by (simp add: dump_name_end w suffix_text_def)
qed

lemma dump_names:
  assumes "drop (8 + offset) m = concat (map wire_domain ss) @ replicate z 0"
    and "limit = offset + length (concat (map wire_domain ss)) + z" and "list_all shown_name ss"
  shows "dump_dnssl_suffixes m limit offset [] = Some (concat (map suffix_text ss))"
  using assms
proof (induction ss arbitrary: offset)
  case Nil
  then show ?case by (simp add: dump_zeros)
next
  case (Cons s ss)
  have "drop (8 + (offset + length (wire_domain s))) m = drop (length (wire_domain s)) (drop (8 + offset) m)"
    by (simp add: ac_simps)
  then have "drop (8 + (offset + length (wire_domain s))) m = concat (map wire_domain ss) @ replicate z 0"
    using Cons.prems(1) by simp
  with Cons show ?case
    by (subst dump_name [of _ _ s "concat (map wire_domain ss) @ replicate z 0"]) simp_all
qed

lemma dump_dnssl_image:
  assumes "list_all shown_name (AdvDNSSLSuffixes d)" and "dnssl_groups (dnssl_domains d) \<le> 255"
  shows "dump_option2 edefs fl (dnssl_option_image d False (dnssl_domains d)) n = Some (dnssl_text d)"
proof -
  let ?b = "dnssl_domains d"
  let ?m = "dnssl_option_image d False ?b" and ?g = "dnssl_groups ?b"
  have n: "unat (word_of_nat ?g :: byte) = ?g"
    using assms(2) by (simp add: unat_of_nat take_bit_nat_eq_self)
  have hdr: "length (dnssl_info_image d False g) = 8" for g
    by (simp add: dnssl_info_image_def)
  have rd: "rd_byte ?m 1 = Some (word_of_nat ?g)" "rd_u32 ?m 4 = Some (AdvDNSSLLifetime d)"
    by (simp_all add: dnssl_option_image_def dnssl_info_image_def rd_byte_def rd_u32_def rd_bytes_def from_be_be)
  have g: "8 + length ?b \<le> ?g * 8"
    by (simp add: dnssl_groups_def)
  have "dump_dnssl_suffixes ?m ((?g - 1) * 8) 0 [] = Some (concat (map suffix_text (AdvDNSSLSuffixes d)))"
    using g assms(1)
    by (intro dump_names [where z = "?g * 8 - (8 + length ?b)"])
       (simp_all add: dnssl_option_image_def hdr dnssl_domains_def)
  then show ?thesis
    unfolding dump_option2_def dump_dnssl_def dnssl_text_def
    by (simp add: type_byte rd n del: rd_simps One_nat_def)
qed

subsection \<open>The whole advertisement\<close>

lemma dump_header_image:
  assumes "preference_ok (AdvDefaultPreference info)" and "0 \<le> AdvDefaultLifetime info" and "AdvDefaultLifetime info < 65536"
  shows "dump_header edefs (ra_header_image info False @ rest) = Some (header_text edefs info)"
    and "\<exists>fl. rd_byte (ra_header_image info False @ rest) 5 = Some fl \<and>
      (flag_preference fl \<noteq> 0 \<longleftrightarrow> AdvDefaultPreference info \<noteq> 0)"
proof -
  let ?m = "ra_header_image info False @ rest"
  define fl where "fl = c_flag (AdvManagedFlag info) 0x80 OR c_flag (AdvOtherConfigFlag info) 0x40 OR
    c_flag (AdvHomeAgentFlag info) 0x20 OR c_flag (AdvSNACRouterFlag info) 0x02 OR
    preference_bits (AdvDefaultPreference info)"
  note f = header_flags [OF assms(1) fl_def]
  have rd: "rd_byte ?m 5 = Some fl" "rd_u32 ?m 8 = Some (AdvReachableTime info)"
    "rd_u32 ?m 12 = Some (AdvRetransTimer info)" "rd_byte ?m 4 = Some (AdvCurHopLimit info)"
    "rd_u16 ?m 6 = Some (word_of_int (AdvDefaultLifetime info))"
    by (simp_all add: ra_header_image_def fl_def rd_byte_def rd_u32_def rd_u16_def rd_bytes_def from_be_be)
  show "dump_header edefs ?m = Some (header_text edefs info)"
    unfolding dump_header_def header_text_def
    by (simp add: rd f unat_word_of_int_u16 assms(2,3) del: rd_simps)
  show "\<exists>fl. rd_byte ?m 5 = Some fl \<and> (flag_preference fl \<noteq> 0 \<longleftrightarrow> AdvDefaultPreference info \<noteq> 0)"
    using rd(1) f(6) by blast
qed

text \<open>The values that fit their fields, as the configuration language and \<open>check_iface\<close> leave them.\<close>

definition dump_config_ok :: "Interface \<Rightarrow> bool" where
  "dump_config_ok iface \<longleftrightarrow> \<not> cease_adv (state_info iface) \<and>
     preference_ok (AdvDefaultPreference (ra_header_info iface)) \<and>
     0 \<le> AdvDefaultLifetime (ra_header_info iface) \<and> AdvDefaultLifetime (ra_header_info iface) < 65536 \<and>
     0 \<le> HomeAgentLifetime (mipv6 iface) \<and> HomeAgentLifetime (mipv6 iface) < 65536 \<and>
     list_all nat64_ok (NAT64PrefixList iface) \<and>
     list_all (\<lambda>r. preference_ok (AdvRoutePreference r)) (AdvRouteList iface) \<and>
     list_all (\<lambda>r. AdvRDNSSAddr r \<noteq> []) (AdvRDNSSList iface) \<and>
     list_all (\<lambda>d. list_all shown_name (AdvDNSSLSuffixes d)) (AdvDNSSLList iface) \<and>
     (case AdvCaptivePortalAPI iface of None \<Rightarrow> True | Some u \<Rightarrow> CHR 0x00 \<notin> set u)"

definition config_lines :: "bool \<Rightarrow> Interface \<Rightarrow> string" where
  "config_lines edefs iface =
     (let m = mipv6 iface
      in (if AdvLinkMTU iface \<noteq> 0 then num_line edefs 0 (tab @ ''AdvLinkMTU'') (unat (AdvLinkMTU iface)) else []) @
         (if AdvSourceLLAddress iface \<and> if_hwaddr_len (sllao iface) > 0 \<and> \<not> edefs
          then tab @ ''AdvSourceLLAddress on;'' @ nl else []) @
         (if AdvIntervalOpt m then tab @ ''AdvIntervalOpt on;'' @ nl else []) @
         (if AdvHomeAgentInfo m \<and> (AdvMobRtrSupportFlag m \<or> HomeAgentPreference m \<noteq> 0 \<or>
             HomeAgentLifetime m \<noteq> AdvDefaultLifetime (ra_header_info iface))
          then home_agent_text edefs m else []) @
         (case AdvCaptivePortalAPI iface of None \<Rightarrow> [] | Some u \<Rightarrow> portal_text u))"

definition config_sections :: "bool \<Rightarrow> kernel \<Rightarrow> Interface \<Rightarrow> string" where
  "config_sections edefs k iface =
     concat (map (prefix_text edefs) (map (limit_prefix_lifetimes k)
       (concat (map (advertised_prefixes k iface) (AdvPrefixList iface))))) @
     concat (map nat64_text (NAT64PrefixList iface)) @
     concat (map (route_text edefs (AdvDefaultPreference (ra_header_info iface))) (AdvRouteList iface)) @
     concat (map rdnss_text (filter (\<lambda>r. rdnss_bytes r div 8 \<le> 255) (AdvRDNSSList iface))) @
     concat (map dnssl_text (filter (\<lambda>d. dnssl_groups (dnssl_domains d) \<le> 255) (AdvDNSSLList iface)))"

text \<open>The two passes over the options of an interface, as lists of printed pieces.\<close>

abbreviation printed :: "(byte list \<Rightarrow> nat \<Rightarrow> string option) \<Rightarrow> byte list list \<Rightarrow> string list \<Rightarrow> bool" where
  "printed f \<equiv> list_all2 (\<lambda>opt t. nd_opt_wf opt \<and> f opt (length opt) = Some t)"

lemma printed_map:
  "(\<And>x. x \<in> set xs \<Longrightarrow> nd_opt_wf (g x) \<and> f (g x) (length (g x)) = Some (t x)) \<Longrightarrow> printed f (map g xs) (map t xs)"
  by (simp add: list_all2_map1 list_all2_map2 list_all2_same)

lemma printed_map_none:
  "(\<And>x. x \<in> set xs \<Longrightarrow> nd_opt_wf (g x) \<and> f (g x) (length (g x)) = Some []) \<Longrightarrow>
     \<exists>ts. printed f (map g xs) ts \<and> concat ts = []"
  by (intro exI [of _ "map (\<lambda>_. []) xs"]) (simp add: printed_map)

lemma printed_append:
  "(\<exists>ts. printed f xs ts \<and> concat ts = a) \<Longrightarrow> (\<exists>ts. printed f ys ts \<and> concat ts = b) \<Longrightarrow>
     \<exists>ts. printed f (xs @ ys) ts \<and> concat ts = a @ b"
proof (elim exE conjE)
  fix s t
  assume "printed f xs s" "concat s = a" "printed f ys t" "concat t = b"
  then show ?thesis
    by (intro exI [of _ "s @ t"]) (simp add: list_all2_appendI)
qed

lemma printed_some:
  "(b \<Longrightarrow> nd_opt_wf m \<and> f m (length m) = Some t) \<Longrightarrow> 
     \<exists>ts. printed f (if b then [m] else []) ts \<and> concat ts = (if b then t else [])"
  by (cases b) (auto intro: exI [of _ "[t]"])

lemma printed_maps:
  "(\<And>x. x \<in> set xs \<Longrightarrow> nd_opt_wf (g x) \<and> f (g x) (length (g x)) = Some (t x)) \<Longrightarrow>
     \<exists>ts. printed f (map g xs) ts \<and> concat ts = concat (map t xs)"
  using printed_map [of xs g f t] by blast

lemma images_wf:
  assumes "wire_config_ok iface"
  shows "r \<in> set (AdvRouteList iface) \<Longrightarrow> nd_opt_wf (route_option_image r cease)"
    and "nd_opt_wf (sllao_option_image (sllao iface))"
    and "AdvCaptivePortalAPI iface = Some u \<Longrightarrow> nd_opt_wf (capport_option_image u)"
  using assms route_option_wf sllao_option_wf capport_option_wf
  by (auto simp: wire_config_ok_def list_all_iff)

lemma printed_head:
  "(\<And>x. nd_opt_wf (g x) \<and> f (g x) (length (g x)) = Some []) \<Longrightarrow>
     \<exists>ts. printed f (case xs of [] \<Rightarrow> [] | x # _ \<Rightarrow> [g x]) ts \<and> concat ts = []"
  by (cases xs) (auto intro: exI [of _ "[[]]"])

lemma printed_option:
  "(\<And>x. y = Some x \<Longrightarrow> nd_opt_wf (g x) \<and> f (g x) (length (g x)) = Some (t x)) \<Longrightarrow>
     \<exists>ts. printed f (case y of None \<Rightarrow> [] | Some x \<Rightarrow> [g x]) ts \<and>
       concat ts = (case y of None \<Rightarrow> [] | Some x \<Rightarrow> t x)"
  by (cases y) (auto intro: exI [of _ "[t _]"])

lemma route_type_byte:
  assumes "Route_PrefixLen r \<le> 128"
  shows "rd_byte (route_option_image r cease) 0 = Some 24"
proof -
  have "unat (route_option_len (Route_PrefixLen r)) \<noteq> 0"
    by (rule route_len_cases [OF assms]) simp_all
  then show ?thesis
    by (simp add: rd_byte_def route_info_image_def)
qed

lemmas printed_intros = printed_append printed_map_none printed_maps printed_some printed_head printed_option

lemma images_printed1:
  assumes w: "wire_config_ok iface" and d: "dump_config_ok iface"
  shows "\<exists>ts. printed (dump_option1 edefs) (ra_option_images k iface) ts \<and> concat ts = config_lines edefs iface"
proof -
  have c: "cease_adv (state_info iface) = False"
    using d by (simp add: dump_config_ok_def)
  have route: "nd_opt_wf (route_option_image r False)" "dump_option1 edefs (route_option_image r False) n = Some []"
    if "r \<in> set (AdvRouteList iface)" for r n
    using images_wf(1) [OF w that] w that
    by (auto simp: wire_config_ok_def list_all_iff intro!: option1_other [OF route_type_byte])
  have portal: "CHR 0x00 \<notin> set u" if "AdvCaptivePortalAPI iface = Some u" for u
    using d that by (simp add: dump_config_ok_def)
  have home: "dump_option1 edefs (home_agent_info_image (mipv6 iface)) n = Some (home_agent_text edefs (mipv6 iface))" for n
    using d by (intro dump_home_agent_image) (simp_all add: dump_config_ok_def)
  have split: "config_lines edefs iface = [] @ [] @ [] @ [] @ [] @
      (if AdvLinkMTU iface \<noteq> 0 then num_line edefs 0 (tab @ ''AdvLinkMTU'') (unat (AdvLinkMTU iface)) else []) @
      (if AdvSourceLLAddress iface \<and> if_hwaddr_len (sllao iface) > 0
       then (if \<not> edefs then tab @ ''AdvSourceLLAddress on;'' @ nl else []) else []) @
      (if AdvIntervalOpt (mipv6 iface) then tab @ ''AdvIntervalOpt on;'' @ nl else []) @
      (if AdvHomeAgentInfo (mipv6 iface) \<and> (AdvMobRtrSupportFlag (mipv6 iface) \<or> HomeAgentPreference (mipv6 iface) \<noteq> 0 \<or>
             HomeAgentLifetime (mipv6 iface) \<noteq> AdvDefaultLifetime (ra_header_info iface))
       then home_agent_text edefs (mipv6 iface) else []) @ [] @ [] @
      (case AdvCaptivePortalAPI iface of None \<Rightarrow> [] | Some u \<Rightarrow> portal_text u)"
    by (simp add: config_lines_def Let_def)
  show ?thesis
    unfolding split ra_option_images_def Let_def c
    by (intro printed_intros conjI fixed_options_wf images_wf [OF w] route option1_other [OF type_byte(1)]
        option1_other [OF type_byte(2)] option1_other [OF type_byte(7)] option1_other [OF type_byte(8)]
        option1_other [OF type_byte(10)] option1_other [OF type_byte(11)] rdnss_option_wf dnssl_option_wf
        dump_mtu dump_sllao dump_interval home dump_portal portal) simp_all
qed

lemma images_printed2:
  assumes w: "wire_config_ok iface" and d: "dump_config_ok iface"
    and fl: "flag_preference fl \<noteq> 0 \<longleftrightarrow> AdvDefaultPreference (ra_header_info iface) \<noteq> 0"
  shows "\<exists>ts. printed (dump_option2 edefs fl) (ra_option_images k iface) ts \<and> concat ts = config_sections edefs k iface"
proof -
  have c: "cease_adv (state_info iface) = False"
    using d by (simp add: dump_config_ok_def)
  have route: "nd_opt_wf (route_option_image r False)"
    "dump_option2 edefs fl (route_option_image r False) (length (route_option_image r False)) =
       Some (route_text edefs (AdvDefaultPreference (ra_header_info iface)) r)"
    if "r \<in> set (AdvRouteList iface)" for r
  proof -
    show "nd_opt_wf (route_option_image r False)"
      by (rule images_wf(1) [OF w that])
    show "dump_option2 edefs fl (route_option_image r False) (length (route_option_image r False)) =
       Some (route_text edefs (AdvDefaultPreference (ra_header_info iface)) r)"
      using w d that by (intro dump_route_image fl) (auto simp: wire_config_ok_def dump_config_ok_def list_all_iff)
  qed
  have nat64: "dump_option2 edefs fl (nat64prefix_option_image n) (length (nat64prefix_option_image n)) = Some (nat64_text n)"
    if "n \<in> set (NAT64PrefixList iface)" for n
    using d that dump_nat64_image [of n] by (simp add: dump_config_ok_def list_all_iff)
  have rdnss: "dump_option2 edefs fl (rdnss_option_image r False) (length (rdnss_option_image r False)) = Some (rdnss_text r)"
    if "r \<in> set (filter (\<lambda>r. rdnss_bytes r div 8 \<le> 255) (AdvRDNSSList iface))" for r
    using d that by (intro dump_rdnss_image) (auto simp: dump_config_ok_def list_all_iff)
  have dnssl: "dump_option2 edefs fl (dnssl_option_image x False (dnssl_domains x)) (length (dnssl_option_image x False (dnssl_domains x))) =
      Some (dnssl_text x)"
    if "x \<in> set (filter (\<lambda>d. dnssl_groups (dnssl_domains d) \<le> 255) (AdvDNSSLList iface))" for x
    using d that by (intro dump_dnssl_image) (auto simp: dump_config_ok_def list_all_iff)
  have prefix: "dump_option2 edefs fl (prefix_option_image (limit_prefix_lifetimes k p) False) n =
      Some (prefix_text edefs (limit_prefix_lifetimes k p))" for p n
    by (rule dump_prefix_image) simp
  have split: "config_sections edefs k iface =
     concat (map (\<lambda>p. prefix_text edefs (limit_prefix_lifetimes k p))
       (concat (map (advertised_prefixes k iface) (AdvPrefixList iface)))) @
     concat (map nat64_text (NAT64PrefixList iface)) @
     concat (map (route_text edefs (AdvDefaultPreference (ra_header_info iface))) (AdvRouteList iface)) @
     concat (map rdnss_text (filter (\<lambda>r. rdnss_bytes r div 8 \<le> 255) (AdvRDNSSList iface))) @
     concat (map dnssl_text (filter (\<lambda>d. dnssl_groups (dnssl_domains d) \<le> 255) (AdvDNSSLList iface))) @
     (if AdvLinkMTU iface \<noteq> 0 then [] else []) @
     (if AdvSourceLLAddress iface \<and> if_hwaddr_len (sllao iface) > 0 then [] else []) @
     (if AdvIntervalOpt (mipv6 iface) then [] else []) @
     (if AdvHomeAgentInfo (mipv6 iface) \<and> (AdvMobRtrSupportFlag (mipv6 iface) \<or> HomeAgentPreference (mipv6 iface) \<noteq> 0 \<or>
             HomeAgentLifetime (mipv6 iface) \<noteq> AdvDefaultLifetime (ra_header_info iface)) then [] else []) @ [] @ [] @
      (case AdvCaptivePortalAPI iface of None \<Rightarrow> [] | Some u \<Rightarrow> [])"
    by (simp add: config_sections_def o_def split: option.split)
  show ?thesis
    unfolding split ra_option_images_def Let_def c
    by (intro printed_append printed_maps printed_some printed_head printed_option conjI fixed_options_wf images_wf [OF w] route prefix nat64 rdnss dnssl
        rdnss_option_wf dnssl_option_wf option2_other [OF type_byte(3)] option2_other [OF type_byte(4)]
        option2_other [OF type_byte(5)] option2_other [OF type_byte(6)] option2_other [OF type_byte(7)]
        option2_other [OF type_byte(8)] option2_other [OF type_byte(9)]) simp_all
qed

text \<open>
  What the tool prints for an advertisement of radvd. Without options the closing line is missing.
\<close>

lemma print_ff_own:
  assumes w: "wire_config_ok iface" and d: "dump_config_ok iface"
    and m: "msg = ra_header_image (ra_header_info iface) False @ concat (ra_option_images k iface) @ rest"
    and l: "len = 16 + int (length (concat (ra_option_images k iface)))"
    and i: "if_indextoname k' ifindex = Some n"
  shows "print_ff VERSION k' msg len src ifindex edefs = Some (
    dump_preamble VERSION src n @ header_text edefs (ra_header_info iface) @
    (if ra_option_images k iface = [] then []
     else config_lines edefs iface @ config_sections edefs k iface @ dump_closing))"
proof -
  obtain fl where h: "dump_header edefs msg = Some (header_text edefs (ra_header_info iface))"
    "rd_byte msg 5 = Some fl" "flag_preference fl \<noteq> 0 \<longleftrightarrow> AdvDefaultPreference (ra_header_info iface) \<noteq> 0"
    using dump_header_image [of "ra_header_info iface"] d unfolding m by (auto simp: dump_config_ok_def)
  have drop: "drop 16 msg = concat (ra_option_images k iface) @ rest" "len - 16 = int (length (concat (ra_option_images k iface)))"
    by (simp_all add: m l)
  obtain t1 where 1: "printed (dump_option1 edefs) (ra_option_images k iface) t1" "concat t1 = config_lines edefs iface"
    using images_printed1 [OF w d] by blast
  obtain t2 where 2: "printed (dump_option2 edefs fl) (ra_option_images k iface) t2" "concat t2 = config_sections edefs k iface"
    using images_printed2 [OF w d h(3)] by blast
  have "len = 16 \<longleftrightarrow> ra_option_images k iface = []"
  proof -
    have "\<forall>m \<in> set (ra_option_images k iface). nd_opt_wf m"
      using 1(1) by (auto simp: list_all2_conv_all_nth in_set_conv_nth)
    then have "\<forall>m \<in> set (ra_option_images k iface). m \<noteq> []"
      by (auto simp: nd_opt_wf_def)
    then have "concat (ra_option_images k iface) = [] \<longleftrightarrow> ra_option_images k iface = []"
      by (cases "ra_option_images k iface") auto
    then show ?thesis by (simp add: l del: concat_eq_Nil_conv)
  qed
  then show ?thesis
    unfolding print_ff_def Let_def h i drop pass1.loop_options [OF 1(1)] pass2.loop_options [OF 2(1)]
    by (simp add: h 1(2) 2(2) pass2.loop_options [OF 2(1)])
qed

end
