(* ===== verification/Text_Input.thy ===== *)
theory Text_Input
  imports Text_Output Radvd_Types
begin

text \<open>
  Reading text, as the C library does it for this program: \<^verbatim>\<open>atoi\<close>, \<^verbatim>\<open>strtoul\<close> and \<^verbatim>\<open>atof\<close> on the
  numerals of the configuration file and of the command line, and \<^verbatim>\<open>inet_pton\<close> on addresses in
  hexadecimal groups.
\<close>

subsection \<open>Characters and numerals\<close>

definition isdigit :: "char \<Rightarrow> bool" where
  "isdigit c \<longleftrightarrow> 48 \<le> (of_char c :: nat) \<and> (of_char c :: nat) \<le> 57"

definition isspace :: "char \<Rightarrow> bool" where
  "isspace c \<longleftrightarrow> (of_char c :: nat) = 32 \<or> 9 \<le> (of_char c :: nat) \<and> (of_char c :: nat) \<le> 13"

definition tolower :: "char \<Rightarrow> char" where
  "tolower c =
     (if 65 \<le> (of_char c :: nat) \<and> (of_char c :: nat) \<le> 90 then char_of ((of_char c :: nat) + 32) else c)"

text \<open>The value of a hexadecimal digit of either case.\<close>

definition hex_digit_value :: "char \<Rightarrow> nat option" where
  "hex_digit_value c =
     (let n = of_char (tolower c)
      in if 48 \<le> n \<and> n \<le> 57 then Some (n - 48)
         else if 97 \<le> n \<and> n \<le> 102 then Some (n - 87)
         else None)"

text \<open>The classes on the bits of a character, for evaluation.\<close>

lemma tolower_bits [code]: "tolower (Char b0 b1 b2 b3 b4 b5 b6 b7) =
  Char b0 b1 b2 b3 b4 (b5 \<or> b6 \<and> \<not> b7 \<and> (b0 \<or> b1 \<or> b2 \<or> b3 \<or> b4) \<and> \<not> (b4 \<and> b3 \<and> (b2 \<or> b1 \<and> b0))) b6 b7"
  unfolding tolower_def
  by (cases b0; cases b1; cases b2; cases b3; cases b4; cases b5; cases b6; cases b7) (simp_all add: char_of_def bit_0)

lemma isdigit_bits [code]: "isdigit (Char b0 b1 b2 b3 b4 b5 b6 b7) \<longleftrightarrow>
   \<not> b7 \<and> \<not> b6 \<and> b5 \<and> b4 \<and> \<not> (b3 \<and> (b1 \<or> b2))"
  unfolding isdigit_def
  by (cases b0; cases b1; cases b2; cases b3; cases b4; cases b5; cases b6; cases b7) simp_all

definition isxdigit :: "char \<Rightarrow> bool" where
  "isxdigit c \<longleftrightarrow> hex_digit_value c \<noteq> None"

lemma isxdigit_bits [code]: "isxdigit (Char b0 b1 b2 b3 b4 b5 b6 b7) \<longleftrightarrow>
   \<not> b7 \<and> (\<not> b6 \<and> b5 \<and> b4 \<and> \<not> (b3 \<and> (b1 \<or> b2)) \<or> b6 \<and> \<not> b4 \<and> \<not> b3 \<and> (b2 \<or> b1 \<or> b0) \<and> \<not> (b2 \<and> b1 \<and> b0))"
  unfolding isxdigit_def hex_digit_value_def tolower_bits
  by (cases b0; cases b1; cases b2; cases b3; cases b4; cases b5; cases b6; cases b7) simp_all

text \<open>\<^verbatim>\<open>(int) x\<close> of a wider integer.\<close>

definition int_cast :: "int \<Rightarrow> int" where
  "int_cast x = sint (word_of_int x :: u32)"

text \<open>
  \<^verbatim>\<open>strtol\<close> in base 10 saturates at the ends of \<^verbatim>\<open>long\<close>, \<^verbatim>\<open>atoi\<close> is its result cast to \<^verbatim>\<open>int\<close>;
  \<^verbatim>\<open>strtoul\<close> saturates at \<^verbatim>\<open>ULONG_MAX\<close>.
\<close>

definition strtol10 :: "string \<Rightarrow> int" where
  "strtol10 s =
     (let s = dropWhile isspace s;
          neg = (s \<noteq> [] \<and> hd s = CHR ''-'');
          s = (if s \<noteq> [] \<and> hd s \<in> {CHR ''-'', CHR ''+''} then tl s else s);
          v = int (num_value 10 (takeWhile isdigit s))
      in if neg then max (- (2 ^ 63)) (- v) else min (2 ^ 63 - 1) v)"

definition atoi :: "string \<Rightarrow> int" where
  "atoi s = int_cast (strtol10 s)"

definition strtoul10 :: "string \<Rightarrow> nat" where
  "strtoul10 s = min (2 ^ 64 - 1) (num_value 10 (takeWhile isdigit s))"

text \<open>\<^verbatim>\<open>atof\<close> on digits, a point and digits; doubles are exact numbers in this development.\<close>

definition atof :: "string \<Rightarrow> rat" where
  "atof s =
     (let whole = takeWhile isdigit s; frac = takeWhile isdigit (drop (Suc (length whole)) s)
      in of_nat (num_value 10 whole) + of_nat (num_value 10 frac) / 10 ^ length frac)"

lemma digit_isdigit [simp]: "d < 10 \<Longrightarrow> isdigit (digit d)"
  using less_16_cases [of d] by (auto simp: digit_def isdigit_def)

lemma dec_digits: "list_all isdigit (dec n)"
proof (induction n rule: less_induct)
  case (less n)
  then show ?case
    by (cases "n < 10") (simp_all add: num_text.simps [of 10 n])
qed

lemma num_text_not_Nil [simp]: "num_text base n \<noteq> []"
  by (subst num_text.simps) simp

lemma takeWhile_dec: "s = [] \<or> \<not> isdigit (hd s) \<Longrightarrow> takeWhile isdigit (dec n @ s) = dec n"
  using dec_digits [of n] by (cases s) (auto simp: list_all_iff takeWhile_append2)

lemma not_isdigit [simp]:
  "\<not> isdigit (CHR 0x0A)" "\<not> isdigit (CHR '' '')" "\<not> isdigit (CHR '';'')" "\<not> isdigit (CHR ''.'')"
  "\<not> isdigit (CHR ''-'')" "\<not> isdigit (CHR ''+'')" "\<not> isdigit (CHR ''/'')"
  by (simp_all add: isdigit_def)

lemma isdigit_not_isspace: "isdigit c \<Longrightarrow> \<not> isspace c"
  by (auto simp: isdigit_def isspace_def)

lemma hd_dec: "isdigit (hd (dec n @ s))"
  using dec_digits [of n] by (cases "dec n") auto

lemma int_cast_small: "- (2 ^ 31) \<le> x \<Longrightarrow> x < 2 ^ 31 \<Longrightarrow> int_cast x = x"
  unfolding int_cast_def by (simp add: signed_of_int signed_take_bit_int_eq_self_iff)

text \<open>\<^verbatim>\<open>atoi\<close> reads back what \<^verbatim>\<open>%d\<close> prints.\<close>

lemma strtol10_dec_int:
  assumes "\<bar>i\<bar> < 2 ^ 63" and "s = [] \<or> \<not> isdigit (hd s)"
  shows "strtol10 (dec_int i @ s) = i"
proof -
  have d: "takeWhile isdigit (dec n @ s) = dec n" "dropWhile isspace (dec n @ s) = dec n @ s"
      "hd (dec n @ s) \<notin> {CHR ''-'', CHR ''+''}" for n
    using assms(2) hd_dec [of n s] takeWhile_dec [of s n]
    by (auto simp: isdigit_not_isspace dropWhile_eq_self_iff)
  show ?thesis
  proof (cases "i < 0")
    case True
    then have "strtol10 (dec_int i @ s) = max (- (2 ^ 63)) (- int (nat \<bar>i\<bar>))"
      using d(1) [of "nat (- i)"]
      by (simp add: strtol10_def dec_int_def isspace_def num_value_num_text Let_def)
    with assms(1) True show ?thesis by simp
  next
    case False
    then have "strtol10 (dec_int i @ s) = min (2 ^ 63 - 1) (int (nat \<bar>i\<bar>))"
      using d [of "nat i"]
      by (simp add: strtol10_def dec_int_def num_value_num_text Let_def)
    with assms(1) False show ?thesis by simp
  qed
qed

lemma atoi_dec_int:
  assumes "- (2 ^ 31) \<le> i" and "i < 2 ^ 31" and "s = [] \<or> \<not> isdigit (hd s)"
  shows "atoi (dec_int i @ s) = i"
  using assms strtol10_dec_int [of i s] by (simp add: atoi_def int_cast_small)

subsection \<open>Addresses\<close>

text \<open>
  The loop of \<^verbatim>\<open>inet_pton\<close> for hexadecimal groups. Its state: the words stored so far, the number of
  them before the \<^verbatim>\<open>::\<close>, the digits seen of the current group and their value. A dotted quad does not
  occur in what the scanner takes for an address, and is rejected here.
\<close>

definition store_word :: "nat list \<Rightarrow> nat \<Rightarrow> nat list option" where
  "store_word ws val = (if length ws < 8 then Some (ws @ [val]) else None)"

fun pton_loop :: "nat list \<Rightarrow> nat option \<Rightarrow> nat \<Rightarrow> nat \<Rightarrow> string \<Rightarrow> (nat list \<times> nat option) option" where
  "pton_loop ws colonp seen val [] =
     (if seen > 0 then do { ws \<leftarrow> store_word ws val; Some (ws, colonp) } else Some (ws, colonp))"
| "pton_loop ws colonp seen val (ch # src) =
     (case hex_digit_value ch of
        Some d \<Rightarrow>
          if seen = 4 then None else pton_loop ws colonp (Suc seen) (val * 16 + d) src
      | None \<Rightarrow>
          if ch = CHR '':'' then
            (if seen = 0 then
               (if colonp \<noteq> None then None else pton_loop ws (Some (length ws)) 0 0 src)
             else if src = [] then None
             else do { ws \<leftarrow> store_word ws val; pton_loop ws colonp 0 0 src })
          else None)"

definition words_addr :: "nat list \<Rightarrow> in6_addr" where
  "words_addr ws = foldl (\<lambda>acc x. acc * 65536 + of_nat x) 0 ws"

definition inet_pton :: "string \<Rightarrow> in6_addr option" where
  "inet_pton src =
     (let lead = (src \<noteq> [] \<and> hd src = CHR '':'')
      in if src = [] \<or> lead \<and> (tl src = [] \<or> hd (tl src) \<noteq> CHR '':'') then None
         else do {
           (ws, colonp) \<leftarrow> pton_loop [] None 0 0 (if lead then tl src else src);
           (case colonp of
              None \<Rightarrow> if length ws = 8 then Some (words_addr ws) else None
            | Some n \<Rightarrow>
                if length ws = 8 then None
                else Some (words_addr (take n ws @ replicate (8 - length ws) 0 @ drop n ws)))
         })"

end
