(* ===== verification/Regex.thy ===== *)
theory Regex
  imports Text_Input
begin

text \<open>
  Regular expressions with the matching that \<^verbatim>\<open>flex\<close> documents: the longest prefix of the input that
  is in the language of the expression, found by derivatives.
\<close>

subsection \<open>Regular expressions\<close>

text \<open>\<open>Lit\<close> is a literal text in either case.\<close>

datatype regex =
    Empty
  | Eps
  | Cls "char \<Rightarrow> bool"
  | Lit string
  | Alt regex regex
  | Cat regex regex
  | Star regex

fun nullable :: "regex \<Rightarrow> bool" where
  "nullable Empty = False"
| "nullable Eps = True"
| "nullable (Cls p) = False"
| "nullable (Lit w) = (w = [])"
| "nullable (Alt r q) = (nullable r \<or> nullable q)"
| "nullable (Cat r q) = (nullable r \<and> nullable q)"
| "nullable (Star r) = True"

fun mk_alt :: "regex \<Rightarrow> regex \<Rightarrow> regex" where
  "mk_alt Empty q = q"
| "mk_alt r Empty = r"
| "mk_alt r q = Alt r q"

fun mk_cat :: "regex \<Rightarrow> regex \<Rightarrow> regex" where
  "mk_cat Empty q = Empty"
| "mk_cat Eps q = q"
| "mk_cat r q = Cat r q"

fun deriv :: "char \<Rightarrow> regex \<Rightarrow> regex" where
  "deriv c Empty = Empty"
| "deriv c Eps = Empty"
| "deriv c (Cls p) = (if p c then Eps else Empty)"
| "deriv c (Lit []) = Empty"
| "deriv c (Lit (d # w)) = (if tolower c = tolower d then Lit w else Empty)"
| "deriv c (Alt r q) = mk_alt (deriv c r) (deriv c q)"
| "deriv c (Cat r q) =
     (if nullable r then mk_alt (mk_cat (deriv c r) q) (deriv c q) else mk_cat (deriv c r) q)"
| "deriv c (Star r) = mk_cat (deriv c r) (Star r)"

fun is_empty :: "regex \<Rightarrow> bool" where
  "is_empty Empty = True"
| "is_empty _ = False"

text \<open>The length of the longest prefix that an expression matches.\<close>

fun longest :: "regex \<Rightarrow> string \<Rightarrow> nat option" where
  "longest r [] = (if nullable r then Some 0 else None)"
| "longest r (c # s) =
     (if is_empty r then None
      else case longest (deriv c r) s of
             Some n \<Rightarrow> Some (Suc n)
           | None \<Rightarrow> if nullable r then Some 0 else None)"

subsection \<open>The match is the longest of the language\<close>

fun lang :: "regex \<Rightarrow> string set" where
  "lang Empty = {}"
| "lang Eps = {[]}"
| "lang (Cls p) = {[c] |c. p c}"
| "lang (Lit w) = {v. map tolower v = map tolower w}"
| "lang (Alt r q) = lang r \<union> lang q"
| "lang (Cat r q) = {u @ v |u v. u \<in> lang r \<and> v \<in> lang q}"
| "lang (Star r) = {concat us |us. set us \<subseteq> lang r}"

lemma nullable_lang: "nullable r \<longleftrightarrow> [] \<in> lang r"
proof (induction r)
  case (Star r)
  show ?case by (auto intro: exI [of _ "[]"])
qed auto

lemma lang_mk_alt [simp]: "lang (mk_alt r q) = lang r \<union> lang q"
  by (induction r q rule: mk_alt.induct) auto

lemma lang_mk_cat [simp]: "lang (mk_cat r q) = lang (Cat r q)"
  by (induction r q rule: mk_cat.induct) auto

lemma lang_Cat_Cons:
  "c # s \<in> lang (Cat r q) \<longleftrightarrow>
    (\<exists>u v. s = u @ v \<and> c # u \<in> lang r \<and> v \<in> lang q) \<or> [] \<in> lang r \<and> c # s \<in> lang q"
  by (auto simp: Cons_eq_append_conv)

lemma concat_Cons_split:
  assumes "concat us = c # s"
  obtains u ws where "c # u \<in> set us" "s = u @ concat ws" "set ws \<subseteq> set us"
  using assms
proof (induction us arbitrary: thesis)
  case (Cons w us)
  show ?case
  proof (cases w)
    case Nil
    with Cons.prems(2) have "concat us = c # s" by simp
    from Cons.IH [OF _ this] Cons.prems(1) show ?thesis
      by (metis (no_types, lifting) list.set_intros(2) set_subset_Cons subset_trans)
  next
    case (Cons d u)
    with Cons.prems show ?thesis by auto
  qed
qed simp

lemma lang_Star_Cons:
  "c # s \<in> lang (Star r) \<longleftrightarrow> (\<exists>u v. s = u @ v \<and> c # u \<in> lang r \<and> v \<in> lang (Star r))"
proof
  assume "c # s \<in> lang (Star r)"
  then obtain us where us: "concat us = c # s" "set us \<subseteq> lang r" by auto
  obtain u ws where "c # u \<in> set us" "s = u @ concat ws" "set ws \<subseteq> set us"
    by (rule concat_Cons_split [OF us(1)])
  with us(2) have "c # u \<in> lang r" "concat ws \<in> lang (Star r)" "s = u @ concat ws"
    by (auto simp del: lang.simps(1-6))
  then show "\<exists>u v. s = u @ v \<and> c # u \<in> lang r \<and> v \<in> lang (Star r)"
    by blast
next
  assume "\<exists>u v. s = u @ v \<and> c # u \<in> lang r \<and> v \<in> lang (Star r)"
  then obtain u us where "s = u @ concat us" "c # u \<in> lang r" "set us \<subseteq> lang r" by auto
  then have "c # s = concat ((c # u) # us)" "set ((c # u) # us) \<subseteq> lang r" by simp_all
  then show "c # s \<in> lang (Star r)"
    unfolding lang.simps mem_Collect_eq by blast
qed

lemma lang_deriv: "s \<in> lang (deriv c r) \<longleftrightarrow> c # s \<in> lang r"
proof (induction c r arbitrary: s rule: deriv.induct)
  case (7 c r q)
  then show ?case
    by (simp only: deriv.simps lang_Cat_Cons nullable_lang split: if_split) auto
next
  case (8 c r)
  then show ?case
    by (simp only: deriv.simps lang_mk_cat lang_Star_Cons) auto
qed auto

lemma is_empty_iff: "is_empty r \<longleftrightarrow> r = Empty"
  by (cases r) simp_all

text \<open>\<open>n\<close> is the length of the longest prefix of \<open>s\<close> in \<open>L\<close>.\<close>

definition longest_match :: "string set \<Rightarrow> string \<Rightarrow> nat \<Rightarrow> bool" where
  "longest_match L s n \<longleftrightarrow>
     n \<le> length s \<and> take n s \<in> L \<and> (\<forall>m. n < m \<and> m \<le> length s \<longrightarrow> take m s \<notin> L)"

lemma take_Cons_lang:
  "take m (c # s) \<in> lang r \<longleftrightarrow> (case m of 0 \<Rightarrow> nullable r | Suc k \<Rightarrow> take k s \<in> lang (deriv c r))"
  by (simp add: nullable_lang lang_deriv split: nat.split)

lemma longest_spec:
  "case longest r s of
     None \<Rightarrow> \<forall>m. m \<le> length s \<longrightarrow> take m s \<notin> lang r
   | Some n \<Rightarrow> longest_match (lang r) s n"
proof (induction r s rule: longest.induct)
  case (1 r)
  show ?case by (auto simp: longest_match_def nullable_lang)
next
  case (2 r c s)
  show ?case
  proof (cases "is_empty r")
    case True
    then show ?thesis by (simp add: is_empty_iff)
  next
    case False
    show ?thesis
    proof (cases "longest (deriv c r) s")
      case None
      with 2 [OF False] show ?thesis
        by (auto simp: False longest_match_def take_Cons_lang nullable_lang split: nat.split)
    next
      case (Some n)
      with 2 [OF False] show ?thesis
        by (auto simp: False longest_match_def take_Cons_lang lang_deriv split: nat.split_asm nat.split)
    qed
  qed
qed

lemma longest_Some: "longest r s = Some n \<Longrightarrow> longest_match (lang r) s n"
  using longest_spec [where r = r and s = s] by simp

lemma longest_None: "longest r s = None \<Longrightarrow> m \<le> length s \<Longrightarrow> take m s \<notin> lang r"
  using longest_spec [where r = r and s = s] by simp

lemma longest_match_unique: "longest_match L s n \<Longrightarrow> longest_match L s m \<Longrightarrow> n = m"
  by (metis linorder_neqE_nat longest_match_def)

lemma longest_eq_Some: "longest r s = Some n \<longleftrightarrow> longest_match (lang r) s n"
  using longest_spec [where r = r and s = s]
  by (cases "longest r s") (auto dest: longest_match_unique, auto simp: longest_match_def)

end
