(* ===== verification/Scanner.thy ===== *)
theory Scanner
  imports Regex
begin

text \<open>
  \<^verbatim>\<open>scanner.l\<close>: the tokens of the configuration file. The rules of the scanner are regular expressions
  with an action each; as \<^verbatim>\<open>flex\<close> does, the scanner takes the longest match and, among rules with
  the same match, the first. The expressions are matched by derivatives, and the match found is
  proved to be the longest of their languages. Keywords are matched without regard to case.
\<close>

subsection \<open>Tokens\<close>

datatype (plugins only: code) keyword =
    T_INTERFACE | T_PREFIX | T_ROUTE | T_RDNSS | T_DNSSL | T_CLIENTS | T_LOWPANCO | T_ABRO
  | T_NAT64PREFIX | T_AUTOIGNOREPREFIX | T_RASRCADDRESS | T_IgnoreIfMissing | T_AdvSendAdvert
  | T_MaxRtrAdvInterval | T_MinRtrAdvInterval | T_AdvManagedFlag | T_AdvOtherConfigFlag
  | T_AdvLinkMTU | T_AdvRAMTU | T_AdvReachableTime | T_AdvRetransTimer | T_AdvCurHopLimit
  | T_AdvDefaultLifetime | T_AdvDefaultPreference | T_AdvSourceLLAddress | T_RemoveAdvOnExit
  | T_AdvOnLink | T_AdvAutonomous | T_AdvDHCPv6PDPreferred | T_AdvValidLifetime
  | T_AdvPreferredLifetime | T_DeprecatePrefix | T_DecrementLifetimes | T_AdvRouterAddr
  | T_AdvHomeAgentFlag | T_AdvIntervalOpt | T_AdvHomeAgentInfo | T_UnicastOnly
  | T_UnrestrictedUnicast | T_AdvRASolicitedUnicast | T_AdvCaptivePortalAPI
  | T_AdvSNACRouterFlag | T_Base6Interface | T_Base6to4Interface | T_HomeAgentPreference
  | T_HomeAgentLifetime | T_AdvRoutePreference | T_AdvRouteLifetime | T_RemoveRoute
  | T_AdvRDNSSPreference | T_AdvRDNSSOpenFlag | T_AdvRDNSSLifetime | T_FlushRDNSS
  | T_AdvDNSSLLifetime | T_FlushDNSSL | T_MinDelayBetweenRAs | T_AdvMobRtrSupportFlag
  | T_AdvContextLength | T_AdvContextCompressionFlag | T_AdvContextID | T_AdvLifeTime
  | T_AdvContextPrefix | T_AdvVersionLow | T_AdvVersionHigh | T_Adv6LBRaddress

datatype token =
    KEYWORD keyword
  | STRING string
  | NUMBER u32
  | SIGNEDNUMBER int
  | DECIMAL rat
  | SWITCH bool
  | IPV6ADDR in6_addr
  | NOT_IPV6ADDR in6_addr
  | INFINITY
  | LITERAL char
  | T_BAD_TOKEN

definition keyword_table :: "(string \<times> keyword) list" where
  "keyword_table =
     [(''interface'', T_INTERFACE), (''prefix'', T_PREFIX), (''route'', T_ROUTE),
      (''RDNSS'', T_RDNSS), (''DNSSL'', T_DNSSL), (''clients'', T_CLIENTS),
      (''lowpanco'', T_LOWPANCO), (''abro'', T_ABRO), (''nat64prefix'', T_NAT64PREFIX),
      (''autoignoreprefixes'', T_AUTOIGNOREPREFIX), (''AdvRASrcAddress'', T_RASRCADDRESS),
      (''IgnoreIfMissing'', T_IgnoreIfMissing), (''AdvSendAdvert'', T_AdvSendAdvert),
      (''MaxRtrAdvInterval'', T_MaxRtrAdvInterval), (''MinRtrAdvInterval'', T_MinRtrAdvInterval),
      (''AdvManagedFlag'', T_AdvManagedFlag), (''AdvOtherConfigFlag'', T_AdvOtherConfigFlag),
      (''AdvLinkMTU'', T_AdvLinkMTU), (''AdvRAMTU'', T_AdvRAMTU),
      (''AdvReachableTime'', T_AdvReachableTime), (''AdvRetransTimer'', T_AdvRetransTimer),
      (''AdvCurHopLimit'', T_AdvCurHopLimit), (''AdvDefaultLifetime'', T_AdvDefaultLifetime),
      (''AdvDefaultPreference'', T_AdvDefaultPreference),
      (''AdvSourceLLAddress'', T_AdvSourceLLAddress), (''RemoveAdvOnExit'', T_RemoveAdvOnExit),
      (''AdvOnLink'', T_AdvOnLink), (''AdvAutonomous'', T_AdvAutonomous),
      (''AdvDHCPv6PDPreferred'', T_AdvDHCPv6PDPreferred),
      (''AdvValidLifetime'', T_AdvValidLifetime),
      (''AdvPreferredLifetime'', T_AdvPreferredLifetime),
      (''DeprecatePrefix'', T_DeprecatePrefix), (''DecrementLifetimes'', T_DecrementLifetimes),
      (''AdvRouterAddr'', T_AdvRouterAddr), (''AdvHomeAgentFlag'', T_AdvHomeAgentFlag),
      (''AdvIntervalOpt'', T_AdvIntervalOpt), (''AdvHomeAgentInfo'', T_AdvHomeAgentInfo),
      (''UnicastOnly'', T_UnicastOnly), (''UnrestrictedUnicast'', T_UnrestrictedUnicast),
      (''AdvRASolicitedUnicast'', T_AdvRASolicitedUnicast),
      (''AdvCaptivePortalAPI'', T_AdvCaptivePortalAPI),
      (''AdvSNACRouterFlag'', T_AdvSNACRouterFlag), (''Base6Interface'', T_Base6Interface),
      (''Base6to4Interface'', T_Base6to4Interface),
      (''HomeAgentPreference'', T_HomeAgentPreference),
      (''HomeAgentLifetime'', T_HomeAgentLifetime),
      (''AdvRoutePreference'', T_AdvRoutePreference), (''AdvRouteLifetime'', T_AdvRouteLifetime),
      (''RemoveRoute'', T_RemoveRoute), (''AdvRDNSSPreference'', T_AdvRDNSSPreference),
      (''AdvRDNSSOpen'', T_AdvRDNSSOpenFlag), (''AdvRDNSSLifetime'', T_AdvRDNSSLifetime),
      (''FlushRDNSS'', T_FlushRDNSS), (''AdvDNSSLLifetime'', T_AdvDNSSLLifetime),
      (''FlushDNSSL'', T_FlushDNSSL), (''MinDelayBetweenRAs'', T_MinDelayBetweenRAs),
      (''AdvMobRtrSupportFlag'', T_AdvMobRtrSupportFlag),
      (''AdvContextLength'', T_AdvContextLength),
      (''AdvContextCompressionFlag'', T_AdvContextCompressionFlag),
      (''AdvContextID'', T_AdvContextID), (''AdvLifeTime'', T_AdvLifeTime),
      (''AdvContextPrefix'', T_AdvContextPrefix), (''AdvVersionLow'', T_AdvVersionLow),
      (''AdvVersionHigh'', T_AdvVersionHigh), (''Adv6LBRaddress'', T_Adv6LBRaddress)]"

subsection \<open>The rules\<close>

definition rep4 :: "regex \<Rightarrow> regex" where
  "rep4 r = Cat r (Alt Eps (Cat r (Alt Eps (Cat r (Alt Eps r)))))"

definition rep1 :: "regex \<Rightarrow> regex" where
  "rep1 r = Cat r (Star r)"

definition number_re :: regex where
  "number_re = rep1 (Cls isdigit)"

definition snum_re :: regex where
  "snum_re = Cat (Alt (Lit ''-'') Eps) number_re"

definition decimal_re :: regex where
  "decimal_re = Cat number_re (Cat (Lit ''.'') number_re)"

definition hex4_re :: regex where
  "hex4_re = rep4 (Cls isxdigit)"

definition addr1_re :: regex where
  "addr1_re = Cat hex4_re (Cat (Lit '':'') (Cat (Star (Cat hex4_re (Lit '':''))) (rep1 (Cat (Lit '':'') hex4_re))))"

definition addr2_re :: regex where
  "addr2_re = Cat hex4_re (Cat (Star (Cat (Lit '':'') hex4_re)) (Lit ''::''))"

definition addr3_re :: regex where
  "addr3_re = (let g = Cat hex4_re (Lit '':'')
     in Cat g (Cat g (Cat g (Cat g (Cat g (Cat g (Cat g hex4_re)))))))"

definition addr_re :: regex where
  "addr_re = Alt addr1_re (Alt addr2_re (Alt addr3_re (Lit ''::'')))"

definition naddr_re :: regex where
  "naddr_re = Cat (Lit ''!'') addr_re"

definition whitespace_re :: regex where
  "whitespace_re = rep1 (Cls (\<lambda>c. c = CHR '' '' \<or> c = CHR 0x09))"

text \<open>The characters of a string without quotes.\<close>

definition string_char :: "char \<Rightarrow> bool" where
  "string_char c \<longleftrightarrow>
     (let n = (of_char c :: nat)
      in 97 \<le> n \<and> n \<le> 122 \<or> 65 \<le> n \<and> n \<le> 90 \<or> 48 \<le> n \<and> n \<le> 57) \<or>
     c \<in> {CHR 0x60, CHR ''~'', CHR ''!'', CHR ''@'', CHR ''#'', CHR ''$'', CHR ''%'', CHR ''^'', CHR ''&'',
       CHR ''*'', CHR ''('', CHR '')'', CHR ''_'', CHR ''-'', CHR ''+'', CHR ''='', CHR '':'', CHR ''['',
       CHR '']'', CHR ''<'', CHR ''>'', CHR '','', CHR ''.'', CHR ''?'', CHR 0x5C}"

lemma string_char_bits [code]: "string_char (Char b0 b1 b2 b3 b4 b5 b6 b7) \<longleftrightarrow>
   \<not> b7 \<and> (b6 \<or> b5) \<and>
   (let n = [b6, b5, b4, b3, b2, b1, b0] in
    n \<notin> {[False,True,False,False,False,False,False], [False,True,False,False,False,True,False],
      [False,True,False,False,True,True,True], [False,True,False,True,True,True,True],
      [False,True,True,True,False,True,True], [True,True,True,True,False,True,True],
      [True,True,True,True,True,False,False], [True,True,True,True,True,False,True],
      [True,True,True,True,True,True,True]})"
  unfolding string_char_def
  by (cases b0; cases b1; cases b2; cases b3; cases b4; cases b5; cases b6; cases b7) simp_all

definition not_newline :: "char \<Rightarrow> bool" where
  "not_newline c \<longleftrightarrow> c \<noteq> CHR 0x0A"

definition quoted_re :: regex where
  "quoted_re = Cat (Alt (Lit ''L'') Eps) (Cat (Lit [CHR 0x22])
     (Cat (Star (Alt (Cat (Lit [CHR 0x5C]) (Cls not_newline)) (Cls (\<lambda>c. c \<noteq> CHR 0x5C \<and> c \<noteq> CHR 0x22))))
       (Lit [CHR 0x22])))"

definition string_re :: regex where
  "string_re = Alt (rep1 (Cls string_char)) quoted_re"

text \<open>A comment ends before a line feed: its rule has the line feed as trailing context.\<close>

definition comment_re :: regex where
  "comment_re = Cat (Lit ''#'') (Cat (Star (Cls not_newline)) (Cls (\<lambda>c. c = CHR 0x0A)))"

datatype action =
    Do_comment
  | Do_newline
  | Do_nothing
  | Do_return token
  | Do_addr
  | Do_naddr
  | Do_number
  | Do_snum
  | Do_decimal
  | Do_string
  | Do_literal

definition rules :: "(regex \<times> action) list" where
  "rules =
     [(comment_re, Do_comment),
      (Lit [CHR 0x0A], Do_newline),
      (whitespace_re, Do_nothing)] @
     map (\<lambda>(w, k). (Lit w, Do_return (KEYWORD k))) keyword_table @
     [(addr_re, Do_addr),
      (naddr_re, Do_naddr),
      (number_re, Do_number),
      (snum_re, Do_snum),
      (decimal_re, Do_decimal),
      (Lit ''infinity'', Do_return INFINITY),
      (Lit ''on'', Do_return (SWITCH True)),
      (Lit ''off'', Do_return (SWITCH False)),
      (Lit ''low'', Do_return (SIGNEDNUMBER (-1))),
      (Lit ''medium'', Do_return (SIGNEDNUMBER 0)),
      (Lit ''high'', Do_return (SIGNEDNUMBER 1)),
      (string_re, Do_string),
      (Cls (\<lambda>c. c \<in> {CHR ''{'', CHR ''}'', CHR '';'', CHR ''/''}), Do_literal),
      (Cls not_newline, Do_return T_BAD_TOKEN)]"

text \<open>The longest match; a later rule wins only with a longer one.\<close>

definition better :: "string \<Rightarrow> regex \<times> action \<Rightarrow> (nat \<times> action) option \<Rightarrow> (nat \<times> action) option" where
  "better s ra best =
     (case longest (fst ra) s of
        None \<Rightarrow> best
      | Some n \<Rightarrow>
          (case best of
             None \<Rightarrow> Some (n, snd ra)
           | Some (m, b) \<Rightarrow> if m < n then Some (n, snd ra) else best))"

fun best_rule :: "(regex \<times> action) list \<Rightarrow> string \<Rightarrow> (nat \<times> action) option \<Rightarrow> (nat \<times> action) option" where
  "best_rule [] s best = best"
| "best_rule (ra # rs) s best = best_rule rs s (better s ra best)"

subsection \<open>The actions\<close>

definition number_token :: "string \<Rightarrow> token" where
  "number_token yytext =
     (let lnum = strtoul10 yytext
      in if lnum > 0xFFFFFFFF then T_BAD_TOKEN else NUMBER (of_nat lnum))"

text \<open>The static buffer holds 255 characters and a zero byte.\<close>

definition string_token :: "string \<Rightarrow> token" where
  "string_token yytext = STRING (take 255 (takeWhile (\<lambda>c. c \<noteq> CHR 0x00) yytext))"

text \<open>
  What an action does with the text matched: the token it returns, if any, the lines it counts and
  the number of characters it consumes (the trailing context of a comment is read again).
\<close>

definition perform :: "action \<Rightarrow> string \<Rightarrow> token option \<times> nat \<times> nat" where
  "perform a yytext =
     (let n = length yytext
      in case a of
           Do_comment \<Rightarrow> (None, 0, n - 1)
         | Do_newline \<Rightarrow> (None, 1, n)
         | Do_nothing \<Rightarrow> (None, 0, n)
         | Do_return t \<Rightarrow> (Some t, 0, n)
         | Do_addr \<Rightarrow> (Some (case inet_pton yytext of Some x \<Rightarrow> IPV6ADDR x | None \<Rightarrow> T_BAD_TOKEN), 0, n)
         | Do_naddr \<Rightarrow> (Some (case inet_pton (tl yytext) of Some x \<Rightarrow> NOT_IPV6ADDR x | None \<Rightarrow> T_BAD_TOKEN), 0, n)
         | Do_number \<Rightarrow> (Some (number_token yytext), 0, n)
         | Do_snum \<Rightarrow> (Some (SIGNEDNUMBER (atoi yytext)), 0, n)
         | Do_decimal \<Rightarrow> (Some (DECIMAL (atof yytext)), 0, n)
         | Do_string \<Rightarrow> (Some (string_token yytext), 0, n)
         | Do_literal \<Rightarrow> (Some (LITERAL (hd yytext)), 0, n))"

text \<open>One match: what \<open>perform\<close> gives for the rule chosen.\<close>

definition scan_step :: "string \<Rightarrow> token option \<times> nat \<times> nat" where
  "scan_step s =
     (case best_rule rules s None of
        None \<Rightarrow> (None, 0, length s)
      | Some (n, a) \<Rightarrow> perform a (take n s))"

subsection \<open>The scanner makes progress\<close>

lemmas pattern_defs = comment_re_def whitespace_re_def addr_re_def addr1_re_def addr2_re_def addr3_re_def
  naddr_re_def number_re_def snum_re_def decimal_re_def string_re_def quoted_re_def hex4_re_def
  rep4_def rep1_def

lemma keyword_table_nonempty: "list_all (\<lambda>(w, k). w \<noteq> []) keyword_table"
  by (simp add: keyword_table_def)

lemma rules_not_nullable: "list_all (\<lambda>(r, a). \<not> nullable r) rules"
  using keyword_table_nonempty
  by (simp add: rules_def pattern_defs list.pred_map case_prod_beta Let_def list_all_iff)

text \<open>The rule chosen is the first of those with the longest match.\<close>

definition first_longest :: "(regex \<times> action) list \<Rightarrow> string \<Rightarrow> nat \<Rightarrow> action \<Rightarrow> bool" where
  "first_longest rs s n a \<longleftrightarrow>
     (\<exists>before r after. rs = before @ (r, a) # after \<and> n \<le> length s \<and> take n s \<in> lang r \<and>
        (\<forall>(q, b) \<in> set before. take n s \<notin> lang q) \<and>
        (\<forall>(q, b) \<in> set rs. \<forall>m. m \<le> length s \<and> take m s \<in> lang q \<longrightarrow> m \<le> n))"

definition choice :: "(regex \<times> action) list \<Rightarrow> string \<Rightarrow> (nat \<times> action) option \<Rightarrow> bool" where
  "choice rs s best \<longleftrightarrow>
     (case best of
        None \<Rightarrow> \<forall>(q, b) \<in> set rs. \<forall>m. m \<le> length s \<longrightarrow> take m s \<notin> lang q
      | Some (n, a) \<Rightarrow> first_longest rs s n a)"

lemma first_longestI:
  assumes "rs = before @ (r, a) # after" and "n \<le> length s" and "take n s \<in> lang r"
    and "\<And>q b. (q, b) \<in> set before \<Longrightarrow> take n s \<notin> lang q"
    and "\<And>q b m. (q, b) \<in> set rs \<Longrightarrow> m \<le> length s \<Longrightarrow> take m s \<in> lang q \<Longrightarrow> m \<le> n"
  shows "first_longest rs s n a"
  unfolding first_longest_def using assms by (intro exI [of _ before] exI [of _ r] exI [of _ after]) blast

lemma first_longest_upper:
  "first_longest rs s n a \<Longrightarrow> (q, b) \<in> set rs \<Longrightarrow> m \<le> length s \<Longrightarrow> take m s \<in> lang q \<Longrightarrow> m \<le> n"
  by (auto simp: first_longest_def)

text \<open>A rule whose match is not longer than the one found changes nothing.\<close>

lemma first_longest_keep:
  assumes "first_longest rs s n b" and upper: "\<And>m. m \<le> length s \<Longrightarrow> take m s \<in> lang r \<Longrightarrow> m \<le> n"
  shows "first_longest (rs @ [(r, a)]) s n b"
proof -
  from assms(1) obtain before r' after where
    r': "rs = before @ (r', b) # after" "n \<le> length s" "take n s \<in> lang r'"
    "\<forall>(q, c) \<in> set before. take n s \<notin> lang q"
    unfolding first_longest_def by blast
  show ?thesis
  proof (rule first_longestI [of _ before r' _ "after @ [(r, a)]"])
    show "m \<le> n" if "(q, c) \<in> set (rs @ [(r, a)])" "m \<le> length s" "take m s \<in> lang q" for q c m
      using that upper first_longest_upper [OF assms(1), of q c m] by auto
  qed (use r' in auto)
qed

text \<open>A rule whose match is longer than all found so far takes over.\<close>

lemma first_longest_take:
  assumes "longest r s = Some n"
    and old: "\<And>q b m. (q, b) \<in> set rs \<Longrightarrow> m \<le> length s \<Longrightarrow> take m s \<in> lang q \<Longrightarrow> m < n"
  shows "first_longest (rs @ [(r, a)]) s n a"
proof (rule first_longestI [of _ rs r _ "[]"])
  note n = longest_Some [OF assms(1), unfolded longest_match_def]
  then show "n \<le> length s" "take n s \<in> lang r" by auto
  show "m \<le> n" if "(q, b) \<in> set (rs @ [(r, a)])" "m \<le> length s" "take m s \<in> lang q" for q b m
    using that n old [of q b m] by (auto simp: not_le_imp_less intro: leI)
  show "take n s \<notin> lang q" if "(q, b) \<in> set rs" for q b
    using old [OF that, of n] n by auto
qed simp

lemma choice_better:
  assumes "choice rs s best"
  shows "choice (rs @ [ra]) s (better s ra best)"
proof -
  obtain r a where ra: "ra = (r, a)" by fastforce
  show ?thesis
  proof (cases "longest r s")
    case None
    with assms first_longest_keep [of rs s _ _ r a] longest_None [OF None] show ?thesis
      by (auto simp: ra better_def choice_def split: option.split_asm option.split)
  next
    case (Some n)
    have upper: "m \<le> n" if "m \<le> length s" "take m s \<in> lang r" for m
      using longest_Some [OF Some] that by (metis longest_match_def not_le_imp_less)
    show ?thesis
    proof (cases best)
      case None
      with assms first_longest_take [OF Some, of rs a] show ?thesis
        by (auto simp: ra better_def choice_def Some)
    next
      case best: (Some mb)
      obtain m b where mb: "mb = (m, b)" by fastforce
      with assms best have fl: "first_longest rs s m b" by (simp add: choice_def)
      show ?thesis
      proof (cases "m < n")
        case True
        have "first_longest (rs @ [(r, a)]) s n a"
          using first_longest_upper [OF fl] True
          by (intro first_longest_take [OF Some]) (meson le_less_trans)
        with True show ?thesis by (simp add: ra better_def choice_def Some best mb)
      next
        case False
        with upper have "first_longest (rs @ [(r, a)]) s m b"
          by (intro first_longest_keep [OF fl]) (meson le_less_trans not_less)
        with False show ?thesis by (simp add: ra better_def choice_def Some best mb)
      qed
    qed
  qed
qed

lemma choice_best_rule: "choice done' s best \<Longrightarrow> choice (done' @ rs) s (best_rule rs s best)"
proof (induction rs arbitrary: done' best)
  case (Cons ra rs)
  from Cons.IH [OF choice_better [OF Cons.prems]] show ?case by simp
qed simp

lemma best_rule_choice: "choice rs s (best_rule rs s None)"
  using choice_best_rule [of "[]" s None rs] by (simp add: choice_def)

lemma best_rule_first_longest: "best_rule rs s None = Some (n, a) \<Longrightarrow> first_longest rs s n a"
  using best_rule_choice [of rs s] by (simp add: choice_def)

lemma best_rule_None:
  "best_rule rs s None = None \<Longrightarrow> (q, b) \<in> set rs \<Longrightarrow> m \<le> length s \<Longrightarrow> take m s \<notin> lang q"
  using best_rule_choice [of rs s] by (auto simp: choice_def)

lemma first_longest_rule:
  assumes "first_longest rs s n a"
  shows "\<exists>r. (r, a) \<in> set rs \<and> n \<le> length s \<and> take n s \<in> lang r"
  using assms by (auto simp: first_longest_def)

lemma best_rule_rules:
  assumes "s \<noteq> []"
  obtains n a where "best_rule rules s None = Some (n, a)" "0 < n" "n \<le> length s"
    "a = Do_comment \<Longrightarrow> 2 \<le> n"
proof -
  obtain c s' where s: "s = c # s'" using assms by (cases s) auto
  have "(Lit [CHR 0x0A], Do_newline) \<in> set rules" "(Cls not_newline, Do_return T_BAD_TOKEN) \<in> set rules"
    by (simp_all add: rules_def)
  moreover have "take 1 s \<in> lang (Lit [CHR 0x0A]) \<or> take 1 s \<in> lang (Cls not_newline)"
    by (auto simp: s not_newline_def)
  ultimately have "best_rule rules s None \<noteq> None"
    using best_rule_None [of rules s _ _ 1] s by (metis One_nat_def Suc_le_mono length_Cons zero_le)
  then obtain n a where na: "best_rule rules s None = Some (n, a)" by auto
  obtain r where r: "(r, a) \<in> set rules" "n \<le> length s" "take n s \<in> lang r"
    using first_longest_rule [OF best_rule_first_longest [OF na]] by blast
  have "\<not> nullable r"
    using r(1) rules_not_nullable by (auto simp: list_all_iff)
  with r(3) have "0 < n"
    by (auto simp: nullable_lang intro: gr0I)
  moreover have "2 \<le> n" if "a = Do_comment"
  proof -
    have "r = comment_re"
      using r(1) that by (auto simp: rules_def)
    then obtain c u where "take n s = c # u @ nl"
      using r(3) by (auto simp: comment_re_def)
    then have "2 \<le> length (take n s)" by (metis length_append_singleton length_Cons Suc_le_mono le0 numeral_2_eq_2)
    then show ?thesis by simp
  qed
  ultimately show ?thesis
    using that na r(2) by blast
qed

lemma scan_step_progress:
  assumes "s \<noteq> []" and "scan_step s = (tok, l, n)"
  shows "0 < n \<and> n \<le> length s"
proof -
  obtain m a where b: "best_rule rules s None = Some (m, a)" "0 < m" "m \<le> length s" "a = Do_comment \<Longrightarrow> 2 \<le> m"
    using best_rule_rules [OF assms(1)] by blast
  with assms(2) show ?thesis
    by (auto simp: scan_step_def perform_def Let_def split: action.split_asm)
qed

text \<open>The tokens of a text, each with the number of the line on which the scanner has counted.\<close>

function scan :: "int \<Rightarrow> string \<Rightarrow> (token \<times> int) list" where
  "scan num_lines s =
     (if s = [] then []
      else let (tok, l, n) = scan_step s; num_lines = num_lines + int l
           in (case tok of None \<Rightarrow> [] | Some t \<Rightarrow> [(t, num_lines)]) @ scan num_lines (drop n s))"
  by pat_completeness auto
termination
proof (relation "measure (\<lambda>(num_lines, s). length s)", goal_cases)
  case (2 num_lines s x tok y l n num_lines')
  then show ?case
    using scan_step_progress [of s tok l n] by auto
qed simp

declare scan.simps [simp del]

end
