(* ===== verification/Config.thy ===== *)
theory Config
  imports Scanner Iface
begin

text \<open>
  \<^verbatim>\<open>gram.y\<close>: the grammar of the configuration file and its actions, as functions on the list of tokens.
  Each function returns what its nonterminal has built and the tokens left; \<open>None\<close> means that the
  parser gave up, by a syntax error or by \<^verbatim>\<open>ABORT\<close>, or that an action left the bounds of its memory
  (only \<open>cidr_mask\<close> can). The lists of the grammar are left recursive; a list ends at the closing brace.
  Allocations succeed. The build has \<^verbatim>\<open>getifaddrs\<close>, so the prefix options that need it are supported.
\<close>

unbundle bit_operations_syntax

type_synonym toks = "(token \<times> int) list"

subsection \<open>Values\<close>

definition next_is :: "char \<Rightarrow> toks \<Rightarrow> bool" where
  "next_is c ts \<longleftrightarrow> ts \<noteq> [] \<and> fst (hd ts) = LITERAL c"

definition expect :: "char \<Rightarrow> toks \<Rightarrow> toks option" where
  "expect c ts = (if next_is c ts then Some (tl ts) else None)"

fun switch_val :: "toks \<Rightarrow> (bool \<times> toks) option" where
  "switch_val ((SWITCH b, _) # ts) = Some (b, ts)"
| "switch_val _ = None"

fun number_val :: "toks \<Rightarrow> (u32 \<times> toks) option" where
  "number_val ((NUMBER n, _) # ts) = Some (n, ts)"
| "number_val _ = None"

fun snum_val :: "toks \<Rightarrow> (int \<times> toks) option" where
  "snum_val ((SIGNEDNUMBER i, _) # ts) = Some (i, ts)"
| "snum_val _ = None"

fun seconds_val :: "toks \<Rightarrow> (rat \<times> toks) option" where
  "seconds_val ((NUMBER n, _) # ts) = Some (of_nat (unat n), ts)"
| "seconds_val ((DECIMAL d, _) # ts) = Some (d, ts)"
| "seconds_val _ = None"

fun number_or_infinity :: "toks \<Rightarrow> (u32 \<times> toks) option" where
  "number_or_infinity ((NUMBER n, _) # ts) = Some (n, ts)"
| "number_or_infinity ((INFINITY, _) # ts) = Some (-1, ts)"
| "number_or_infinity _ = None"

fun string_val :: "toks \<Rightarrow> (string \<times> toks) option" where
  "string_val ((STRING s, _) # ts) = Some (s, ts)"
| "string_val _ = None"

fun addr_val :: "toks \<Rightarrow> (in6_addr \<times> toks) option" where
  "addr_val ((IPV6ADDR a, _) # ts) = Some (a, ts)"
| "addr_val _ = None"

fun keyword_val :: "toks \<Rightarrow> (keyword \<times> toks) option" where
  "keyword_val ((KEYWORD k, _) # ts) = Some (k, ts)"
| "keyword_val _ = None"

text \<open>A value, a semicolon and an assignment.\<close>

definition assign :: "(toks \<Rightarrow> ('v \<times> toks) option) \<Rightarrow> ('v \<Rightarrow> 'a) \<Rightarrow> toks \<Rightarrow> ('a \<times> toks) option" where
  "assign val f ts = do {
     (v, ts) \<leftarrow> val ts;
     ts \<leftarrow> expect CHR '';'' ts;
     Some (f v, ts)
   }"

text \<open>Items up to the closing brace, which is consumed. Every item consumes tokens.\<close>

function plist :: "('a \<Rightarrow> toks \<Rightarrow> ('a \<times> toks) option) \<Rightarrow> 'a \<Rightarrow> toks \<Rightarrow> ('a \<times> toks) option" where
  "plist item x ts =
     (if next_is CHR ''}'' ts then Some (x, tl ts)
      else case item x ts of
             None \<Rightarrow> None
           | Some (y, ts') \<Rightarrow> if length ts' < length ts then plist item y ts' else None)"
  by pat_completeness auto
termination by (relation "measure (\<lambda>(item, x, ts). length ts)") auto

declare plist.simps [simp del]

text \<open>An address, a slash and a number.\<close>

definition addr_len :: "toks \<Rightarrow> ((in6_addr \<times> u32) \<times> toks) option" where
  "addr_len ts = do {
     (a, ts) \<leftarrow> addr_val ts;
     ts \<leftarrow> expect CHR ''/'' ts;
     (n, ts) \<leftarrow> number_val ts;
     Some ((a, n), ts)
   }"

text \<open>\<^verbatim>\<open>(int32_t)\<close> of an unsigned number, and \<^verbatim>\<open>strlcpy\<close> into an array of \<^verbatim>\<open>IFNAMSIZ\<close> characters.\<close>

definition i32 :: "u32 \<Rightarrow> int" where
  "i32 n = sint n"

definition ifname :: "string \<Rightarrow> string" where
  "ifname s = take (IFNAMSIZ - 1) s"

subsection \<open>Values of an interface\<close>

text \<open>The URL without the double quotes around it; an empty one aborts.\<close>

definition portal_url :: "string \<Rightarrow> string option" where
  "portal_url source =
     (let source = (if source \<noteq> [] \<and> hd source = CHR 0x22 then tl source else source);
          source = (if source \<noteq> [] \<and> last source = CHR 0x22 then butlast source else source)
      in if source = [] then None else Some source)"

definition captive_portal :: "Interface \<Rightarrow> toks \<Rightarrow> (Interface \<times> toks) option" where
  "captive_portal iface ts = do {
     (s, ts) \<leftarrow> string_val ts;
     ts \<leftarrow> expect CHR '';'' ts;
     url \<leftarrow> portal_url s;
     Some (iface\<lparr>AdvCaptivePortalAPI := Some url\<rparr>, ts)
   }"

definition clamp_ramtu :: "u32 \<Rightarrow> u32" where
  "clamp_ramtu n = min MAX_AdvLinkMTU (max MIN_AdvLinkMTU n)"

definition ifaceval :: "keyword \<Rightarrow> Interface \<Rightarrow> toks \<Rightarrow> (Interface \<times> toks) option" where
  "ifaceval k iface ts =
     (let hdr = ra_header_info iface; mip = mipv6 iface
      in if k = T_MinRtrAdvInterval then assign seconds_val (\<lambda>v. iface\<lparr>MinRtrAdvInterval := v\<rparr>) ts
         else if k = T_MaxRtrAdvInterval then assign seconds_val (\<lambda>v. iface\<lparr>MaxRtrAdvInterval := v\<rparr>) ts
         else if k = T_MinDelayBetweenRAs then assign seconds_val (\<lambda>v. iface\<lparr>MinDelayBetweenRAs := v\<rparr>) ts
         else if k = T_IgnoreIfMissing then assign switch_val (\<lambda>v. iface\<lparr>IgnoreIfMissing := v\<rparr>) ts
         else if k = T_AdvSendAdvert then assign switch_val (\<lambda>v. iface\<lparr>AdvSendAdvert := v\<rparr>) ts
         else if k = T_AdvManagedFlag then
           assign switch_val (\<lambda>v. iface\<lparr>ra_header_info := hdr\<lparr>AdvManagedFlag := v\<rparr>\<rparr>) ts
         else if k = T_AdvOtherConfigFlag then
           assign switch_val (\<lambda>v. iface\<lparr>ra_header_info := hdr\<lparr>AdvOtherConfigFlag := v\<rparr>\<rparr>) ts
         else if k = T_AdvLinkMTU then assign number_val (\<lambda>v. iface\<lparr>AdvLinkMTU := v\<rparr>) ts
         else if k = T_AdvRAMTU then assign number_val (\<lambda>v. iface\<lparr>AdvRAMTU := clamp_ramtu v\<rparr>) ts
         else if k = T_AdvReachableTime then
           assign number_val (\<lambda>v. iface\<lparr>ra_header_info := hdr\<lparr>AdvReachableTime := v\<rparr>\<rparr>) ts
         else if k = T_AdvRetransTimer then
           assign number_val (\<lambda>v. iface\<lparr>ra_header_info := hdr\<lparr>AdvRetransTimer := v\<rparr>\<rparr>) ts
         else if k = T_AdvDefaultLifetime then
           assign number_val (\<lambda>v. iface\<lparr>ra_header_info := hdr\<lparr>AdvDefaultLifetime := i32 v\<rparr>\<rparr>) ts
         else if k = T_AdvDefaultPreference then
           assign snum_val (\<lambda>v. iface\<lparr>ra_header_info := hdr\<lparr>AdvDefaultPreference := v\<rparr>\<rparr>) ts
         else if k = T_AdvCurHopLimit then
           assign number_val (\<lambda>v. iface\<lparr>ra_header_info := hdr\<lparr>AdvCurHopLimit := ucast v\<rparr>\<rparr>) ts
         else if k = T_RemoveAdvOnExit then assign switch_val (\<lambda>v. iface\<lparr>RemoveAdvOnExit := v\<rparr>) ts
         else if k = T_AdvSourceLLAddress then assign switch_val (\<lambda>v. iface\<lparr>AdvSourceLLAddress := v\<rparr>) ts
         else if k = T_AdvIntervalOpt then
           assign switch_val (\<lambda>v. iface\<lparr>mipv6 := mip\<lparr>AdvIntervalOpt := v\<rparr>\<rparr>) ts
         else if k = T_AdvHomeAgentInfo then
           assign switch_val (\<lambda>v. iface\<lparr>mipv6 := mip\<lparr>AdvHomeAgentInfo := v\<rparr>\<rparr>) ts
         else if k = T_AdvHomeAgentFlag then
           assign switch_val (\<lambda>v. iface\<lparr>ra_header_info := hdr\<lparr>AdvHomeAgentFlag := v\<rparr>\<rparr>) ts
         else if k = T_HomeAgentPreference then
           assign number_val (\<lambda>v. iface\<lparr>mipv6 := mip\<lparr>HomeAgentPreference := ucast v\<rparr>\<rparr>) ts
         else if k = T_HomeAgentLifetime then
           assign number_val (\<lambda>v. iface\<lparr>mipv6 := mip\<lparr>HomeAgentLifetime := i32 v\<rparr>\<rparr>) ts
         else if k = T_AdvSNACRouterFlag then
           assign switch_val (\<lambda>v. iface\<lparr>ra_header_info := hdr\<lparr>AdvSNACRouterFlag := v\<rparr>\<rparr>) ts
         else if k = T_UnicastOnly then assign switch_val (\<lambda>v. iface\<lparr>UnicastOnly := v\<rparr>) ts
         else if k = T_UnrestrictedUnicast then assign switch_val (\<lambda>v. iface\<lparr>UnrestrictedUnicast := v\<rparr>) ts
         else if k = T_AdvRASolicitedUnicast then assign switch_val (\<lambda>v. iface\<lparr>AdvRASolicitedUnicast := v\<rparr>) ts
         else if k = T_AdvCaptivePortalAPI then captive_portal iface ts
         else if k = T_AdvMobRtrSupportFlag then
           assign switch_val (\<lambda>v. iface\<lparr>mipv6 := mip\<lparr>AdvMobRtrSupportFlag := v\<rparr>\<rparr>) ts
         else None)"

subsection \<open>Lists of addresses\<close>

text \<open>A new element goes to the front of the list.\<close>

fun client_item :: "Clients list \<Rightarrow> toks \<Rightarrow> (Clients list \<times> toks) option" where
  "client_item acc ((IPV6ADDR a, _) # ts) = do {
     ts \<leftarrow> expect CHR '';'' ts;
     Some (\<lparr>Address = a, ignored = False\<rparr> # acc, ts)
   }"
| "client_item acc ((NOT_IPV6ADDR a, _) # ts) = do {
     ts \<leftarrow> expect CHR '';'' ts;
     Some (\<lparr>Address = a, ignored = True\<rparr> # acc, ts)
   }"
| "client_item acc _ = None"

definition rasrc_item :: "in6_addr list \<Rightarrow> toks \<Rightarrow> (in6_addr list \<times> toks) option" where
  "rasrc_item acc ts = assign addr_val (\<lambda>a. a # acc) ts"

text \<open>
  The mask of a prefix length: \<^verbatim>\<open>0xff\<close> in the full octets, then \<^verbatim>\<open>~(1 << (8 - n % 8)) + 1\<close> in the next
  one unless there are 16. From 136 on the loop runs behind the array.
\<close>

definition cidr_mask :: "u32 \<Rightarrow> in6_addr option" where
  "cidr_mask n =
     (let fullOctets = unat n div 8; bytes = replicate fullOctets 0xff
      in if fullOctets > 16 then None
         else if fullOctets = 16 then Some (from_be bytes)
         else Some (from_be (bytes @ [NOT (push_bit (8 - unat n mod 8) 1) + 1] @
                replicate (15 - fullOctets) 0)))"

definition ignore_item :: "AutogenIgnorePrefix list \<Rightarrow> toks \<Rightarrow> (AutogenIgnorePrefix list \<times> toks) option" where
  "ignore_item acc ts = do {
     ((a, n), ts) \<leftarrow> addr_len ts;
     ts \<leftarrow> expect CHR '';'' ts;
     mask \<leftarrow> cidr_mask n;
     Some (\<lparr>Ignore_Prefix = a, Ignore_Mask = mask\<rparr> # acc, ts)
   }"

text \<open>A braced list of at least one item, and the semicolon.\<close>

definition braced :: "('a list \<Rightarrow> toks \<Rightarrow> ('a list \<times> toks) option) \<Rightarrow> toks \<Rightarrow> ('a list \<times> toks) option" where
  "braced item ts = do {
     ts \<leftarrow> expect CHR ''{'' ts;
     (xs, ts) \<leftarrow> plist item [] ts;
     ts \<leftarrow> expect CHR '';'' ts;
     if xs = [] then None else Some (xs, ts)
   }"

subsection \<open>Prefixes\<close>

text \<open>Parameters in braces, which may be missing, and the semicolon; and the same with the braces required.\<close>

definition optional_block :: "('a \<Rightarrow> toks \<Rightarrow> ('a \<times> toks) option) \<Rightarrow> 'a \<Rightarrow> toks \<Rightarrow> ('a \<times> toks) option" where
  "optional_block item x ts = do {
     (x, ts) \<leftarrow> (if next_is CHR ''{'' ts then plist item x (tl ts) else Some (x, ts));
     ts \<leftarrow> expect CHR '';'' ts;
     Some (x, ts)
   }"

definition block :: "('a \<Rightarrow> toks \<Rightarrow> ('a \<times> toks) option) \<Rightarrow> 'a \<Rightarrow> toks \<Rightarrow> ('a \<times> toks) option" where
  "block item x ts = do {
     ts \<leftarrow> expect CHR ''{'' ts;
     (x, ts) \<leftarrow> plist item x ts;
     ts \<leftarrow> expect CHR '';'' ts;
     Some (x, ts)
   }"

definition nat64prefixparms :: "NAT64Prefix \<Rightarrow> toks \<Rightarrow> (NAT64Prefix \<times> toks) option" where
  "nat64prefixparms p ts = do {
     (k, ts) \<leftarrow> keyword_val ts;
     if k = T_AdvValidLifetime then do {
       (n, ts) \<leftarrow> number_val ts;
       ts \<leftarrow> expect CHR '';'' ts;
       if uint n > DFLT_NAT64MaxValidLifetime then None
       else Some (p\<lparr>NAT64_AdvValidLifetime := n\<rparr>, ts)
     } else None
   }"

definition nat64prefixhead :: "Interface \<Rightarrow> toks \<Rightarrow> (NAT64Prefix \<times> toks) option" where
  "nat64prefixhead iface ts = do {
     ((a, n), ts) \<leftarrow> addr_len ts;
     if a = 0 then None
     else if n > ucast MAX_PrefixLen then None
     else if n \<notin> {32, 40, 48, 56, 64, 96} then None
     else Some ((nat64prefix_init_defaults iface)\<lparr>NAT64_PrefixLen := ucast n, NAT64_Prefix := a\<rparr>, ts)
   }"

definition nat64prefixdef :: "Interface \<Rightarrow> toks \<Rightarrow> (NAT64Prefix \<times> toks) option" where
  "nat64prefixdef iface ts = do {
     (p, ts) \<leftarrow> nat64prefixhead iface ts;
     (p, ts) \<leftarrow> optional_block nat64prefixparms p ts;
     if uint (NAT64_AdvValidLifetime p) > DFLT_NAT64MaxValidLifetime then None
     else Some (p\<lparr>NAT64_curr_validlft := NAT64_AdvValidLifetime p\<rparr>, ts)
   }"

definition prefixparms :: "AdvPrefix \<Rightarrow> toks \<Rightarrow> (AdvPrefix \<times> toks) option" where
  "prefixparms p ts = do {
     (k, ts) \<leftarrow> keyword_val ts;
     if k = T_AdvOnLink then assign switch_val (\<lambda>v. p\<lparr>AdvOnLinkFlag := v\<rparr>) ts
     else if k = T_AdvAutonomous then assign switch_val (\<lambda>v. p\<lparr>AdvAutonomousFlag := v\<rparr>) ts
     else if k = T_AdvRouterAddr then assign switch_val (\<lambda>v. p\<lparr>AdvRouterAddr := v\<rparr>) ts
     else if k = T_AdvDHCPv6PDPreferred then assign switch_val (\<lambda>v. p\<lparr>AdvDHCPv6PDPreferredFlag := v\<rparr>) ts
     else if k = T_AdvValidLifetime then
       assign number_or_infinity (\<lambda>v. p\<lparr>AdvValidLifetime := v, curr_validlft := v\<rparr>) ts
     else if k = T_AdvPreferredLifetime then
       assign number_or_infinity (\<lambda>v. p\<lparr>AdvPreferredLifetime := v, curr_preferredlft := v\<rparr>) ts
     else if k = T_DeprecatePrefix then assign switch_val (\<lambda>v. p\<lparr>DeprecatePrefixFlag := v\<rparr>) ts
     else if k = T_DecrementLifetimes then assign switch_val (\<lambda>v. p\<lparr>DecrementLifetimesFlag := v\<rparr>) ts
     else if k = T_Base6Interface then assign string_val (\<lambda>v. p\<lparr>if6 := ifname v\<rparr>) ts
     else if k = T_Base6to4Interface then assign string_val (\<lambda>v. p\<lparr>if6to4 := ifname v\<rparr>) ts
     else None
   }"

definition prefixhead :: "toks \<Rightarrow> (AdvPrefix \<times> toks) option" where
  "prefixhead ts = do {
     ((a, n), ts) \<leftarrow> addr_len ts;
     if n > ucast MAX_PrefixLen then None
     else Some (prefix_init_defaults\<lparr>PrefixLen := ucast n, Prefix := a\<rparr>, ts)
   }"

definition prefixdef :: "toks \<Rightarrow> (AdvPrefix \<times> toks) option" where
  "prefixdef ts = do {
     (p, ts) \<leftarrow> prefixhead ts;
     (p, ts) \<leftarrow> optional_block prefixparms p ts;
     if AdvPreferredLifetime p > AdvValidLifetime p then None
     else if if6 p \<noteq> [] \<and> PrefixLen p \<noteq> 64 then None
     else Some (p, ts)
   }"

subsection \<open>Routes and name servers\<close>

definition routeparms :: "AdvRoute \<Rightarrow> toks \<Rightarrow> (AdvRoute \<times> toks) option" where
  "routeparms r ts = do {
     (k, ts) \<leftarrow> keyword_val ts;
     if k = T_AdvRoutePreference then assign snum_val (\<lambda>v. r\<lparr>AdvRoutePreference := v\<rparr>) ts
     else if k = T_AdvRouteLifetime then assign number_or_infinity (\<lambda>v. r\<lparr>AdvRouteLifetime := v\<rparr>) ts
     else if k = T_RemoveRoute then assign switch_val (\<lambda>v. r\<lparr>RemoveRouteFlag := v\<rparr>) ts
     else None
   }"

definition routehead :: "Interface \<Rightarrow> toks \<Rightarrow> (AdvRoute \<times> toks) option" where
  "routehead iface ts = do {
     ((a, n), ts) \<leftarrow> addr_len ts;
     if n > ucast MAX_PrefixLen then None
     else Some ((route_init_defaults iface)\<lparr>Route_PrefixLen := ucast n, Route_Prefix := a\<rparr>, ts)
   }"

definition routedef :: "Interface \<Rightarrow> toks \<Rightarrow> (AdvRoute \<times> toks) option" where
  "routedef iface ts = do {
     (r, ts) \<leftarrow> routehead iface ts;
     block routeparms r ts
   }"

text \<open>The addresses of a server list, 127 at most.\<close>

fun rdnssaddrs :: "AdvRDNSS \<Rightarrow> toks \<Rightarrow> (AdvRDNSS \<times> toks) option" where
  "rdnssaddrs d ((IPV6ADDR a, _) # ts) =
     (if Suc (length (AdvRDNSSAddr d)) > 127 then None
      else rdnssaddrs (d\<lparr>AdvRDNSSAddr := AdvRDNSSAddr d @ [a]\<rparr>) ts)"
| "rdnssaddrs d ts = Some (d, ts)"

definition rdnssparms :: "AdvRDNSS \<Rightarrow> toks \<Rightarrow> (AdvRDNSS \<times> toks) option" where
  "rdnssparms d ts = do {
     (k, ts) \<leftarrow> keyword_val ts;
     if k = T_AdvRDNSSPreference then assign number_val (\<lambda>v. d) ts
     else if k = T_AdvRDNSSOpenFlag then assign switch_val (\<lambda>v. d) ts
     else if k = T_AdvRDNSSLifetime then assign number_or_infinity (\<lambda>v. d\<lparr>AdvRDNSSLifetime := v\<rparr>) ts
     else if k = T_FlushRDNSS then assign switch_val (\<lambda>v. d\<lparr>FlushRDNSSFlag := v\<rparr>) ts
     else None
   }"

definition rdnssdef :: "Interface \<Rightarrow> toks \<Rightarrow> (AdvRDNSS \<times> toks) option" where
  "rdnssdef iface ts = do {
     (d, ts) \<leftarrow> rdnssaddrs (rdnss_init_defaults iface) ts;
     if AdvRDNSSAddr d = [] then None else block rdnssparms d ts
   }"

definition suffix_char :: "char \<Rightarrow> bool" where
  "suffix_char ch \<longleftrightarrow>
     (let c = (of_char ch :: nat)
      in 65 \<le> c \<and> c \<le> 90 \<or> 97 \<le> c \<and> c \<le> 122 \<or> 48 \<le> c \<and> c \<le> 57) \<or> ch = CHR ''-'' \<or> ch = CHR ''.''"

fun dnsslsuffixes :: "AdvDNSSL \<Rightarrow> toks \<Rightarrow> (AdvDNSSL \<times> toks) option" where
  "dnsslsuffixes d ((STRING s, _) # ts) =
     (if list_all suffix_char s then dnsslsuffixes (d\<lparr>AdvDNSSLSuffixes := AdvDNSSLSuffixes d @ [s]\<rparr>) ts
      else None)"
| "dnsslsuffixes d ts = Some (d, ts)"

definition dnsslparms :: "AdvDNSSL \<Rightarrow> toks \<Rightarrow> (AdvDNSSL \<times> toks) option" where
  "dnsslparms d ts = do {
     (k, ts) \<leftarrow> keyword_val ts;
     if k = T_AdvDNSSLLifetime then assign number_or_infinity (\<lambda>v. d\<lparr>AdvDNSSLLifetime := v\<rparr>) ts
     else if k = T_FlushDNSSL then assign switch_val (\<lambda>v. d\<lparr>FlushDNSSLFlag := v\<rparr>) ts
     else None
   }"

definition dnssldef :: "Interface \<Rightarrow> toks \<Rightarrow> (AdvDNSSL \<times> toks) option" where
  "dnssldef iface ts = do {
     (d, ts) \<leftarrow> dnsslsuffixes (dnssl_init_defaults iface) ts;
     if AdvDNSSLSuffixes d = [] then None else block dnsslparms d ts
   }"

subsection \<open>6LoWPAN\<close>

definition lowpancoparms :: "AdvLowpanCo \<Rightarrow> toks \<Rightarrow> (AdvLowpanCo \<times> toks) option" where
  "lowpancoparms l ts = do {
     (k, ts) \<leftarrow> keyword_val ts;
     if k = T_AdvContextLength then assign number_val (\<lambda>v. l\<lparr>ContextLength := ucast v\<rparr>) ts
     else if k = T_AdvContextCompressionFlag then assign switch_val (\<lambda>v. l\<lparr>ContextCompressionFlag := v\<rparr>) ts
     else if k = T_AdvContextID then assign number_val (\<lambda>v. l\<lparr>AdvContextID := ucast v\<rparr>) ts
     else if k = T_AdvLifeTime then assign number_val (\<lambda>v. l\<lparr>AdvLifeTime := ucast v\<rparr>) ts
     else None
   }"

definition lowpancodef :: "toks \<Rightarrow> (AdvLowpanCo \<times> toks) option" where
  "lowpancodef ts =
     block lowpancoparms \<lparr>ContextLength = 0, ContextCompressionFlag = False, AdvContextID = 0,
       AdvLifeTime = 0, AdvContextPrefix = 0\<rparr> ts"

definition abroparms :: "AdvAbro \<Rightarrow> toks \<Rightarrow> (AdvAbro \<times> toks) option" where
  "abroparms b ts = do {
     (k, ts) \<leftarrow> keyword_val ts;
     if k = T_AdvVersionLow then assign number_val (\<lambda>v. b\<lparr>Version1 := ucast v\<rparr>) ts
     else if k = T_AdvVersionHigh then assign number_val (\<lambda>v. b\<lparr>Version0 := ucast v\<rparr>) ts
     else if k = T_AdvValidLifetime then assign number_val (\<lambda>v. b\<lparr>ValidLifeTime := ucast v\<rparr>) ts
     else None
   }"

text \<open>The deprecated prefix length behind the address is read and dropped.\<close>

definition abrohead :: "toks \<Rightarrow> (AdvAbro \<times> toks) option" where
  "abrohead ts = do {
     (a, ts) \<leftarrow> addr_val ts;
     ts \<leftarrow> (if next_is CHR ''/'' ts then do { (_, ts) \<leftarrow> number_val (tl ts); Some ts } else Some ts);
     Some (\<lparr>Version0 = 0, Version1 = 0, ValidLifeTime = 0, LBRaddress = a\<rparr>, ts)
   }"

definition abrodef :: "toks \<Rightarrow> (AdvAbro \<times> toks) option" where
  "abrodef ts = do {
     (b, ts) \<leftarrow> abrohead ts;
     block abroparms b ts
   }"

subsection \<open>Interfaces\<close>

text \<open>\<^verbatim>\<open>ADD_TO_LL\<close>: what a section has built goes to the end of the list of the interface.\<close>

definition add_list :: "(toks \<Rightarrow> ('a list \<times> toks) option) \<Rightarrow> ('a list \<Rightarrow> Interface) \<Rightarrow> toks \<Rightarrow>
    (Interface \<times> toks) option" where
  "add_list p f ts = do { (xs, ts) \<leftarrow> p ts; Some (f xs, ts) }"

definition add_one :: "(toks \<Rightarrow> ('a \<times> toks) option) \<Rightarrow> ('a list \<Rightarrow> Interface) \<Rightarrow> toks \<Rightarrow>
    (Interface \<times> toks) option" where
  "add_one p f ts = do { (x, ts) \<leftarrow> p ts; Some (f [x], ts) }"

definition ifaceparam :: "Interface \<Rightarrow> toks \<Rightarrow> (Interface \<times> toks) option" where
  "ifaceparam i ts = do {
     (k, ts) \<leftarrow> keyword_val ts;
     if k = T_PREFIX then add_one prefixdef (\<lambda>xs. i\<lparr>AdvPrefixList := AdvPrefixList i @ xs\<rparr>) ts
     else if k = T_CLIENTS then
       add_list (braced client_item) (\<lambda>xs. i\<lparr>ClientList := ClientList i @ xs\<rparr>) ts
     else if k = T_ROUTE then add_one (routedef i) (\<lambda>xs. i\<lparr>AdvRouteList := AdvRouteList i @ xs\<rparr>) ts
     else if k = T_RDNSS then add_one (rdnssdef i) (\<lambda>xs. i\<lparr>AdvRDNSSList := AdvRDNSSList i @ xs\<rparr>) ts
     else if k = T_DNSSL then add_one (dnssldef i) (\<lambda>xs. i\<lparr>AdvDNSSLList := AdvDNSSLList i @ xs\<rparr>) ts
     else if k = T_LOWPANCO then
       add_one lowpancodef (\<lambda>xs. i\<lparr>AdvLowpanCoList := AdvLowpanCoList i @ xs\<rparr>) ts
     else if k = T_ABRO then add_one abrodef (\<lambda>xs. i\<lparr>AdvAbroList := AdvAbroList i @ xs\<rparr>) ts
     else if k = T_RASRCADDRESS then
       add_list (braced rasrc_item) (\<lambda>xs. i\<lparr>AdvRASrcAddressList := AdvRASrcAddressList i @ xs\<rparr>) ts
     else if k = T_NAT64PREFIX then
       add_one (nat64prefixdef i) (\<lambda>xs. i\<lparr>NAT64PrefixList := NAT64PrefixList i @ xs\<rparr>) ts
     else if k = T_AUTOIGNOREPREFIX then
       add_list (braced ignore_item) (\<lambda>xs. i\<lparr>IgnorePrefixList := IgnorePrefixList i @ xs\<rparr>) ts
     else ifaceval k i ts
   }"

text \<open>
  The check for duplicates compares the name as written with the stored, shortened names. The line
  is the one of the name.
\<close>

fun ifacehead :: "Interface list \<Rightarrow> toks \<Rightarrow> (Interface \<times> toks) option" where
  "ifacehead IfaceList ((KEYWORD k, _) # (STRING s, l) # ts) =
     (if k \<noteq> T_INTERFACE then None
      else if \<exists>i \<in> set IfaceList. name (props i) = s then None
      else Some (iface_init_defaults\<lparr>props := (props iface_init_defaults)\<lparr>name := ifname s\<rparr>,
             lineno := l\<rparr>, ts))"
| "ifacehead IfaceList _ = None"

definition ifacedef :: "Interface list \<Rightarrow> toks \<Rightarrow> (Interface list \<times> toks) option" where
  "ifacedef IfaceList ts = do {
     (iface, ts) \<leftarrow> ifacehead IfaceList ts;
     (iface, ts) \<leftarrow> block ifaceparam iface ts;
     Some (iface # IfaceList, ts)
   }"

function grammar :: "Interface list \<Rightarrow> toks \<Rightarrow> Interface list option" where
  "grammar IfaceList ts =
     (case ifacedef IfaceList ts of
        None \<Rightarrow> None
      | Some (ifs, ts') \<Rightarrow>
          if ts' = [] then Some ifs
          else if length ts' < length ts then grammar ifs ts'
          else None)"
  by pat_completeness auto
termination by (relation "measure (\<lambda>(ifs, ts). length ts)") auto

declare grammar.simps [simp del]

text \<open>\<open>readin_config\<close> on the text of the file; \<open>None\<close> for a file that cannot be opened.\<close>

definition yyparse :: "string \<Rightarrow> Interface list option" where
  "yyparse text = grammar [] (scan 1 text)"

definition readin_config :: "string option \<Rightarrow> Interface list option" where
  "readin_config file = (case file of None \<Rightarrow> None | Some text \<Rightarrow> yyparse text)"

end
