(* ===== verification/Config_Ok.thy ===== *)
theory Config_Ok
  imports Config Runs
begin

text \<open>
  What the grammar guarantees of every configuration that it accepts: each interface is in the state
  that the daemon expects of it, so that the invariant of the runs holds for whatever text the
  configuration file has, and every list item consumes tokens, so that the lists of the grammar are
  read to their end.
\<close>

subsection \<open>Parsers that consume and give values with a property\<close>

fun tok_ok :: "token \<times> int \<Rightarrow> bool" where
  "tok_ok (STRING s, l) \<longleftrightarrow> length s \<le> 255"
| "tok_ok _ \<longleftrightarrow> True"

text \<open>\<open>gives n P p\<close>: on good tokens \<open>p\<close> gives a value with \<open>P\<close> and leaves at least \<open>n\<close> tokens less.\<close>

definition gives :: "nat \<Rightarrow> ('a \<Rightarrow> bool) \<Rightarrow> (toks \<Rightarrow> ('a \<times> toks) option) \<Rightarrow> bool" where
  "gives n P p \<longleftrightarrow> (\<forall>ts x ts'. p ts = Some (x, ts') \<longrightarrow> list_all tok_ok ts \<longrightarrow>
     length ts' + n \<le> length ts \<and> list_all tok_ok ts' \<and> P x)"

named_theorems givings \<open>rules for gives\<close>

lemma givesD:
  "gives n P p \<Longrightarrow> p ts = Some (x, ts') \<Longrightarrow> list_all tok_ok ts \<Longrightarrow>
    length ts' + n \<le> length ts \<and> list_all tok_ok ts' \<and> P x"
  by (simp add: gives_def)

lemma gives_return [givings]: "P x \<Longrightarrow> gives 0 P (\<lambda>ts. Some (x, ts))"
  by (simp add: gives_def)

lemma gives_fail [givings]: "gives n P (\<lambda>ts. None)"
  by (simp add: gives_def)

lemma gives_if [givings]:
  "(b \<Longrightarrow> gives n P p) \<Longrightarrow> (\<not> b \<Longrightarrow> gives n P q) \<Longrightarrow> gives n P (\<lambda>ts. if b then p ts else q ts)"
  by (cases b) simp_all

lemma gives_split [givings]:
  "(\<And>a b. v = (a, b) \<Longrightarrow> gives n P (f a b)) \<Longrightarrow> gives n P (\<lambda>ts. (case v of (a, b) \<Rightarrow> f a b) ts)"
  by (cases v) simp

lemma gives_bind_sum:
  assumes "gives n V p" and "\<And>v. V v \<Longrightarrow> gives m P (q v)"
  shows "gives (n + m) P (\<lambda>ts. Option.bind (p ts) (\<lambda>(v, ts). q v ts))"
  unfolding gives_def bind_eq_Some_conv
proof (intro allI impI, elim exE conjE)
  fix ts x ts' vu
  assume p: "p ts = Some vu" and q: "(case vu of (v, u) \<Rightarrow> q v u) = Some (x, ts')"
    and ts: "list_all tok_ok ts"
  obtain v u where vu: "vu = (v, u)" by fastforce
  from givesD [OF assms(1) p [unfolded vu] ts]
  have 1: "length u + n \<le> length ts" "list_all tok_ok u" "V v" by auto
  from givesD [OF assms(2) [OF 1(3)], of u x ts'] q 1(2) vu
  have "length ts' + m \<le> length u" "list_all tok_ok ts'" "P x" by auto
  with 1(1) show "length ts' + (n + m) \<le> length ts \<and> list_all tok_ok ts' \<and> P x" by simp
qed

lemma gives_less: "gives n P p \<Longrightarrow> m \<le> n \<Longrightarrow> gives m P p"
  by (fastforce simp: gives_def)

lemma gives_mono: "gives n P p \<Longrightarrow> (\<And>x. P x \<Longrightarrow> Q x) \<Longrightarrow> gives n Q p"
  by (simp add: gives_def)

text \<open>A sequence that begins with a parser that consumes a token.\<close>

lemma gives_bind:
  assumes "gives 1 V p" and "\<And>v. V v \<Longrightarrow> gives 0 P (q v)"
  shows "gives 1 P (\<lambda>ts. Option.bind (p ts) (\<lambda>(v, ts). q v ts))"
  using gives_bind_sum [OF assms] by simp

lemma gives_bind0:
  assumes "gives n V p" and "\<And>v. V v \<Longrightarrow> gives 0 P (q v)"
  shows "gives 0 P (\<lambda>ts. Option.bind (p ts) (\<lambda>(v, ts). q v ts))"
  using gives_less [OF gives_bind_sum [OF assms]] by simp

lemma gives_pure [givings]:
  "(\<And>v. o' = Some v \<Longrightarrow> gives n P (q v)) \<Longrightarrow> gives n P (\<lambda>ts. Option.bind o' (\<lambda>v. q v ts))"
  by (cases o') (simp_all add: gives_fail)

lemma expect_Some: "expect c ts = Some ts' \<longleftrightarrow> next_is c ts \<and> ts' = tl ts"
  by (auto simp: expect_def)

lemma gives_expect1 [givings]: "gives 0 P p \<Longrightarrow> gives 1 P (\<lambda>ts. Option.bind (expect c ts) (\<lambda>ts. p ts))"
  by (fastforce simp: gives_def bind_eq_Some_conv expect_Some next_is_def neq_Nil_conv)

lemma gives_expect0 [givings]: "gives 0 P p \<Longrightarrow> gives 0 P (\<lambda>ts. Option.bind (expect c ts) (\<lambda>ts. p ts))"
  by (rule gives_less [OF gives_expect1]) simp_all

text \<open>The values.\<close>

abbreviation anything :: "'a \<Rightarrow> bool" where
  "anything \<equiv> \<lambda>_. True"

lemma gives_values [givings]:
  "gives 1 anything switch_val" "gives 1 anything number_val" "gives 1 anything snum_val" "gives 1 anything seconds_val"
  "gives 1 anything number_or_infinity" "gives 1 anything addr_val" "gives 1 anything keyword_val"
  "gives 1 (\<lambda>s. length s \<le> 255) string_val"
  by (simp_all add: gives_def)
    ((intro allI impI, erule switch_val.elims number_val.elims snum_val.elims seconds_val.elims
      number_or_infinity.elims addr_val.elims keyword_val.elims string_val.elims; simp)+)

lemmas gives_value_binds [givings] = gives_values [THEN gives_bind] gives_values [THEN gives_bind0]

lemma gives_assign:
  assumes "gives 1 V val" and "\<And>v. V v \<Longrightarrow> P (f v)"
  shows "gives 1 P (\<lambda>ts. assign val f ts)"
  unfolding assign_def by (rule gives_bind [OF assms(1)]) (intro givings assms(2))

lemmas gives_assigns [givings] = gives_values [THEN gives_assign]
  gives_values [THEN gives_assign, THEN gives_less [where m = 0, OF _ le0]]

lemma gives_addr_len: "gives 1 anything (\<lambda>ts. addr_len ts)"
  unfolding addr_len_def by (intro givings TrueI)

lemmas gives_addr_len_binds [givings] = gives_addr_len [THEN gives_bind] gives_addr_len [THEN gives_bind0]

text \<open>Lists of items, and the blocks of parameters.\<close>

lemma gives_plist:
  assumes item: "\<And>x. I x \<Longrightarrow> gives 1 I (\<lambda>ts. item x ts)" and x: "I x"
  shows "gives 1 I (\<lambda>ts. plist item x ts)"
  unfolding gives_def
proof (intro allI impI)
  fix ts y ts'
  assume "plist item x ts = Some (y, ts')" "list_all tok_ok ts"
  with x show "length ts' + 1 \<le> length ts \<and> list_all tok_ok ts' \<and> I y"
  proof (induction ts arbitrary: x rule: measure_induct_rule [of length])
    case (less ts)
    show ?case
    proof (cases "next_is CHR ''}'' ts")
      case True
      with less.prems show ?thesis
        by (auto simp: plist.simps [of item x ts] next_is_def neq_Nil_conv)
    next
      case False
      then obtain z ts1 where z: "item x ts = Some (z, ts1)" "length ts1 < length ts"
          "plist item z ts1 = Some (y, ts')"
        using less.prems(2) by (auto simp: plist.simps [of item x ts] split: option.split_asm if_split_asm)
      from givesD [OF item [OF less.prems(1)] z(1) less.prems(3)] less.IH [OF z(2) _ z(3)] show ?thesis
        by auto
    qed
  qed
qed

lemma gives_optional_block:
  assumes "\<And>x. I x \<Longrightarrow> gives 1 I (\<lambda>ts. item x ts)" and "I x"
  shows "gives 0 I (\<lambda>ts. optional_block item x ts)"
proof -
  have "gives 0 I (\<lambda>ts. if next_is CHR ''{'' ts then plist item x (tl ts) else Some (x, ts))"
    using gives_plist [of I item x, OF assms] assms(2)
    by (fastforce simp: gives_def next_is_def neq_Nil_conv)
  then show ?thesis
    unfolding optional_block_def by (rule gives_bind0) (intro givings)
qed

lemma gives_block:
  assumes "\<And>x. I x \<Longrightarrow> gives 1 I (\<lambda>ts. item x ts)" and "I x"
  shows "gives 1 I (\<lambda>ts. block item x ts)"
  unfolding block_def
  by (rule gives_expect1, rule gives_bind0 [OF gives_plist [of I item x, OF assms]])
    (assumption | intro givings)+

lemma gives_braced:
  assumes "\<And>xs. list_all P xs \<Longrightarrow> gives 1 (list_all P) (\<lambda>ts. item xs ts)"
  shows "gives 1 (list_all P) (\<lambda>ts. braced item ts)"
  unfolding braced_def
  by (rule gives_expect1, rule gives_bind0 [OF gives_plist [of "list_all P" item "[]", OF assms]])
    (assumption | intro givings | simp)+

subsection \<open>What an accepted configuration is\<close>

definition prefix_accepted :: "AdvPrefix \<Rightarrow> bool" where
  "prefix_accepted p \<longleftrightarrow> PrefixLen p \<le> 128 \<and> AdvPreferredLifetime p \<le> AdvValidLifetime p \<and>
     curr_validlft p = AdvValidLifetime p \<and> curr_preferredlft p = AdvPreferredLifetime p \<and>
     (if6 p \<noteq> [] \<longrightarrow> PrefixLen p = 64) \<and> length (if6 p) < IFNAMSIZ \<and> length (if6to4 p) < IFNAMSIZ"

definition nat64_accepted :: "NAT64Prefix \<Rightarrow> bool" where
  "nat64_accepted p \<longleftrightarrow> NAT64_Prefix p \<noteq> 0 \<and> NAT64_PrefixLen p \<in> {32, 40, 48, 56, 64, 96} \<and>
     uint (NAT64_AdvValidLifetime p) \<le> DFLT_NAT64MaxValidLifetime \<and>
     NAT64_curr_validlft p = NAT64_AdvValidLifetime p"

definition route_accepted :: "AdvRoute \<Rightarrow> bool" where
  "route_accepted r \<longleftrightarrow> Route_PrefixLen r \<le> 128"

definition rdnss_accepted :: "AdvRDNSS \<Rightarrow> bool" where
  "rdnss_accepted d \<longleftrightarrow> AdvRDNSSAddr d \<noteq> [] \<and> length (AdvRDNSSAddr d) \<le> 127"

definition dnssl_accepted :: "AdvDNSSL \<Rightarrow> bool" where
  "dnssl_accepted d \<longleftrightarrow> AdvDNSSLSuffixes d \<noteq> [] \<and>
     list_all (\<lambda>s. list_all suffix_char s \<and> length s \<le> 255) (AdvDNSSLSuffixes d)"

definition iface_accepted :: "Interface \<Rightarrow> bool" where
  "iface_accepted i \<longleftrightarrow>
     length (name (props i)) < IFNAMSIZ \<and> addrs_count (props i) = 0 \<and>
     \<not> ready (state_info i) \<and> changed (state_info i) \<and> \<not> cease_adv (state_info i) \<and>
     length (if_hwaddr (sllao i)) = 16 \<and>
     1280 \<le> AdvRAMTU i \<and> AdvRAMTU i \<le> 131072 \<and>
     (case AdvCaptivePortalAPI i of None \<Rightarrow> True | Some u \<Rightarrow> u \<noteq> [] \<and> length u \<le> 255) \<and>
     list_all prefix_accepted (AdvPrefixList i) \<and> list_all nat64_accepted (NAT64PrefixList i) \<and>
     list_all route_accepted (AdvRouteList i) \<and> list_all rdnss_accepted (AdvRDNSSList i) \<and>
     list_all dnssl_accepted (AdvDNSSLList i)"

subsection \<open>The grammar keeps to it\<close>

lemma clamp_ramtu_bounds: "1280 \<le> clamp_ramtu n" "clamp_ramtu n \<le> 131072"
  by (auto simp: clamp_ramtu_def min_def max_def)

lemma portal_url_bound: "portal_url s = Some u \<Longrightarrow> length s \<le> 255 \<Longrightarrow> u \<noteq> [] \<and> length u \<le> 255"
  by (auto simp: portal_url_def Let_def split: if_split_asm)

lemma captive_portal_gives:
  "iface_accepted i \<Longrightarrow> gives 1 iface_accepted (\<lambda>ts. captive_portal i ts)"
  unfolding captive_portal_def
  by (intro givings) (auto dest!: portal_url_bound simp: iface_accepted_def)

lemma ifaceval_gives:
  "iface_accepted i \<Longrightarrow> gives 1 iface_accepted (\<lambda>ts. ifaceval k i ts)"
  unfolding ifaceval_def Let_def
  by (intro givings captive_portal_gives) (simp_all add: iface_accepted_def clamp_ramtu_bounds)

lemma ucast_128: "n \<le> 128 \<Longrightarrow> (ucast (n :: u32) :: byte) \<le> 128"
proof -
  assume "n \<le> 128"
  then have "unat n \<le> 128" by (simp add: word_le_nat_alt)
  then have "unat (ucast n :: byte) \<le> 128"
    by (simp add: unsigned_ucast_eq take_bit_nat_eq_self)
  then show ?thesis by (simp add: word_le_nat_alt)
qed

definition prefix_open :: "AdvPrefix \<Rightarrow> bool" where
  "prefix_open p \<longleftrightarrow> PrefixLen p \<le> 128 \<and> curr_validlft p = AdvValidLifetime p \<and>
     curr_preferredlft p = AdvPreferredLifetime p \<and> length (if6 p) < IFNAMSIZ \<and> length (if6to4 p) < IFNAMSIZ"

lemma length_ifname: "length (ifname s) < 16"
  by (simp add: ifname_def)

lemma prefixparms_gives: "prefix_open p \<Longrightarrow> gives 1 prefix_open (\<lambda>ts. prefixparms p ts)"
  unfolding prefixparms_def by (intro givings) (simp_all add: prefix_open_def length_ifname)

lemma prefixhead_gives: "gives 1 prefix_open (\<lambda>ts. prefixhead ts)"
  unfolding prefixhead_def
  by (intro givings) (auto simp: prefix_open_def prefix_init_defaults_def intro!: ucast_128)

lemma prefixdef_gives: "gives 1 prefix_accepted (\<lambda>ts. prefixdef ts)"
  unfolding prefixdef_def
  by (rule gives_bind [OF prefixhead_gives],
      rule gives_bind0 [OF gives_optional_block [of prefix_open prefixparms, OF prefixparms_gives]])
    (assumption | intro givings | auto simp: prefix_open_def prefix_accepted_def)+

definition nat64_open :: "NAT64Prefix \<Rightarrow> bool" where
  "nat64_open p \<longleftrightarrow> NAT64_Prefix p \<noteq> 0 \<and> NAT64_PrefixLen p \<in> {32, 40, 48, 56, 64, 96}"

lemma nat64prefixparms_gives: "nat64_open p \<Longrightarrow> gives 1 nat64_open (\<lambda>ts. nat64prefixparms p ts)"
  unfolding nat64prefixparms_def by (intro givings) (simp add: nat64_open_def)

lemma nat64prefixhead_gives: "gives 1 nat64_open (\<lambda>ts. nat64prefixhead i ts)"
  unfolding nat64prefixhead_def
  by (intro givings) (auto simp: nat64_open_def)

lemma nat64prefixdef_gives: "gives 1 nat64_accepted (\<lambda>ts. nat64prefixdef i ts)"
  unfolding nat64prefixdef_def
  by (rule gives_bind [OF nat64prefixhead_gives],
      rule gives_bind0 [OF gives_optional_block [of nat64_open nat64prefixparms, OF nat64prefixparms_gives]])
    (assumption | intro givings | simp add: nat64_open_def nat64_accepted_def)+

lemma routeparms_gives: "route_accepted r \<Longrightarrow> gives 1 route_accepted (\<lambda>ts. routeparms r ts)"
  unfolding routeparms_def by (intro givings) (simp_all add: route_accepted_def)

lemma routehead_gives: "gives 1 route_accepted (\<lambda>ts. routehead i ts)"
  unfolding routehead_def by (intro givings) (auto simp: route_accepted_def intro!: ucast_128)

lemma gives_weak: "gives 1 P p \<Longrightarrow> gives 0 P p"
  by (erule gives_less) simp

lemma routedef_gives: "gives 1 route_accepted (\<lambda>ts. routedef i ts)"
  unfolding routedef_def
  by (rule gives_bind [OF routehead_gives], rule gives_weak, rule gives_block [OF routeparms_gives])

lemma rdnssparms_gives: "rdnss_accepted d \<Longrightarrow> gives 1 rdnss_accepted (\<lambda>ts. rdnssparms d ts)"
  unfolding rdnssparms_def by (intro givings) (simp_all add: rdnss_accepted_def)

lemma rdnssaddrs_gives:
  "length (AdvRDNSSAddr d) \<le> 127 \<Longrightarrow> gives 0 (\<lambda>d. length (AdvRDNSSAddr d) \<le> 127) (\<lambda>ts. rdnssaddrs d ts)"
  unfolding gives_def
proof (intro allI impI)
  fix ts x ts'
  assume "length (AdvRDNSSAddr d) \<le> 127" "rdnssaddrs d ts = Some (x, ts')" "list_all tok_ok ts"
  then show "length ts' + 0 \<le> length ts \<and> list_all tok_ok ts' \<and> length (AdvRDNSSAddr x) \<le> 127"
    by (induction d ts rule: rdnssaddrs.induct) (fastforce split: if_split_asm)+
qed

text \<open>A sequence whose first part may consume nothing.\<close>

lemma gives_bind_late:
  assumes "gives 0 V p" and "\<And>v. V v \<Longrightarrow> gives 1 P (q v)"
  shows "gives 1 P (\<lambda>ts. Option.bind (p ts) (\<lambda>(v, ts). q v ts))"
  using gives_bind_sum [OF assms] by simp

lemma rdnssdef_gives: "gives 1 rdnss_accepted (\<lambda>ts. rdnssdef i ts)"
  unfolding rdnssdef_def
  by (rule gives_bind_late [OF rdnssaddrs_gives])
    (intro givings gives_block rdnssparms_gives | simp add: rdnss_accepted_def rdnss_init_defaults_def)+

lemma dnsslparms_gives: "dnssl_accepted d \<Longrightarrow> gives 1 dnssl_accepted (\<lambda>ts. dnsslparms d ts)"
  unfolding dnsslparms_def by (intro givings) (simp_all add: dnssl_accepted_def)

definition suffixes_ok :: "AdvDNSSL \<Rightarrow> bool" where
  "suffixes_ok d \<longleftrightarrow> list_all (\<lambda>s. list_all suffix_char s \<and> length s \<le> 255) (AdvDNSSLSuffixes d)"

lemma dnsslsuffixes_gives: "suffixes_ok d \<Longrightarrow> gives 0 suffixes_ok (\<lambda>ts. dnsslsuffixes d ts)"
  unfolding gives_def
proof (intro allI impI)
  fix ts x ts'
  assume "suffixes_ok d" "dnsslsuffixes d ts = Some (x, ts')" "list_all tok_ok ts"
  then show "length ts' + 0 \<le> length ts \<and> list_all tok_ok ts' \<and> suffixes_ok x"
    by (induction d ts rule: dnsslsuffixes.induct) (fastforce simp: suffixes_ok_def split: if_split_asm)+
qed

lemma dnssldef_gives: "gives 1 dnssl_accepted (\<lambda>ts. dnssldef i ts)"
  unfolding dnssldef_def
  by (rule gives_bind_late [OF dnsslsuffixes_gives])
    (intro givings gives_block dnsslparms_gives
      | simp add: dnssl_accepted_def suffixes_ok_def dnssl_init_defaults_def)+

lemma lowpancoparms_gives: "gives 1 anything (\<lambda>ts. lowpancoparms l ts)"
  unfolding lowpancoparms_def by (intro givings TrueI)

lemma lowpancodef_gives: "gives 1 anything (\<lambda>ts. lowpancodef ts)"
  unfolding lowpancodef_def by (rule gives_block [OF lowpancoparms_gives]) simp

lemma abroparms_gives: "gives 1 anything (\<lambda>ts. abroparms b ts)"
  unfolding abroparms_def by (intro givings TrueI)

lemma abrohead_gives: "gives 1 anything (\<lambda>ts. abrohead ts)"
proof -
  have "gives 0 anything (\<lambda>ts. Option.bind
      (if next_is CHR ''/'' ts then Option.bind (number_val (tl ts)) (\<lambda>(_, ts). Some ts) else Some ts)
      (\<lambda>ts. Some (\<lparr>Version0 = 0, Version1 = 0, ValidLifeTime = 0, LBRaddress = a\<rparr>, ts)))" for a
    using gives_values(2) [THEN givesD]
    by (fastforce simp: gives_def bind_eq_Some_conv next_is_def neq_Nil_conv split: if_split_asm)
  then show ?thesis
    unfolding abrohead_def by (intro givings)
qed

lemma abrodef_gives: "gives 1 anything (\<lambda>ts. abrodef ts)"
  unfolding abrodef_def
  by (rule gives_bind [OF abrohead_gives], rule gives_weak, rule gives_block [OF abroparms_gives])

lemma client_item_gives: "gives 1 (list_all anything) (\<lambda>ts. client_item acc ts)"
  unfolding gives_def
proof (intro allI impI)
  fix ts x ts'
  assume "client_item acc ts = Some (x, ts')" "list_all tok_ok ts"
  then show "length ts' + 1 \<le> length ts \<and> list_all tok_ok ts' \<and> list_all anything x"
    by (cases "(acc, ts)" rule: client_item.cases)
      (auto simp: bind_eq_Some_conv expect_Some next_is_def neq_Nil_conv list_all_iff)
qed

lemma rasrc_item_gives: "gives 1 (list_all anything) (\<lambda>ts. rasrc_item acc ts)"
  unfolding rasrc_item_def by (intro givings) (simp add: list_all_iff)

lemma ignore_item_gives: "gives 1 (list_all anything) (\<lambda>ts. ignore_item acc ts)"
  unfolding ignore_item_def by (intro givings) (simp add: list_all_iff)

lemma gives_add_one:
  "gives 1 V p \<Longrightarrow> (\<And>x. V x \<Longrightarrow> P (f [x])) \<Longrightarrow> gives 0 P (\<lambda>ts. add_one p f ts)"
  unfolding add_one_def by (erule gives_bind0) (intro givings)

lemma gives_add_list:
  "gives 1 (list_all V) p \<Longrightarrow> (\<And>xs. list_all V xs \<Longrightarrow> P (f xs)) \<Longrightarrow> gives 0 P (\<lambda>ts. add_list p f ts)"
  unfolding add_list_def by (erule gives_bind0) (intro givings)

lemma ifaceparam_gives:
  assumes "iface_accepted i"
  shows "gives 1 iface_accepted (\<lambda>ts. ifaceparam i ts)"
  unfolding ifaceparam_def
  by (intro givings
      gives_add_one [OF prefixdef_gives ]
      gives_add_one [OF routedef_gives] gives_add_one [OF rdnssdef_gives] gives_add_one [OF dnssldef_gives]
      gives_add_one [OF lowpancodef_gives] gives_add_one [OF abrodef_gives]
      gives_add_one [OF nat64prefixdef_gives]
      gives_add_list [OF gives_braced [OF client_item_gives]]
      gives_add_list [OF gives_braced [OF rasrc_item_gives]]
      gives_add_list [OF gives_braced [OF ignore_item_gives]]
      ifaceval_gives [OF assms, THEN gives_weak])
    (use assms in \<open>simp_all add: iface_accepted_def\<close>)

lemma ifacehead_gives: "gives 1 iface_accepted (\<lambda>ts. ifacehead ifs ts)"
  unfolding gives_def
proof (intro allI impI)
  fix ts x ts'
  assume "ifacehead ifs ts = Some (x, ts')" "list_all tok_ok ts"
  then show "length ts' + 1 \<le> length ts \<and> list_all tok_ok ts' \<and> iface_accepted x"
    by (cases "(ifs, ts)" rule: ifacehead.cases)
      (auto simp: iface_accepted_def iface_init_defaults_def Interface_zero_def ifname_def
        split: if_split_asm)
qed

lemma ifacedef_gives:
  assumes "list_all iface_accepted ifs"
  shows "gives 1 (\<lambda>ifs'. ifs' \<noteq> [] \<and> list_all iface_accepted ifs') (\<lambda>ts. ifacedef ifs ts)"
  unfolding ifacedef_def
  by (rule gives_bind [OF ifacehead_gives],
      rule gives_bind0 [OF gives_block [of iface_accepted ifaceparam, OF ifaceparam_gives]])
    (assumption | intro givings | simp add: assms)+

lemma grammar_accepted:
  "grammar ifs ts = Some ifs' \<Longrightarrow> list_all tok_ok ts \<Longrightarrow> list_all iface_accepted ifs \<Longrightarrow>
    ifs' \<noteq> [] \<and> list_all iface_accepted ifs'"
proof (induction ifs ts rule: grammar.induct)
  case (1 ifs ts)
  then obtain ifs1 ts1 where d: "ifacedef ifs ts = Some (ifs1, ts1)"
    by (auto simp: grammar.simps [of ifs ts] split: option.split_asm)
  from givesD [OF ifacedef_gives [OF "1.prems"(3)] d "1.prems"(2)]
  have i: "list_all tok_ok ts1" "ifs1 \<noteq> []" "list_all iface_accepted ifs1" by auto
  show ?case
  proof (cases "ts1 = []")
    case True
    with "1.prems"(1) i show ?thesis by (simp add: grammar.simps [of ifs ts] d)
  next
    case False
    with "1.prems"(1) have "length ts1 < length ts" "grammar ifs1 ts1 = Some ifs'"
      by (auto simp: grammar.simps [of ifs ts] d split: if_split_asm)
    with "1.IH" [OF d refl False] i show ?thesis by simp
  qed
qed

lemma perform_tok_ok: "perform a s = (Some t, l, n) \<Longrightarrow> (\<And>t. a = Do_return t \<Longrightarrow> tok_ok (t, k)) \<Longrightarrow> tok_ok (t, k)"
  by (auto simp: perform_def number_token_def string_token_def Let_def
      split: action.split_asm option.split if_split)

lemma rules_tok_ok: "(r, Do_return t) \<in> set rules \<Longrightarrow> tok_ok (t, k)"
  by (auto simp: rules_def)

lemma scan_step_tok_ok:
  assumes "s \<noteq> []" and "scan_step s = (Some t, l, n)"
  shows "tok_ok (t, k)"
proof -
  obtain m a where b: "best_rule rules s None = Some (m, a)"
    using best_rule_rules [OF assms(1)] by blast
  from first_longest_rule [OF best_rule_first_longest [OF b]] obtain r where "(r, a) \<in> set rules"
    by blast
  with assms(2) b show ?thesis
    by (auto simp: scan_step_def intro: perform_tok_ok rules_tok_ok)
qed

lemma scan_tok_ok: "list_all tok_ok (scan l s)"
proof (induction l s rule: scan.induct)
  case (1 l s)
  show ?case
  proof (cases "s = []")
    case True
    then show ?thesis by (simp add: scan.simps)
  next
    case False
    obtain t k n where st: "scan_step s = (t, k, n)" by (cases "scan_step s")
    have "list_all tok_ok (scan (l + int k) (drop n s))"
      by (rule "1.IH" [OF False st [symmetric] refl refl refl])
    with False scan_step_tok_ok [OF False, of _ k n] st show ?thesis
      by (simp add: scan.simps [of l s] Let_def split: option.split)
  qed
qed

lemma readin_config_accepted:
  "readin_config file = Some ifs \<Longrightarrow> ifs \<noteq> [] \<and> list_all iface_accepted ifs"
  using grammar_accepted [OF _ scan_tok_ok]
  by (auto simp: readin_config_def yyparse_def split: option.split_asm)

lemma prefix_accepted_config: "prefix_accepted p \<Longrightarrow> prefix_config_ok p"
  by (auto simp: prefix_accepted_def prefix_config_ok_def prefix_ok_def)

lemma iface_accepted_ok: "iface_accepted i \<Longrightarrow> iface_ok i"
  by (auto simp: iface_accepted_def iface_ok_def iface_inv_def iface_static_def addrs_ok_def portal_ok_def
      list_all_iff prefix_accepted_config split: option.split_asm)

lemma readin_configs_ok: "configs_ok (range readin_config)"
  unfolding configs_ok_def
proof (intro allI impI)
  fix ifs
  assume "Some ifs \<in> range readin_config"
  then obtain f where "readin_config f = Some ifs" by (metis imageE)
  from readin_config_accepted [OF this] show "list_all iface_ok ifs"
    by (auto simp: list_all_iff iface_accepted_ok)
qed

subsection \<open>The mask of an ignored prefix\<close>

lemma last_octet_bit:
  assumes "r < 8"
  shows "bit (NOT (push_bit (8 - r) 1) + 1 :: byte) i \<longleftrightarrow> 8 - r \<le> i \<and> i < 8"
proof -
  have "(NOT (push_bit (8 - r) 1) + 1 :: byte) = - push_bit (8 - r) 1"
    by (simp add: minus_eq_not_plus_1)
  also have "\<dots> = NOT (mask (8 - r))"
    by (simp add: minus_eq_not_minus_1 mask_eq_exp_minus_1 push_bit_eq_mult)
  finally show ?thesis
    using assms by (auto simp: bit_simps)
qed

text \<open>Up to 128 the mask has the leading bits, as many as the prefix length says.\<close>

lemma cidr_mask_bits:
  assumes "n \<le> 128"
  shows "\<exists>m. cidr_mask n = Some m \<and> (\<forall>k < 128. bit m k \<longleftrightarrow> 128 - unat n \<le> k)"
proof -
  define q r where "q = unat n div 8" and "r = unat n mod 8"
  have n: "unat n = 8 * q + r" "r < 8" "unat n \<le> 128"
    using assms by (simp_all add: q_def r_def word_le_nat_alt)
  define bs :: "byte list" where
    "bs = (if q = 16 then replicate 16 0xff
           else replicate q 0xff @ [NOT (push_bit (8 - r) 1) + 1] @ replicate (15 - q) 0)"
  have q: "q \<le> 16" using n by linarith
  have m: "cidr_mask n = Some (from_be bs)"
    using q by (simp add: cidr_mask_def Let_def bs_def flip: q_def r_def)
  have len: "length bs = 16"
    using q by (simp add: bs_def)
  have "bit (from_be bs :: in6_addr) k \<longleftrightarrow> 128 - unat n \<le> k" if k: "k < 128" for k
  proof -
    define d where "d = k div 8"
    define i where "i = 15 - d"
    have d: "k = 8 * d + k mod 8" "d < 16" "i + d = 15" using k by (simp_all add: d_def i_def)
    have ff: "bit (0xff :: byte) (k mod 8)"
    proof -
      have "(0xff :: byte) = mask 8" by (simp add: mask_eq_exp_minus_1)
      then show ?thesis by (simp only: bit_mask_iff) simp
    qed
    have "bit (from_be bs :: in6_addr) k \<longleftrightarrow> bit (bs ! i) (k mod 8)"
      using k d by (simp add: bit_from_be [OF refl] len i_def flip: d_def)
    also have "\<dots> \<longleftrightarrow> 128 - unat n \<le> k"
    proof -
      consider "i < q" | "i = q" "q < 16" | "q < i" "q < 16" using d by linarith
      then show ?thesis
      proof cases
        case 1
        then have "bs ! i = 0xff" by (auto simp: bs_def nth_append)
        with 1 ff d n show ?thesis by simp
      next
        case 2
        then have "bs ! i = NOT (push_bit (8 - r) 1) + 1" by (simp add: bs_def nth_append)
        then have "bit (bs ! i) (k mod 8) \<longleftrightarrow> 8 - r \<le> k mod 8"
          by (simp only: last_octet_bit [OF n(2)]) simp
        with 2 d n show ?thesis by linarith
      next
        case 3
        then have "bs ! i = 0"
          using d by (simp add: bs_def nth_append nth_Cons')
        with 3 d n show ?thesis by simp
      qed
    qed
    finally show ?thesis .
  qed
  with m show ?thesis by blast
qed

lemma cidr_mask_overrun: "cidr_mask n = None \<longleftrightarrow> 136 \<le> n"
proof -
  have "16 < unat n div 8 \<longleftrightarrow> 136 \<le> unat n" by linarith
  then show ?thesis by (simp add: cidr_mask_def Let_def word_le_nat_alt)
qed

subsection \<open>Two definitions of one interface\<close>

text \<open>The tokens of an empty definition, on line \<open>l\<close>.\<close>

definition empty_iface :: "string \<Rightarrow> int \<Rightarrow> toks" where
  "empty_iface s l = [(KEYWORD T_INTERFACE, l), (STRING s, l), (LITERAL CHR ''{'', l),
     (LITERAL CHR ''}'', l), (LITERAL CHR '';'', l)]"

lemma ifacedef_empty:
  "ifacedef ifs (empty_iface s l @ ts) =
    (if \<exists>i \<in> set ifs. name (props i) = s then None
     else Some (iface_init_defaults\<lparr>props := (props iface_init_defaults)\<lparr>name := ifname s\<rparr>, lineno := l\<rparr> # ifs, ts))"
  by (simp add: ifacedef_def empty_iface_def block_def expect_def next_is_def plist.simps)

lemma ifname_eq: "ifname s = s \<longleftrightarrow> length s < IFNAMSIZ"
  by (auto simp: ifname_def)

lemma duplicate_interface:
  "grammar [] (empty_iface s l @ empty_iface s m) = None \<longleftrightarrow> length s < IFNAMSIZ"
proof -
  let ?i = "\<lambda>l. iface_init_defaults\<lparr>props := (props iface_init_defaults)\<lparr>name := ifname s\<rparr>, lineno := l\<rparr>"
  have second: "grammar [?i l] (empty_iface s m) = (if ifname s = s then None else Some [?i m, ?i l])"
    using ifacedef_empty [of "[?i l]" s m "[]"] by (simp add: grammar.simps [of "[?i l]"])
  have "grammar [] (empty_iface s l @ empty_iface s m) = grammar [?i l] (empty_iface s m)"
    using ifacedef_empty [of "[]" s l "empty_iface s m"]
    by (simp add: grammar.simps [of "[]"]) (simp add: empty_iface_def)
  with second show ?thesis by (simp add: ifname_eq)
qed

end
