(* ===== verification/Addr_Text.thy ===== *)
theory Addr_Text
  imports Text_Input
begin

text \<open>
  The texts of addresses: \<^verbatim>\<open>inet_pton\<close> reads back what \<^verbatim>\<open>inet_ntop\<close> prints, for every address whose
  first 16 bits are not all zero. The text is eight groups of hexadecimal digits, or the groups before and
  after a run of zero groups.
\<close>

lemma hex_digit_value_digit [simp]: "d < 16 \<Longrightarrow> hex_digit_value (digit d) = Some d"
  by (drule less_16_cases) (auto simp: digit_def hex_digit_value_def tolower_def Let_def)

lemma hex_digit_value_colon [simp]: "hex_digit_value (CHR '':'') = None"
  by (simp add: hex_digit_value_def tolower_def)

abbreviation hex_value :: "nat \<Rightarrow> nat list \<Rightarrow> nat" where
  "hex_value v ds \<equiv> foldl (\<lambda>v d. v * 16 + d) v ds"

text \<open>A group as the list of its digits.\<close>

lemma hex_digits:
  "\<exists>ds. hex n = map digit ds \<and> ds \<noteq> [] \<and> list_all (\<lambda>d. d < 16) ds \<and> hex_value 0 ds = n \<and>
    (0 < k \<longrightarrow> n < 16 ^ k \<longrightarrow> length ds \<le> k)"
proof (induction n arbitrary: k rule: less_induct)
  case (less n)
  show ?case
  proof (cases "n < 16")
    case True
    then show ?thesis
      by (intro exI [of _ "[n]"]) (simp add: num_text.simps [of 16 n])
  next
    case False
    then obtain ds where ds: "hex (n div 16) = map digit ds" "ds \<noteq> []" "list_all (\<lambda>d. d < 16) ds"
        "hex_value 0 ds = n div 16" "0 < k - 1 \<longrightarrow> n div 16 < 16 ^ (k - 1) \<longrightarrow> length ds \<le> k - 1"
      using less.IH [of "n div 16" "k - 1"] by auto
    have "length (ds @ [n mod 16]) \<le> k" if "0 < k" "n < 16 ^ k"
    proof -
      have "k \<noteq> 1" using that False by auto
      with that have "0 < k - 1" "n < 16 ^ (k - 1) * 16"
        by (simp_all flip: power_Suc2)
      then have "n div 16 < 16 ^ (k - 1)" by (simp add: less_mult_imp_div_less)
      with ds(5) \<open>0 < k - 1\<close> show ?thesis by simp
    qed
    moreover have "hex n = map digit (ds @ [n mod 16])"
      using False by (simp add: num_text.simps [of 16 n] ds(1))
    ultimately show ?thesis
      using ds by (intro exI [of _ "ds @ [n mod 16]"]) (auto simp: mult.commute)
  qed
qed

lemma pton_digits:
  "list_all (\<lambda>d. d < 16) ds \<Longrightarrow> seen + length ds \<le> 4 \<Longrightarrow>
    pton_loop ws c seen val (map digit ds @ s) = pton_loop ws c (seen + length ds) (hex_value val ds) s"
  by (induction ds arbitrary: seen val) auto

lemma pton_group:
  assumes "n < 65536" and "length ws < 8"
  shows "s \<noteq> [] \<Longrightarrow> pton_loop ws c 0 0 (hex n @ CHR '':'' # s) = pton_loop (ws @ [n]) c 0 0 s"
    and "pton_loop ws c 0 0 (hex n) = Some (ws @ [n], c)"
proof -
  obtain ds where ds: "hex n = map digit ds" "ds \<noteq> []" "list_all (\<lambda>d. d < 16) ds" "hex_value 0 ds = n" "length ds \<le> 4"
    using hex_digits [of n 4] assms(1) by auto
  show "s \<noteq> [] \<Longrightarrow> pton_loop ws c 0 0 (hex n @ CHR '':'' # s) = pton_loop (ws @ [n]) c 0 0 s"
    using pton_digits [OF ds(3), of 0 ws c 0 "CHR '':'' # s"] ds assms(2) by (simp add: store_word_def)
  show "pton_loop ws c 0 0 (hex n) = Some (ws @ [n], c)"
    using pton_digits [OF ds(3), of 0 ws c 0 "[]"] ds assms(2) by (simp add: store_word_def)
qed

lemma words_addr_addr_words: "words_addr (map unat (addr_words a)) = a"
proof -
  define n where "n = unat a"
  have n: "n < 2 ^ 128" using unsigned_less [of a, where 'a = nat] by (simp add: n_def)
  have w: "unat (ucast (drop_bit k a) :: u16) = n div 2 ^ k mod 65536" for k
  proof -
    have "unat (drop_bit k a) = drop_bit k n"
      unfolding n_def by (intro bit_eqI) (auto simp: bit_simps)
    then show ?thesis
      by (simp add: unsigned_ucast_eq take_bit_eq_mod drop_bit_eq_div)
  qed
  define d e where "d = (\<lambda>k. n div 2 ^ k)" and "e = (\<lambda>k. n div 2 ^ k mod 65536)"
  have step: "d (k + 16) * 65536 + e k = d k" for k
    by (simp add: d_def e_def power_add div_mult2_eq)
  have ws: "map unat (addr_words a) = map e [112, 96, 80, 64, 48, 32, 16, 0]"
    using w [of 0] by (simp add: addr_words_def w upt_rec e_def)
  have "d 128 = 0" "d 0 = n"
    using n by (simp_all add: d_def)
  then have "foldl (\<lambda>acc x. acc * 65536 + x) 0 (map unat (addr_words a)) = n"
    using step [of 112] step [of 96] step [of 80] step [of 64] step [of 48] step [of 32] step [of 16] step [of 0]
    by (simp add: ws)
  moreover have "words_addr xs = of_nat (foldl (\<lambda>acc x. acc * 65536 + x) 0 xs)" for xs
    unfolding words_addr_def by (induction xs rule: rev_induct) auto
  ultimately show ?thesis by (simp add: n_def)
qed

lemma length_addr_words [simp]: "length (addr_words a) = 8"
  by (simp add: addr_words_def)

text \<open>The run of zero words that the text leaves out.\<close>

lemma best_run_fold:
  "fold (\<lambda>i (b, l). if l < zero_run ws i then (i, zero_run ws i) else (b, l)) js (b0, l0) = (b, l) \<Longrightarrow>
    b = b0 \<and> l = l0 \<or> b \<in> set js \<and> l = zero_run ws b"
proof (induction js arbitrary: b0 l0)
  case (Cons j js)
  then show ?case by (cases "l0 < zero_run ws j") fastforce+
qed simp

lemma zero_run_zero: "b \<le> i \<Longrightarrow> i < b + zero_run ws b \<Longrightarrow> i < length ws \<and> ws ! i = 0"
proof -
  assume i: "b \<le> i" "i < b + zero_run ws b"
  then have k: "i - b < length (takeWhile (\<lambda>x. x = 0) (drop b ws))"
    by (simp add: zero_run_def)
  then have "takeWhile (\<lambda>x. x = 0) (drop b ws) ! (i - b) = 0"
    using nth_mem set_takeWhileD by fastforce
  moreover have "i - b < length (drop b ws)"
    using k length_takeWhile_le less_le_trans by blast
  ultimately show ?thesis
    using i(1) k by (simp add: takeWhile_nth)
qed

lemma best_run_props:
  assumes "best_run ws = (b, l)" and "length ws = 8" and "2 \<le> l"
  shows "b + l \<le> 8" and "\<And>i. b \<le> i \<Longrightarrow> i < b + l \<Longrightarrow> ws ! i = 0"
proof -
  have l: "l = zero_run ws b"
    using best_run_fold [OF assms(1) [unfolded best_run_def]] assms(3) by auto
  then show "ws ! i = 0" if "b \<le> i" "i < b + l" for i
    using zero_run_zero that by blast
  show "b + l \<le> 8"
  proof -
    have "b + l - 1 < 8"
      using zero_run_zero [of b "b + l - 1" ws] assms(2,3) l by auto
    then show ?thesis by simp
  qed
qed

fun glue :: "nat list \<Rightarrow> string" where
  "glue [] = []"
| "glue [x] = hex x"
| "glue (x # y # zs) = hex x @ CHR '':'' # glue (y # zs)"

text \<open>The two forms of an address that does not begin with a zero word.\<close>

definition colon_form :: "nat list \<Rightarrow> nat \<Rightarrow> nat \<Rightarrow> string" where
  "colon_form ws b l = glue (take b ws) @ '':'' @ '':'' @ glue (drop (b + l) ws)"

lemma inet_ntop_forms:
  assumes "hd (addr_words a) \<noteq> 0"
  obtains "inet_ntop a = glue (map unat (addr_words a))"
  | b l where "inet_ntop a = colon_form (map unat (addr_words a)) b l" "0 < b" "2 \<le> l" "b + l \<le> 8"
      "\<And>i. b \<le> i \<Longrightarrow> i < b + l \<Longrightarrow> addr_words a ! i = 0"
proof -
  obtain b l where bl: "best_run (addr_words a) = (b, l)" by fastforce
  obtain w0 w1 w2 w3 w4 w5 w6 w7 where ws: "addr_words a = [w0, w1, w2, w3, w4, w5, w6, w7]"
    by (rule that [unfolded addr_words_def]) (simp add: addr_words_def upt_rec)
  show thesis
  proof (cases "2 \<le> l")
    case False
    then have "l \<noteq> 6" "l \<noteq> 5" by auto
    with False have "inet_ntop a = glue (map unat (addr_words a))"
      unfolding inet_ntop_def Let_def ws bl [unfolded ws] by simp
    then show ?thesis by (rule that(1))
  next
    case True
    note r = best_run_props [OF bl length_addr_words True]
    have "0 < b"
    proof (rule gr0I)
      assume "b = 0"
      with r(2) [of 0] True assms show False by (simp add: ws)
    qed
    moreover have "inet_ntop a = colon_form (map unat (addr_words a)) b l"
    proof -
      have "b \<in> {1, 2, 3, 4, 5, 6}" "l \<in> {2, 3, 4, 5, 6, 7}"
        using r(1) True \<open>0 < b\<close> by auto
      with r(1) show ?thesis
        unfolding inet_ntop_def Let_def ws colon_form_def bl [unfolded ws] by (elim insertE emptyE) simp_all
    qed
    ultimately show ?thesis using that(2) True r by blast
  qed
qed

lemma pton_glue:
  assumes "xs \<noteq> []" and "list_all (\<lambda>x. x < 65536) xs" and "length ws + length xs \<le> 8"
  shows "pton_loop ws c 0 0 (glue xs) = Some (ws @ xs, c)"
    and "pton_loop ws None 0 0 (glue xs @ CHR '':'' # CHR '':'' # s) =
      pton_loop (ws @ xs) (Some (length ws + length xs)) 0 0 s"
  using assms
proof (induction xs arbitrary: ws rule: glue.induct)
  case (3 x y zs)
  {
    case 1
    have "glue (y # zs) \<noteq> []" by (cases zs) simp_all
    with 1 3(1) [of "ws @ [x]"] show ?case by (simp add: pton_group)
  next
    case 2
    with 3(2) [of "ws @ [x]"] show ?case by (simp add: pton_group)
  }
qed (simp_all add: pton_group)

lemma hd_glue: "xs \<noteq> [] \<Longrightarrow> hd (glue xs) \<noteq> CHR '':'' \<and> glue xs \<noteq> []"
proof -
  have h: "hd (hex n @ t) \<noteq> CHR '':'' \<and> hex n \<noteq> []" for n t
  proof -
    obtain ds where ds: "hex n = map digit ds" "ds \<noteq> []" "list_all (\<lambda>d. d < 16) ds"
      using hex_digits [of n] by blast
    then have "hex_digit_value (hd (hex n @ t)) = Some (hd ds)" by (cases ds) simp_all
    with ds show ?thesis by (metis hex_digit_value_colon option.distinct(1) num_text_not_Nil)
  qed
  then show "xs \<noteq> [] \<Longrightarrow> ?thesis"
    using h [of _ "[]"] by (cases xs rule: glue.cases) (simp_all del: hd_append)
qed

lemma list_zero_gap:
  assumes "b + l \<le> length xs" and "\<And>i. b \<le> i \<Longrightarrow> i < b + l \<Longrightarrow> xs ! i = z"
  shows "take b xs @ replicate l z @ drop (b + l) xs = xs"
proof -
  have "take l (drop b xs) = replicate l z"
    using assms by (intro nth_equalityI) auto
  then show ?thesis
    by (metis add.commute append_take_drop_id drop_drop)
qed

lemma inet_pton_inet_ntop:
  assumes "hd (addr_words a) \<noteq> 0"
  shows "inet_pton (inet_ntop a) = Some a"
proof -
  define ws where "ws = map unat (addr_words a)"
  have ws: "length ws = 8" "list_all (\<lambda>x. x < 65536) ws"
    using unsigned_less [where 'a = nat and 'b = 16] by (auto simp: ws_def list_all_iff)
  show ?thesis
  proof (rule inet_ntop_forms [OF assms])
    assume t: "inet_ntop a = glue (map unat (addr_words a))"
    have "ws \<noteq> []" using ws(1) by auto
    with ws hd_glue [of ws] pton_glue(1) [of ws "[]" None] show ?thesis
      unfolding t ws_def [symmetric] inet_pton_def by (simp add: ws_def words_addr_addr_words)
  next
    fix b l
    assume t: "inet_ntop a = colon_form (map unat (addr_words a)) b l" and bl: "0 < b" "2 \<le> l" "b + l \<le> 8"
      and z: "\<And>i. b \<le> i \<Longrightarrow> i < b + l \<Longrightarrow> addr_words a ! i = 0"
    let ?u = "take b ws" and ?v = "drop (b + l) ws"
    have u: "?u \<noteq> []" "length ?u = b" "length ?v = 8 - (b + l)" "list_all (\<lambda>x. x < 65536) ?u" "list_all (\<lambda>x. x < 65536) ?v"
      using ws bl by (auto simp: list_all_iff dest: in_set_takeD in_set_dropD)
    have "pton_loop ?u (Some b) 0 0 (glue ?v) = Some (?u @ ?v, Some b)"
      using u bl pton_glue(1) [of ?v ?u "Some b"] by (cases "?v = []") simp_all
    then have "pton_loop [] None 0 0 (inet_ntop a) = Some (?u @ ?v, Some b)"
      using pton_glue(2) [OF u(1,4), of "[]" "glue ?v"] u(2) bl
      unfolding t colon_form_def ws_def [symmetric] by simp
    moreover have "hd (inet_ntop a) \<noteq> CHR '':''" "inet_ntop a \<noteq> []"
      using hd_glue [OF u(1)] unfolding t colon_form_def ws_def [symmetric] by simp_all
    moreover have "take b ws @ replicate l 0 @ drop (b + l) ws = ws"
      using bl z ws(1) by (intro list_zero_gap) (auto simp: ws_def)
    ultimately show ?thesis
      using u bl words_addr_addr_words [of a] unfolding inet_pton_def by (simp add: ws_def)
  qed
qed

lemma inet_ntop_0: "inet_ntop 0 = ''::''" "inet_pton ''::'' = Some 0"
  by code_simp+

end
