(* ===== verification/Scan_Words.thy ===== *)
theory Scan_Words
  imports Scanner Addr_Text
begin

text \<open>
  What the scanner makes of a text that is written word by word: a word is taken as a whole when a
  delimiter follows, blanks, line feeds and comments give no token. Keywords, numbers and the
  addresses that \<^verbatim>\<open>inet_ntop\<close> prints give the tokens they stand for.
\<close>

subsection \<open>The rule that is chosen\<close>

lemma first_longest_unique:
  assumes "first_longest rs s n a" and "first_longest rs s m b"
  shows "n = m \<and> a = b"
proof -
  obtain r1 q1 t1 where 1: "rs = r1 @ (q1, a) # t1" "n \<le> length s" "take n s \<in> lang q1" "\<forall>(q, b) \<in> set r1. take n s \<notin> lang q"
    using assms(1) unfolding first_longest_def by blast
  obtain r2 q2 t2 where 2: "rs = r2 @ (q2, b) # t2" "m \<le> length s" "take m s \<in> lang q2" "\<forall>(q, b) \<in> set r2. take m s \<notin> lang q"
    using assms(2) unfolding first_longest_def by blast
  have "(q1, a) \<in> set rs" by (simp add: 1(1))
  moreover have "(q2, b) \<in> set rs" by (simp add: 2(1))
  ultimately have nm: "n = m"
    using first_longest_upper [OF assms(1) _ 2(2,3)] first_longest_upper [OF assms(2) _ 1(2,3)] le_antisym by blast
  have eq: "r1 @ (q1, a) # t1 = r2 @ (q2, b) # t2" using 1(1) 2(1) by simp
  consider (same) "r1 = r2" | (l) "(q1, a) \<in> set r2" | (r) "(q2, b) \<in> set r1"
    using eq by (auto simp: append_eq_append_conv2 Cons_eq_append_conv append_eq_Cons_conv)
  then show ?thesis
    using 1 2 nm eq by cases fastforce+
qed

lemma best_rule_eqI: "first_longest rs s n a \<Longrightarrow> best_rule rs s None = Some (n, a)"
proof -
  assume fl: "first_longest rs s n a"
  show ?thesis
  proof (cases "best_rule rs s None")
    case None
    obtain r where "(r, a) \<in> set rs" "n \<le> length s" "take n s \<in> lang r"
      using first_longest_rule [OF fl] by blast
    with best_rule_None [OF None] show ?thesis by blast
  next
    case (Some mb)
    then show ?thesis
      using first_longest_unique [OF fl] best_rule_first_longest [of rs s] by (cases mb) auto
  qed
qed

subsection \<open>The characters of a match\<close>

fun chars_in :: "(char \<Rightarrow> bool) \<Rightarrow> regex \<Rightarrow> bool" where
  "chars_in P Empty = True"
| "chars_in P Eps = True"
| "chars_in P (Cls p) = (\<forall>c. p c \<longrightarrow> P c)"
| "chars_in P (Lit w) = list_all (\<lambda>d. \<forall>c. tolower c = tolower d \<longrightarrow> P c) w"
| "chars_in P (Alt r q) = (chars_in P r \<and> chars_in P q)"
| "chars_in P (Cat r q) = (chars_in P r \<and> chars_in P q)"
| "chars_in P (Star r) = chars_in P r"

lemma chars_in_lang: "chars_in P r \<Longrightarrow> v \<in> lang r \<Longrightarrow> list_all P v"
proof (induction r arbitrary: v)
  case (Lit w)
  then have "length v = length w" "\<forall>i < length w. tolower (v ! i) = tolower (w ! i)"
    by (auto simp: list_eq_iff_nth_eq dest: map_eq_imp_length_eq)
  with Lit show ?case by (auto simp: list_all_length)
next
  case (Star r)
  then show ?case by (fastforce simp: list_all_iff)
qed auto

definition alnum :: "char \<Rightarrow> bool" where
  "alnum c \<longleftrightarrow>
     (let n = (of_char c :: nat) in 97 \<le> n \<and> n \<le> 122 \<or> 65 \<le> n \<and> n \<le> 90 \<or> 48 \<le> n \<and> n \<le> 57)"

lemma tolower_classes [simp]:
  "alnum (tolower c) \<longleftrightarrow> alnum c" "isdigit (tolower c) \<longleftrightarrow> isdigit c" "string_char (tolower c) \<longleftrightarrow> string_char c"
  unfolding alnum_def string_char_def isdigit_def by (cases c; simp add: tolower_bits; auto)+

lemma alnum_string_char: "alnum c \<Longrightarrow> string_char c"
  by (auto simp: alnum_def string_char_def Let_def)

lemma isdigit_alnum: "isdigit c \<Longrightarrow> alnum c"
  by (auto simp: alnum_def isdigit_def Let_def)

lemma isxdigit_alnum: "isxdigit c \<Longrightarrow> alnum c"
proof -
  assume "isxdigit c"
  then have "alnum (tolower c)"
    by (auto simp: isxdigit_def hex_digit_value_def Let_def alnum_def simp del: tolower_classes split: if_split_asm)
  then show ?thesis by simp
qed

lemma chars_in_Lit:
  "list_all alnum w \<Longrightarrow> chars_in alnum (Lit w)" "list_all string_char w \<Longrightarrow> chars_in string_char (Lit w)"
  by (auto simp: list_all_iff) (metis tolower_classes)+

lemma alnum_Char [simp]: "alnum (Char b0 b1 b2 b3 b4 b5 b6 b7) \<longleftrightarrow>
   (let n = (of_char (Char b0 b1 b2 b3 b4 b5 b6 b7) :: nat)
    in 97 \<le> n \<and> n \<le> 122 \<or> 65 \<le> n \<and> n \<le> 90 \<or> 48 \<le> n \<and> n \<le> 57)"
  by (simp add: alnum_def)

lemma keyword_chars: "list_all (\<lambda>(w, k). list_all alnum w \<and> \<not> isdigit (hd w)) keyword_table"
  by (simp add: keyword_table_def isdigit_def)

lemma keyword_distinct: "distinct (map (\<lambda>(w, k). map tolower w) keyword_table)"
  by code_simp

lemma chars_in_mono: "chars_in P r \<Longrightarrow> (\<And>c. P c \<Longrightarrow> Q c) \<Longrightarrow> chars_in Q r"
  by (induction r) (auto simp: list_all_iff)

definition word_re :: "regex \<Rightarrow> bool" where
  "word_re r \<longleftrightarrow> chars_in string_char r"

lemma addr_within: "chars_in (\<lambda>c. isxdigit c \<or> c = CHR '':'') addr_re"
proof -
  have "tolower c = CHR '':'' \<longleftrightarrow> c = CHR '':''" for c
    by (cases c) (auto simp: tolower_bits)
  then show ?thesis
    by (simp add: pattern_defs tolower_bits Let_def)
qed

lemma word_res:
  "word_re addr_re" "word_re naddr_re" "word_re number_re" "word_re snum_re" "word_re decimal_re"
  "word_re (rep1 (Cls string_char))" "list_all string_char w \<Longrightarrow> word_re (Lit w)"
proof -
  have sc: "string_char (CHR '':'')" "string_char (CHR ''!'')" "string_char (CHR ''-'')" "string_char (CHR ''.'')"
    by (simp_all add: string_char_def)
  have one: "chars_in string_char (Lit [c])" if "string_char c" for c
    using chars_in_Lit(2) [of "[c]"] that by simp
  have d: "string_char c" if "isdigit c \<or> isxdigit c" for c
    using that alnum_string_char isdigit_alnum isxdigit_alnum by blast
  show a: "word_re addr_re"
    unfolding word_re_def using addr_within by (rule chars_in_mono) (auto intro: d simp: sc)
  show "word_re naddr_re" "word_re number_re" "word_re snum_re" "word_re decimal_re"
    "word_re (rep1 (Cls string_char))" "list_all string_char w \<Longrightarrow> word_re (Lit w)"
    using a one [of "CHR ''!''"] one [of "CHR ''-''"] one [of "CHR ''.''"] chars_in_Lit(2) [of w] d
    unfolding word_re_def
    by (simp_all add: naddr_re_def number_re_def snum_re_def decimal_re_def rep1_def sc del: chars_in.simps(4))
qed

text \<open>A match of a rule is a word, or of one of the few rules that match something else.\<close>

lemma rule_match:
  assumes "(q, a) \<in> set rules" and "v \<in> lang q"
  shows "list_all string_char v \<or> v \<in> lang comment_re \<or> v \<in> lang whitespace_re \<or> v \<in> lang quoted_re \<or> length v = 1"
proof -
  have "word_re q \<or> q = comment_re \<or> q = whitespace_re \<or> q = string_re \<or> q = Lit nl \<or> (\<exists>p. q = Cls p)"
  proof -
    have "word_re (Lit w)" if "(w, k) \<in> set keyword_table" for w k
      using that keyword_chars alnum_string_char by (intro word_res) (fastforce simp: list_all_iff)
    with assms(1) word_res show ?thesis
      by (auto simp: rules_def string_char_def)
  qed
  moreover have "list_all string_char v \<or> v \<in> lang quoted_re" if "q = string_re"
    using assms(2) that word_res(6) by (auto simp: string_re_def word_re_def chars_in_lang simp del: chars_in.simps)
  moreover have "length v = 1" if "q = Lit nl"
    using assms(2) that by (auto dest: map_eq_imp_length_eq)
  ultimately show ?thesis
    using assms(2) chars_in_lang by (auto simp: word_re_def)
qed

lemma Cat_cases:
  "v \<in> lang (Cat (Cls p) q) \<longleftrightarrow> (\<exists>c w. v = c # w \<and> p c \<and> w \<in> lang q)"
  "v \<in> lang (Cat (Lit [d]) q) \<longleftrightarrow> (\<exists>c w. v = c # w \<and> tolower c = tolower d \<and> w \<in> lang q)"
  "v \<in> lang (Cat q (Cls p)) \<longleftrightarrow> (\<exists>w c. v = w @ [c] \<and> p c \<and> w \<in> lang q)"
proof -
  show "v \<in> lang (Cat (Cls p) q) \<longleftrightarrow> (\<exists>c w. v = c # w \<and> p c \<and> w \<in> lang q)"
    by simp (metis append_Cons append_Nil)
  show "v \<in> lang (Cat (Lit [d]) q) \<longleftrightarrow> (\<exists>c w. v = c # w \<and> tolower c = tolower d \<and> w \<in> lang q)"
    by (simp add: map_eq_Cons_conv) (metis append_Cons append_Nil)
  show "v \<in> lang (Cat q (Cls p)) \<longleftrightarrow> (\<exists>w c. v = w @ [c] \<and> p c \<and> w \<in> lang q)"
    by simp metis
qed

lemma star_Cls: "v \<in> lang (Star (Cls p)) \<longleftrightarrow> list_all p v"
proof
  assume "v \<in> lang (Star (Cls p))"
  then show "list_all p v" by (rule chars_in_lang [rotated]) simp
next
  assume "list_all p v"
  then show "v \<in> lang (Star (Cls p))"
    by (auto simp: list_all_iff intro!: exI [of _ "map (\<lambda>c. [c]) v"])
qed

lemma rep1_Cls: "v \<in> lang (rep1 (Cls p)) \<longleftrightarrow> v \<noteq> [] \<and> list_all p v"
  unfolding rep1_def Cat_cases star_Cls by (cases v) auto

lemma comment_match: "v \<in> lang comment_re \<longleftrightarrow> (\<exists>u. v = CHR ''#'' # u @ nl \<and> CHR 0x0A \<notin> set u)"
proof -
  have "tolower c = tolower (CHR ''#'') \<longleftrightarrow> c = CHR ''#''" for c
    by (cases c) (auto simp: tolower_bits)
  then show ?thesis
    unfolding comment_re_def Cat_cases star_Cls by (auto simp: not_newline_def list_all_iff)
qed

abbreviation blank :: "char \<Rightarrow> bool" where
  "blank c \<equiv> c = CHR '' '' \<or> c = CHR 0x09"

lemma whitespace_match: "v \<in> lang whitespace_re \<longleftrightarrow> v \<noteq> [] \<and> list_all blank v"
  unfolding whitespace_re_def by (rule rep1_Cls)

lemma Cat_option: "v \<in> lang (Cat (Alt r Eps) q) \<longleftrightarrow> v \<in> lang (Cat r q) \<or> v \<in> lang q"
  by simp (metis append_Nil)

lemma tolower_quote: "tolower c = tolower (CHR 0x22) \<longleftrightarrow> c = CHR 0x22"
  by (cases c) (auto simp: tolower_bits)

lemma quoted_match:
  "v \<in> lang quoted_re \<Longrightarrow> hd v = CHR 0x22 \<or> 2 \<le> length v \<and> tolower (hd v) = CHR ''l'' \<and> v ! 1 = CHR 0x22"
proof -
  have l: "tolower (CHR ''L'') = CHR ''l''"
    by (simp add: tolower_bits)
  obtain body where b: "quoted_re = Cat (Alt (Lit ''L'') Eps) (Cat (Lit [CHR 0x22]) body)"
    by (simp add: quoted_re_def)
  show "v \<in> lang quoted_re \<Longrightarrow> ?thesis"
    unfolding b Cat_option Cat_cases tolower_quote l by auto
qed

text \<open>A delimiter ends a word.\<close>

definition delim :: "char \<Rightarrow> bool" where
  "delim d \<longleftrightarrow> \<not> string_char d \<and> d \<noteq> CHR 0x22"

definition is_word :: "string \<Rightarrow> bool" where
  "is_word w \<longleftrightarrow> w \<noteq> [] \<and> list_all string_char w \<and> hd w \<noteq> CHR ''#''"

lemma string_char_not [simp]:
  "\<not> string_char (CHR '' '')" "\<not> string_char (CHR 0x09)" "\<not> string_char (CHR 0x0A)" "\<not> string_char (CHR 0x22)"
  "\<not> string_char (CHR '';'')" "\<not> string_char (CHR ''/'')" "\<not> string_char (CHR ''{'')" "\<not> string_char (CHR ''}'')"
  by (simp_all add: string_char_def)

lemma delims [simp]:
  "delim (CHR '' '')" "delim (CHR 0x09)" "delim (CHR 0x0A)" "delim (CHR '';'')" "delim (CHR ''/'')"
  "delim (CHR ''{'')" "delim (CHR ''}'')"
  by (simp_all add: delim_def)

lemma word_upper:
  assumes "is_word w" and "delim d" and "(q, a) \<in> set rules" and "take m (w @ d # s) \<in> lang q" and "m \<le> length (w @ d # s)"
  shows "m \<le> length w"
proof (rule ccontr)
  assume "\<not> m \<le> length w"
  then obtain k where k: "m - length w = Suc k" by (metis Suc_diff_le Suc_leI not_le diff_Suc_Suc)
  let ?v = "w @ d # take k s"
  have v: "?v \<in> lang q"
    using assms(4) \<open>\<not> m \<le> length w\<close> by (simp add: k)
  have w: "w \<noteq> []" "string_char (hd w)" "hd w \<noteq> CHR ''#''" "list_all string_char w" "\<not> string_char d" "d \<noteq> CHR 0x22"
    using assms(1,2) by (auto simp: is_word_def delim_def list_all_iff)
  have "\<not> list_all string_char ?v" using w(5) by simp
  moreover have "?v \<notin> lang comment_re"
    using w by (cases w) (auto simp: comment_match)
  moreover have "?v \<notin> lang whitespace_re"
    using w by (cases w) (auto simp: whitespace_match)
  moreover have "?v \<notin> lang quoted_re"
  proof
    assume "?v \<in> lang quoted_re"
    then have "hd ?v = CHR 0x22 \<or> ?v ! 1 = CHR 0x22" using quoted_match by blast
    with w show False
      by (cases w rule: remdups_adj.cases) auto
  qed
  moreover have "length ?v \<noteq> 1" using w(1) by (cases w) auto
  ultimately show False using rule_match [OF assms(3) v] by blast
qed

text \<open>The rule of a word is the first one that has it in its language.\<close>

definition word_rule :: "string \<Rightarrow> action \<Rightarrow> bool" where
  "word_rule w a \<longleftrightarrow> is_word w \<and>
     (\<exists>before r after. rules = before @ (r, a) # after \<and> w \<in> lang r \<and> (\<forall>(q, b) \<in> set before. w \<notin> lang q))"

lemma best_rule_word:
  assumes "word_rule w a" and "delim d"
  shows "best_rule rules (w @ d # s) None = Some (length w, a)"
proof -
  obtain before r after where r: "rules = before @ (r, a) # after" "w \<in> lang r" "\<forall>(q, b) \<in> set before. w \<notin> lang q"
    using assms(1) unfolding word_rule_def by blast
  show ?thesis
  proof (rule best_rule_eqI, rule first_longestI [OF r(1)])
    show "m \<le> length w" if "(q, b) \<in> set rules" "m \<le> length (w @ d # s)" "take m (w @ d # s) \<in> lang q" for q b m
      using word_upper [OF _ assms(2) that(1,3,2)] assms(1) by (simp add: word_rule_def)
  qed (use r in auto)
qed

lemma word_ruleI: "is_word w \<Longrightarrow> best_rule rules w None = Some (length w, a) \<Longrightarrow> word_rule w a"
  using best_rule_first_longest [of rules w "length w" a] by (auto simp: word_rule_def first_longest_def)

text \<open>A character that is no part of a word, a quotation or a blank is matched alone.\<close>

lemma single_upper:
  assumes "delim c" and "\<not> blank c" and "(q, a) \<in> set rules" and "take m (c # s) \<in> lang q" and "m \<le> length (c # s)"
  shows "m \<le> 1"
proof (cases m)
  case (Suc k)
  let ?v = "c # take k s"
  have c: "\<not> string_char c" "c \<noteq> CHR 0x22" "c \<noteq> CHR ''#''"
    using assms(1) by (auto simp: delim_def string_char_def)
  have "?v \<notin> lang comment_re" "?v \<notin> lang whitespace_re"
    using c assms(2) by (simp_all add: comment_match whitespace_match)
  moreover have "?v \<notin> lang quoted_re"
    using quoted_match [of ?v] c tolower_classes(3) [of c] by (auto simp: string_char_def)
  ultimately have "length ?v = 1"
    using rule_match [OF assms(3), of ?v] assms(4) c(1) by (simp add: Suc)
  then show ?thesis
    using assms(5) by (simp add: Suc)
qed simp

lemma best_rule_extend:
  assumes "best_rule rules w None = Some (length w, a)"
    and "\<And>q b m. (q, b) \<in> set rules \<Longrightarrow> take m (w @ s) \<in> lang q \<Longrightarrow> m \<le> length (w @ s) \<Longrightarrow> m \<le> length w"
  shows "best_rule rules (w @ s) None = Some (length w, a)"
proof -
  obtain before r after where r: "rules = before @ (r, a) # after" "w \<in> lang r" "\<forall>(q, b) \<in> set before. w \<notin> lang q"
    using best_rule_first_longest [OF assms(1)] by (auto simp: first_longest_def)
  show ?thesis
  proof (rule best_rule_eqI, rule first_longestI [OF r(1)])
    show "m \<le> length w" if "(q, b) \<in> set rules" "m \<le> length (w @ s)" "take m (w @ s) \<in> lang q" for q b m
      using that assms(2) by blast
    show "take (length w) (w @ s) \<notin> lang q" if "(q, b) \<in> set before" for q b
      using that r(3) by auto
  qed (use r(2) in simp_all)
qed

lemma best_rule_single:
  assumes "best_rule rules [c] None = Some (1, a)" and "delim c" and "\<not> blank c"
  shows "best_rule rules (c # s) None = Some (1, a)"
  using best_rule_extend [of "[c]" a s] single_upper [OF assms(2,3)] assms(1) by simp

lemma best_rule_chars:
  "best_rule rules nl None = Some (1, Do_newline)"
  "best_rule rules '';'' None = Some (1, Do_literal)"
  "best_rule rules ''/'' None = Some (1, Do_literal)"
  "best_rule rules ''{'' None = Some (1, Do_literal)"
  "best_rule rules ''}'' None = Some (1, Do_literal)"
  by code_simp+

lemma best_rule_blank:
  assumes "blank c"
  shows "best_rule rules (c # s) None = Some (Suc (length (takeWhile blank s)), Do_nothing)"
proof (rule best_rule_eqI, rule first_longestI)
  let ?n = "length (takeWhile blank s)"
  show "rules = [(comment_re, Do_comment), (Lit nl, Do_newline)] @ (whitespace_re, Do_nothing) # drop 3 rules"
    by (simp add: rules_def)
  have t: "take ?n s = takeWhile blank s"
    by (rule takeWhile_eq_take [symmetric])
  show "Suc ?n \<le> length (c # s)" by (simp add: length_takeWhile_le)
  show "take (Suc ?n) (c # s) \<in> lang whitespace_re"
    using assms by (auto simp: t whitespace_match list_all_iff dest: set_takeWhileD)
  show "take (Suc ?n) (c # s) \<notin> lang q" if "(q, b) \<in> set [(comment_re, Do_comment), (Lit nl, Do_newline)]" for q b
    using that assms by (auto simp: comment_match tolower_def map_eq_Cons_conv)
  show "m \<le> Suc ?n" if q: "(q, b) \<in> set rules" "m \<le> length (c # s)" "take m (c # s) \<in> lang q" for q b m
  proof (cases m)
    case (Suc k)
    let ?v = "c # take k s"
    have "\<not> list_all string_char ?v" "?v \<notin> lang comment_re" "?v \<notin> lang quoted_re"
      using assms quoted_match [of ?v] by (auto simp: comment_match tolower_bits)
    then have "?v \<in> lang whitespace_re \<or> length ?v = 1"
      using rule_match [OF q(1), of ?v] q(3) by (auto simp: Suc)
    moreover have "k \<le> ?n" if "list_all blank (take k s)"
      using that q(2) unfolding Suc
    proof (induction k arbitrary: s)
      case (Suc k)
      then show ?case by (cases s) auto
    qed simp
    ultimately show ?thesis
      using q(2) by (auto simp: Suc whitespace_match)
  qed simp
qed

lemma best_rule_comment:
  assumes "CHR 0x0A \<notin> set u"
  shows "best_rule rules (CHR ''#'' # u @ CHR 0x0A # s) None = Some (length u + 2, Do_comment)"
proof (rule best_rule_eqI, rule first_longestI)
  let ?t = "CHR ''#'' # u @ CHR 0x0A # s"
  show "rules = [] @ (comment_re, Do_comment) # drop 1 rules"
    by (simp add: rules_def)
  show "take (length u + 2) ?t \<in> lang comment_re"
    using assms by (simp add: comment_match)
  show "m \<le> length u + 2" if q: "(q, b) \<in> set rules" "m \<le> length ?t" "take m ?t \<in> lang q" for q b m
  proof (rule ccontr)
    assume "\<not> m \<le> length u + 2"
    then obtain k where k: "m = length u + 2 + Suc k" by (metis less_iff_Suc_add not_le add_Suc_right)
    let ?v = "CHR ''#'' # u @ CHR 0x0A # take (Suc k) s"
    have v: "take m ?t = ?v" by (simp add: k)
    have s: "take (Suc k) s \<noteq> []" using q(2) by (auto simp: k)
    have "?v \<notin> lang comment_re"
    proof
      assume "?v \<in> lang comment_re"
      then obtain u' where "u @ CHR 0x0A # take (Suc k) s = u' @ nl" "CHR 0x0A \<notin> set u'"
        by (auto simp: comment_match)
      with s show False
        by (auto simp: append_eq_append_conv2 append_eq_Cons_conv Cons_eq_append_conv)
    qed
    moreover have "\<not> list_all string_char ?v" "?v \<notin> lang whitespace_re" "length ?v \<noteq> 1"
      by (simp_all add: whitespace_match)
    moreover have "?v \<notin> lang quoted_re"
    proof
      assume "?v \<in> lang quoted_re"
      from quoted_match [OF this] show False by (auto simp: tolower_bits)
    qed
    ultimately show False
      using rule_match [OF q(1), of ?v] q(3) unfolding v by blast
  qed
qed simp_all

subsection \<open>The tokens of a text\<close>

lemma scan_Nil [simp]: "scan l [] = []"
  by (simp add: scan.simps)

lemma scan_token:
  "best_rule rules s None = Some (n, a) \<Longrightarrow> perform a (take n s) = (Some t, 0, m) \<Longrightarrow> s \<noteq> [] \<Longrightarrow>
    scan l s = (t, l) # scan l (drop m s)"
  by (simp add: scan.simps [of l s] scan_step_def)

lemma scan_skip:
  "best_rule rules s None = Some (n, a) \<Longrightarrow> perform a (take n s) = (None, k, m) \<Longrightarrow> s \<noteq> [] \<Longrightarrow>
    scan l s = scan (l + int k) (drop m s)"
  by (simp add: scan.simps [of l s] scan_step_def)

lemma scan_newline: "scan l (CHR 0x0A # s) = scan (l + 1) s"
proof -
  have "best_rule rules (CHR 0x0A # s) None = Some (1, Do_newline)"
    by (rule best_rule_single) (simp_all add: best_rule_chars)
  from scan_skip [OF this, where l = l] show ?thesis by (simp add: perform_def)
qed

lemma scan_literal:
  assumes "c \<in> {CHR '';'', CHR ''/'', CHR ''{'', CHR ''}''}"
  shows "scan l (c # s) = (LITERAL c, l) # scan l s"
proof -
  have "best_rule rules (c # s) None = Some (1, Do_literal)"
    by (rule best_rule_single) (use assms in \<open>auto simp: best_rule_chars\<close>)
  from scan_token [OF this, where l = l] show ?thesis by (simp add: perform_def)
qed

lemma scan_blanks: "blank c \<Longrightarrow> scan l (c # s) = scan l (dropWhile blank s)"
proof -
  assume "blank c"
  note b = best_rule_blank [OF this, of s]
  have "drop (length (takeWhile blank s)) s = dropWhile blank s"
    by (rule dropWhile_eq_drop [symmetric])
  then show ?thesis
    using scan_skip [OF b, where l = l] by (simp add: perform_def length_takeWhile_le min_absorb2)
qed

lemma scan_blank: "blank c \<Longrightarrow> scan l (c # s) = scan l s"
proof (cases s)
  case (Cons d s')
  assume "blank c"
  then show ?thesis
    using scan_blanks [of c l s] scan_blanks [of d l s'] Cons by (cases "blank d") simp_all
qed (simp add: scan_blanks)

lemma scan_comment:
  "CHR 0x0A \<notin> set u \<Longrightarrow> scan l (CHR ''#'' # u @ CHR 0x0A # s) = scan l (CHR 0x0A # s)"
  using scan_skip [OF best_rule_comment [of u s], where l = l] by (simp add: perform_def)

text \<open>A word and the token it stands for.\<close>

definition reads_as :: "string \<Rightarrow> token \<Rightarrow> bool" where
  "reads_as w t \<longleftrightarrow> (\<exists>a. word_rule w a \<and> perform a w = (Some t, 0, length w))"

lemma scan_word: "reads_as w t \<Longrightarrow> delim d \<Longrightarrow> scan l (w @ d # s) = (t, l) # scan l (d # s)"
proof -
  assume "reads_as w t" "delim d"
  then obtain a where "word_rule w a" "perform a w = (Some t, 0, length w)" "w \<noteq> []"
    by (auto simp: reads_as_def word_rule_def is_word_def)
  with scan_token [OF best_rule_word [OF _ \<open>delim d\<close>], of w a s t "length w" l] show ?thesis by simp
qed

text \<open>\<open>lexes s ks\<close>: whatever follows, the text \<open>s\<close> gives the tokens \<open>ks\<close> first.\<close>

definition lexes :: "string \<Rightarrow> token list \<Rightarrow> bool" where
  "lexes s ks \<longleftrightarrow> (\<forall>l rest. \<exists>ts n. map fst ts = ks \<and> scan l (s @ rest) = ts @ scan (l + int n) rest)"

lemma lexes_Nil: "lexes [] []"
  by (auto simp: lexes_def intro: exI [of _ 0])

lemma lexes_append:
  assumes "lexes s ks" and "lexes t js"
  shows "lexes (s @ t) (ks @ js)"
  unfolding lexes_def
proof (intro allI)
  fix l rest
  obtain ts n where 1: "map fst ts = ks" "scan l (s @ t @ rest) = ts @ scan (l + int n) (t @ rest)"
    using assms(1) unfolding lexes_def by blast
  obtain us m where 2: "map fst us = js" "scan (l + int n) (t @ rest) = us @ scan (l + int n + int m) rest"
    using assms(2) unfolding lexes_def by blast
  show "\<exists>ts n. map fst ts = ks @ js \<and> scan l ((s @ t) @ rest) = ts @ scan (l + int n) rest"
    using 1 2 by (intro exI [of _ "ts @ us"] exI [of _ "n + m"]) (simp add: add.assoc)
qed

lemma lexesI:
  "(\<And>l rest. \<exists>ts n. map fst ts = ks \<and> scan l (s @ rest) = ts @ scan (l + int n) rest) \<Longrightarrow> lexes s ks"
  by (simp add: lexes_def)

lemma lexes_newline: "lexes nl []"
  by (rule lexesI, rule exI [of _ "[]"], rule exI [of _ 1]) (simp add: scan_newline)

lemma lexes_blank: "blank c \<Longrightarrow> lexes [c] []"
  by (rule lexesI, rule exI [of _ "[]"], rule exI [of _ 0]) (simp add: scan_blank)

lemma lexes_literal: "c \<in> {CHR '';'', CHR ''/'', CHR ''{'', CHR ''}''} \<Longrightarrow> lexes [c] [LITERAL c]"
  by (rule lexesI, rule exI [of _ "[(LITERAL c, _)]"], rule exI [of _ 0]) (simp add: scan_literal)

text \<open>A word needs its delimiter, a comment its line feed.\<close>

lemma lexes_word:
  assumes "reads_as w t" and "delim d" and "lexes (d # s) ks"
  shows "lexes (w @ d # s) (t # ks)"
proof (rule lexesI)
  fix l rest
  obtain ts n where "map fst ts = ks" "scan l (d # s @ rest) = ts @ scan (l + int n) rest"
    using assms(3) unfolding lexes_def by fastforce
  then show "\<exists>ts n. map fst ts = t # ks \<and> scan l ((w @ d # s) @ rest) = ts @ scan (l + int n) rest"
    using scan_word [OF assms(1,2), of l "s @ rest"]
    by (intro exI [of _ "(t, l) # ts"] exI [of _ n]) simp
qed

lemma lexes_comment: "CHR 0x0A \<notin> set u \<Longrightarrow> lexes (CHR ''#'' # u @ nl) []"
  by (rule lexesI, rule exI [of _ "[]"], rule exI [of _ 1]) (simp add: scan_comment scan_newline)

lemma lexes_concat: "(\<And>x. x \<in> set xs \<Longrightarrow> lexes (f x) (g x)) \<Longrightarrow> lexes (concat (map f xs)) (concat (map g xs))"
  by (induction xs) (auto intro: lexes_Nil lexes_append)

subsection \<open>Keywords, numbers and addresses\<close>

lemma word_rule_position:
  assumes "is_word w" and "rules = before @ (r, a) # after" and "w \<in> lang r"
    and "\<And>q b. (q, b) \<in> set before \<Longrightarrow> w \<notin> lang q"
  shows "word_rule w a"
  unfolding word_rule_def using assms by blast

definition leading_rules :: "(regex \<times> action) list" where
  "leading_rules = [(comment_re, Do_comment), (Lit nl, Do_newline), (whitespace_re, Do_nothing)]"

definition keyword_rules :: "(string \<times> keyword) list \<Rightarrow> (regex \<times> action) list" where
  "keyword_rules t = map (\<lambda>(w, k). (Lit w, Do_return (KEYWORD k))) t"

lemma rules_split:
  "rules = leading_rules @ keyword_rules keyword_table @ (addr_re, Do_addr) # drop 69 rules"
  "rules = (leading_rules @ keyword_rules keyword_table @ [(addr_re, Do_addr), (naddr_re, Do_naddr)]) @
    (number_re, Do_number) # drop 71 rules"
proof -
  have "length keyword_table = 65" by (simp add: keyword_table_def)
  then show "rules = leading_rules @ keyword_rules keyword_table @ (addr_re, Do_addr) # drop 69 rules"
    "rules = (leading_rules @ keyword_rules keyword_table @ [(addr_re, Do_addr), (naddr_re, Do_naddr)]) @
      (number_re, Do_number) # drop 71 rules"
    by (simp_all add: rules_def leading_rules_def keyword_rules_def)
qed

lemma not_leading:
  assumes "is_word w" and "(q, b) \<in> set leading_rules"
  shows "w \<notin> lang q"
proof -
  obtain c v where w: "w = c # v" "string_char c" "c \<noteq> CHR ''#''"
    using assms(1) by (cases w) (auto simp: is_word_def)
  moreover have "tolower c \<noteq> tolower (CHR 0x0A)"
    using w(2) by (metis string_char_not(3) tolower_classes(3))
  ultimately show ?thesis
    using assms(2) by (auto simp: leading_rules_def comment_match whitespace_match)
qed

lemma not_keyword:
  assumes "(q, b) \<in> set (keyword_rules keyword_table)" and "w \<in> lang q" and "w \<noteq> []"
  shows "list_all alnum w \<and> \<not> isdigit (hd w)"
proof -
  obtain v k where v: "(v, k) \<in> set keyword_table" "q = Lit v"
    using assms(1) by (auto simp: keyword_rules_def)
  then have "list_all alnum v" "\<not> isdigit (hd v)"
    using keyword_chars by (auto simp: list_all_iff)
  moreover have "map tolower w = map tolower v" using assms(2) v(2) by simp
  then have "tolower (hd w) = tolower (hd v)"
    using assms(3) by (cases w; cases v) simp_all
  ultimately show ?thesis
    using chars_in_lang [OF chars_in_Lit(1)] assms(2) v(2) tolower_classes(2) by metis
qed

lemma keyword_is_word: "list_all alnum w \<Longrightarrow> w \<noteq> [] \<Longrightarrow> is_word w"
  by (cases w) (auto simp: is_word_def list_all_iff alnum_string_char)

lemma reads_keyword_cases:
  assumes "(w, k) \<in> set keyword_table" and "map tolower v = map tolower w"
  shows "reads_as v (KEYWORD k)"
proof -
  obtain pre post where t: "keyword_table = pre @ (w, k) # post"
    using assms(1) by (meson split_list)
  have w: "list_all alnum w" "w \<noteq> []"
    using assms(1) keyword_chars keyword_table_nonempty by (auto simp: list_all_iff)
  have v: "list_all alnum v" "v \<noteq> []"
    using chars_in_lang [OF chars_in_Lit(1) [OF w(1)], of v] assms(2) w(2) by auto
  have "word_rule v (Do_return (KEYWORD k))"
  proof (rule word_rule_position [OF keyword_is_word [OF v], of "leading_rules @ keyword_rules pre" "Lit w"])
    show "rules = (leading_rules @ keyword_rules pre) @ (Lit w, Do_return (KEYWORD k)) #
        (keyword_rules post @ (addr_re, Do_addr) # drop 69 rules)"
      using rules_split(1) unfolding t by (simp add: keyword_rules_def)
    show "v \<notin> lang q" if q: "(q, b) \<in> set (leading_rules @ keyword_rules pre)" for q b
    proof
      assume "v \<in> lang q"
      then obtain u j where "(u, j) \<in> set pre" "map tolower w = map tolower u"
        using q not_leading [OF keyword_is_word [OF v]] assms(2) by (auto simp: keyword_rules_def)
      with keyword_distinct show False by (force simp: t)
    qed
  qed (simp add: assms(2))
  then show ?thesis
    by (auto simp: reads_as_def perform_def)
qed

lemma reads_keyword: "(w, k) \<in> set keyword_table \<Longrightarrow> reads_as w (KEYWORD k)"
  by (rule reads_keyword_cases) simp_all

text \<open>The word of each keyword in a configuration file.\<close>

definition keyword_word :: "keyword \<Rightarrow> string" where
  "keyword_word k =
     (case k of
        T_INTERFACE \<Rightarrow> ''interface'' | T_PREFIX \<Rightarrow> ''prefix''
      | T_ROUTE \<Rightarrow> ''route'' | T_RDNSS \<Rightarrow> ''RDNSS''
      | T_DNSSL \<Rightarrow> ''DNSSL'' | T_CLIENTS \<Rightarrow> ''clients''
      | T_LOWPANCO \<Rightarrow> ''lowpanco'' | T_ABRO \<Rightarrow> ''abro''
      | T_NAT64PREFIX \<Rightarrow> ''nat64prefix''
      | T_AUTOIGNOREPREFIX \<Rightarrow> ''autoignoreprefixes''
      | T_RASRCADDRESS \<Rightarrow> ''AdvRASrcAddress''
      | T_IgnoreIfMissing \<Rightarrow> ''IgnoreIfMissing''
      | T_AdvSendAdvert \<Rightarrow> ''AdvSendAdvert''
      | T_MaxRtrAdvInterval \<Rightarrow> ''MaxRtrAdvInterval''
      | T_MinRtrAdvInterval \<Rightarrow> ''MinRtrAdvInterval''
      | T_AdvManagedFlag \<Rightarrow> ''AdvManagedFlag''
      | T_AdvOtherConfigFlag \<Rightarrow> ''AdvOtherConfigFlag''
      | T_AdvLinkMTU \<Rightarrow> ''AdvLinkMTU'' | T_AdvRAMTU \<Rightarrow> ''AdvRAMTU''
      | T_AdvReachableTime \<Rightarrow> ''AdvReachableTime''
      | T_AdvRetransTimer \<Rightarrow> ''AdvRetransTimer''
      | T_AdvCurHopLimit \<Rightarrow> ''AdvCurHopLimit''
      | T_AdvDefaultLifetime \<Rightarrow> ''AdvDefaultLifetime''
      | T_AdvDefaultPreference \<Rightarrow> ''AdvDefaultPreference''
      | T_AdvSourceLLAddress \<Rightarrow> ''AdvSourceLLAddress''
      | T_RemoveAdvOnExit \<Rightarrow> ''RemoveAdvOnExit'' | T_AdvOnLink \<Rightarrow> ''AdvOnLink''
      | T_AdvAutonomous \<Rightarrow> ''AdvAutonomous''
      | T_AdvDHCPv6PDPreferred \<Rightarrow> ''AdvDHCPv6PDPreferred''
      | T_AdvValidLifetime \<Rightarrow> ''AdvValidLifetime''
      | T_AdvPreferredLifetime \<Rightarrow> ''AdvPreferredLifetime''
      | T_DeprecatePrefix \<Rightarrow> ''DeprecatePrefix''
      | T_DecrementLifetimes \<Rightarrow> ''DecrementLifetimes''
      | T_AdvRouterAddr \<Rightarrow> ''AdvRouterAddr''
      | T_AdvHomeAgentFlag \<Rightarrow> ''AdvHomeAgentFlag''
      | T_AdvIntervalOpt \<Rightarrow> ''AdvIntervalOpt''
      | T_AdvHomeAgentInfo \<Rightarrow> ''AdvHomeAgentInfo''
      | T_UnicastOnly \<Rightarrow> ''UnicastOnly''
      | T_UnrestrictedUnicast \<Rightarrow> ''UnrestrictedUnicast''
      | T_AdvRASolicitedUnicast \<Rightarrow> ''AdvRASolicitedUnicast''
      | T_AdvCaptivePortalAPI \<Rightarrow> ''AdvCaptivePortalAPI''
      | T_AdvSNACRouterFlag \<Rightarrow> ''AdvSNACRouterFlag''
      | T_Base6Interface \<Rightarrow> ''Base6Interface''
      | T_Base6to4Interface \<Rightarrow> ''Base6to4Interface''
      | T_HomeAgentPreference \<Rightarrow> ''HomeAgentPreference''
      | T_HomeAgentLifetime \<Rightarrow> ''HomeAgentLifetime''
      | T_AdvRoutePreference \<Rightarrow> ''AdvRoutePreference''
      | T_AdvRouteLifetime \<Rightarrow> ''AdvRouteLifetime''
      | T_RemoveRoute \<Rightarrow> ''RemoveRoute''
      | T_AdvRDNSSPreference \<Rightarrow> ''AdvRDNSSPreference''
      | T_AdvRDNSSOpenFlag \<Rightarrow> ''AdvRDNSSOpen''
      | T_AdvRDNSSLifetime \<Rightarrow> ''AdvRDNSSLifetime''
      | T_FlushRDNSS \<Rightarrow> ''FlushRDNSS''
      | T_AdvDNSSLLifetime \<Rightarrow> ''AdvDNSSLLifetime''
      | T_FlushDNSSL \<Rightarrow> ''FlushDNSSL''
      | T_MinDelayBetweenRAs \<Rightarrow> ''MinDelayBetweenRAs''
      | T_AdvMobRtrSupportFlag \<Rightarrow> ''AdvMobRtrSupportFlag''
      | T_AdvContextLength \<Rightarrow> ''AdvContextLength''
      | T_AdvContextCompressionFlag \<Rightarrow> ''AdvContextCompressionFlag''
      | T_AdvContextID \<Rightarrow> ''AdvContextID'' | T_AdvLifeTime \<Rightarrow> ''AdvLifeTime''
      | T_AdvContextPrefix \<Rightarrow> ''AdvContextPrefix''
      | T_AdvVersionLow \<Rightarrow> ''AdvVersionLow''
      | T_AdvVersionHigh \<Rightarrow> ''AdvVersionHigh''
      | T_Adv6LBRaddress \<Rightarrow> ''Adv6LBRaddress'')"

lemma keyword_word_in_table: "(keyword_word k, k) \<in> set keyword_table"
  by (cases k) (simp_all add: keyword_word_def keyword_table_def)

lemma addr_has_colon: "v \<in> lang addr_re \<Longrightarrow> CHR '':'' \<in> set v"
proof -
  have l: "v \<in> lang (Lit '':'') \<longleftrightarrow> v = '':''" "v \<in> lang (Lit ''::'') \<longleftrightarrow> v = ''::''" for v
  proof -
    have "tolower c = tolower (CHR '':'') \<longleftrightarrow> c = CHR '':''" for c
      by (cases c) (auto simp: tolower_bits)
    then show "v \<in> lang (Lit '':'') \<longleftrightarrow> v = '':''" "v \<in> lang (Lit ''::'') \<longleftrightarrow> v = ''::''"
      by (auto simp: map_eq_Cons_conv)
  qed
  have c: "CHR '':'' \<in> set v" if "v \<in> lang (Cat r q)" "\<And>u. u \<in> lang r \<Longrightarrow> CHR '':'' \<in> set u" for v r q
    using that by auto
  have d: "CHR '':'' \<in> set v" if "v \<in> lang (Cat r q)" "\<And>u. u \<in> lang q \<Longrightarrow> CHR '':'' \<in> set u" for v r q
    using that by auto
  have "CHR '':'' \<in> set v" if "v \<in> lang (Lit '':'')" for v using that l by simp
  note e = c [OF _ this]
  have "CHR '':'' \<in> set v" if "v \<in> lang (Lit ''::'')" for v using that l by simp
  note f = this
  show "v \<in> lang addr_re \<Longrightarrow> ?thesis"
    unfolding addr_re_def lang.simps(5) addr1_re_def addr2_re_def addr3_re_def Let_def
    using c d e f l by (metis (no_types, lifting) UnE list.set_intros(1))
qed

lemma reads_number:
  assumes "n < 2 ^ 32"
  shows "reads_as (dec n) (NUMBER (of_nat n))"
proof -
  have d: "list_all isdigit (dec n)" "dec n \<noteq> []" by (simp_all add: dec_digits)
  then have a: "list_all alnum (dec n)" "isdigit (hd (dec n))"
    using isdigit_alnum by (auto simp: list_all_iff)
  note w = keyword_is_word [OF a(1) d(2)]
  have "word_rule (dec n) Do_number"
  proof (rule word_rule_position [OF w rules_split(2)])
    show "dec n \<in> lang number_re"
      using d by (simp add: number_re_def rep1_Cls)
    show "dec n \<notin> lang q"
      if "(q, b) \<in> set (leading_rules @ keyword_rules keyword_table @ [(addr_re, Do_addr), (naddr_re, Do_naddr)])" for q b
    proof -
      have "CHR '':'' \<notin> set (dec n)"
        using a(1) by (auto simp: list_all_iff)
      moreover from this have "dec n \<notin> lang naddr_re"
        using addr_has_colon unfolding naddr_re_def Cat_cases by auto
      ultimately show ?thesis
        using that not_leading [OF w] not_keyword a(2) d(2) addr_has_colon by auto
    qed
  qed
  moreover have "takeWhile isdigit (dec n) = dec n"
    using takeWhile_dec [of "[]" n] by simp
  then have "strtoul10 (dec n) = n"
    unfolding strtoul10_def using assms by (simp only: num_value_num_text) simp
  then have "perform Do_number (dec n) = (Some (NUMBER (of_nat n)), 0, length (dec n))"
    using assms by (simp add: perform_def number_token_def)
  ultimately show ?thesis
    by (auto simp: reads_as_def)
qed

lemma CatI: "u \<in> lang r \<Longrightarrow> v \<in> lang q \<Longrightarrow> u @ v \<in> lang (Cat r q)"
  by auto

lemma StarI: "(\<And>x. x \<in> set xs \<Longrightarrow> f x \<in> lang r) \<Longrightarrow> concat (map f xs) \<in> lang (Star r)"
  by (auto intro!: exI [of _ "map f xs"])

lemma hex_group: "n < 65536 \<Longrightarrow> hex n \<in> lang hex4_re"
proof -
  assume "n < 65536"
  then obtain ds where ds: "hex n = map digit ds" "ds \<noteq> []" "list_all (\<lambda>d. d < 16) ds" "length ds \<le> 4"
    using hex_digits [of n 4] by auto
  have p: "isxdigit (digit d)" if "d < 16" for d
    using that by (simp add: isxdigit_def)
  have "length ds = 1 \<or> length ds = 2 \<or> length ds = 3 \<or> length ds = 4"
    using ds(2,4) by (cases "length ds") auto
  then show ?thesis
    using ds(3) unfolding ds(1) hex4_re_def rep4_def
    by (elim disjE) (auto simp: Cat_cases p length_Suc_conv numeral_eq_Suc simp del: lang.simps(6))
qed

lemma glue_groups:
  "glue (x # xs) = hex x @ concat (map (\<lambda>y. '':'' @ hex y) xs)"
  "glue (x # xs) @ '':'' = concat (map (\<lambda>y. hex y @ '':'') (x # xs))"
proof -
  show "glue (x # xs) = hex x @ concat (map (\<lambda>y. '':'' @ hex y) xs)"
    by (induction xs arbitrary: x) simp_all
  show "glue (x # xs) @ '':'' = concat (map (\<lambda>y. hex y @ '':'') (x # xs))"
  proof (induction xs arbitrary: x)
    case (Cons y ys)
    from Cons [of y] show ?case by simp
  qed simp
qed

lemma group_lang:
  assumes "n < 65536"
  shows "'':'' @ hex n \<in> lang (Cat (Lit '':'') hex4_re)" "hex n @ '':'' \<in> lang (Cat hex4_re (Lit '':''))"
  using hex_group [OF assms] by (intro CatI; simp)+

text \<open>The three forms of the patterns for addresses.\<close>

lemma addr1_text:
  assumes "list_all (\<lambda>x. x < 65536) (x # xs)" and "list_all (\<lambda>x. x < 65536) (y # ys)"
  shows "glue (x # xs) @ '':'' @ '':'' @ glue (y # ys) \<in> lang addr1_re"
proof -
  have "concat (map (\<lambda>y. hex y @ '':'') xs) \<in> lang (Star (Cat hex4_re (Lit '':'')))"
    using assms(1) group_lang(2) by (intro StarI) (simp add: list_all_iff)
  moreover have "('':'' @ hex y) @ concat (map (\<lambda>y. '':'' @ hex y) ys) \<in> lang (rep1 (Cat (Lit '':'') hex4_re))"
    unfolding rep1_def using assms(2) hex_group by (intro CatI StarI) (simp_all add: list_all_iff)
  ultimately have "hex x @ '':'' @ concat (map (\<lambda>y. hex y @ '':'') xs) @
      (('':'' @ hex y) @ concat (map (\<lambda>y. '':'' @ hex y) ys)) \<in> lang addr1_re"
    unfolding addr1_re_def using assms(1) hex_group by (intro CatI) simp_all
  also have "hex x @ '':'' @ concat (map (\<lambda>y. hex y @ '':'') xs) @
      (('':'' @ hex y) @ concat (map (\<lambda>y. '':'' @ hex y) ys)) = (glue (x # xs) @ '':'') @ '':'' @ glue (y # ys)"
    unfolding glue_groups(2) by (simp add: glue_groups(1) [of y])
  finally show ?thesis by simp
qed

lemma addr2_text:
  assumes "list_all (\<lambda>x. x < 65536) (x # xs)"
  shows "glue (x # xs) @ '':'' @ '':'' \<in> lang addr2_re"
proof -
  have "hex x @ concat (map (\<lambda>y. '':'' @ hex y) xs) @ ''::'' \<in> lang addr2_re"
    unfolding addr2_re_def using assms hex_group group_lang(1) by (intro CatI StarI) (simp_all add: list_all_iff)
  then show ?thesis
    unfolding glue_groups by simp
qed

lemma addr3_text:
  assumes "list_all (\<lambda>x. x < 65536) xs" and "length xs = 8"
  shows "glue xs \<in> lang addr3_re"
proof -
  obtain a b c d e f g h where xs: "xs = [a, b, c, d, e, f, g, h]"
    using assms(2) by (auto simp: length_Suc_conv numeral_eq_Suc)
  have "(hex a @ '':'') @ (hex b @ '':'') @ (hex c @ '':'') @ (hex d @ '':'') @ (hex e @ '':'') @ (hex f @ '':'') @
      (hex g @ '':'') @ hex h \<in> lang addr3_re"
    unfolding addr3_re_def Let_def using assms(1) by (intro CatI group_lang hex_group) (simp_all add: xs)
  then show ?thesis by (simp add: xs)
qed

lemma glue_chars: "list_all (\<lambda>c. isxdigit c \<or> c = CHR '':'') (glue xs)"
proof -
  have "list_all isxdigit (hex n)" for n
  proof -
    obtain ds where "hex n = map digit ds" "list_all (\<lambda>d. d < 16) ds"
      using hex_digits [of n] by blast
    then show ?thesis by (auto simp: list_all_iff isxdigit_def)
  qed
  then show ?thesis
    by (induction xs rule: glue.induct) (auto simp: list_all_iff)
qed

text \<open>The addresses whose text the scanner takes for an address.\<close>

definition addr_shown :: "in6_addr \<Rightarrow> bool" where
  "addr_shown a \<longleftrightarrow> a = 0 \<or> hd (addr_words a) \<noteq> 0"

lemma inet_ntop_lang:
  assumes "addr_shown a"
  shows "inet_ntop a \<in> lang addr_re \<and> inet_pton (inet_ntop a) = Some a"
proof (cases "a = 0")
  case True
  then show ?thesis by (simp add: inet_ntop_0 addr_re_def)
next
  case False
  with assms have h: "hd (addr_words a) \<noteq> 0" by (simp add: addr_shown_def)
  define ws where "ws = map unat (addr_words a)"
  have ws: "length ws = 8" "list_all (\<lambda>x. x < 65536) ws"
    using unsigned_less [where 'a = nat and 'b = 16] by (auto simp: ws_def list_all_iff)
  have "inet_ntop a \<in> lang addr_re"
  proof (rule inet_ntop_forms [OF h])
    assume "inet_ntop a = glue (map unat (addr_words a))"
    with addr3_text [OF ws(2,1)] show ?thesis by (simp add: addr_re_def ws_def)
  next
    fix b l
    assume t: "inet_ntop a = colon_form (map unat (addr_words a)) b l" and bl: "0 < b" "2 \<le> l" "b + l \<le> 8"
    have u: "list_all (\<lambda>x. x < 65536) (take b ws)" "list_all (\<lambda>x. x < 65536) (drop (b + l) ws)"
      using ws by (auto simp: list_all_iff dest: in_set_takeD in_set_dropD)
    obtain x xs where x: "take b ws = x # xs"
      using bl ws(1) by (cases "take b ws") auto
    show ?thesis
    proof (cases "drop (b + l) ws")
      case Nil
      with addr2_text [OF u(1) [unfolded x]] show ?thesis
        by (simp add: t colon_form_def ws_def [symmetric] x addr_re_def)
    next
      case (Cons y ys)
      with addr1_text [OF u(1) [unfolded x] u(2) [unfolded Cons]] show ?thesis
        by (simp add: t colon_form_def ws_def [symmetric] x addr_re_def)
    qed
  qed
  with inet_pton_inet_ntop [OF h] show ?thesis by simp
qed

lemma reads_addr:
  assumes "addr_shown a"
  shows "reads_as (addrtostr a) (IPV6ADDR a)"
proof -
  note a = inet_ntop_lang [OF assms]
  have c: "CHR '':'' \<in> set (inet_ntop a)"
    using a addr_has_colon by blast
  have "list_all (\<lambda>c. isxdigit c \<or> c = CHR '':'') (inet_ntop a)"
    using chars_in_lang [OF addr_within] a by blast
  moreover have x: "\<not> isxdigit (CHR ''#'')" "string_char (CHR '':'')"
    by (simp_all add: isxdigit_bits string_char_def)
  ultimately have w: "is_word (inet_ntop a)"
    using c isxdigit_alnum alnum_string_char x by (cases "inet_ntop a") (auto simp: is_word_def list_all_iff)
  have "word_rule (inet_ntop a) Do_addr"
  proof (rule word_rule_position [OF w])
    show "rules = (leading_rules @ keyword_rules keyword_table) @ (addr_re, Do_addr) # drop 69 rules"
      using rules_split(1) by simp
    show "inet_ntop a \<notin> lang q" if "(q, b) \<in> set (leading_rules @ keyword_rules keyword_table)" for q b
    proof
      assume q: "inet_ntop a \<in> lang q"
      then have "list_all alnum (inet_ntop a)"
        using that not_leading [OF w] not_keyword c by fastforce
      with c show False by (auto simp: list_all_iff)
    qed
  qed (use a in simp)
  with a show ?thesis
    by (auto simp: reads_as_def perform_def addrtostr_def)
qed

text \<open>The other words of the configuration, and names that are no words of the language.\<close>

lemma reads_switch: "reads_as (if b then ''on'' else ''off'') (SWITCH b)"
  and reads_infinity: "reads_as ''infinity'' INFINITY"
  and reads_preference: "reads_as ''low'' (SIGNEDNUMBER (- 1))" "reads_as ''medium'' (SIGNEDNUMBER 0)"
    "reads_as ''high'' (SIGNEDNUMBER 1)"
proof -
  have r: "reads_as w t" if "best_rule rules w None = Some (length w, Do_return t)" "list_all alnum w" "w \<noteq> []" for w t
    using word_ruleI [OF keyword_is_word [OF that(2,3)] that(1)] by (auto simp: reads_as_def perform_def)
  have b: "best_rule rules ''on'' None = Some (length ''on'', Do_return (SWITCH True))"
    "best_rule rules ''off'' None = Some (length ''off'', Do_return (SWITCH False))"
    "best_rule rules ''infinity'' None = Some (length ''infinity'', Do_return INFINITY)"
    "best_rule rules ''low'' None = Some (length ''low'', Do_return (SIGNEDNUMBER (- 1)))"
    "best_rule rules ''medium'' None = Some (length ''medium'', Do_return (SIGNEDNUMBER 0))"
    "best_rule rules ''high'' None = Some (length ''high'', Do_return (SIGNEDNUMBER 1))"
    by code_simp+
  show "reads_as (if b then ''on'' else ''off'') (SWITCH b)"
    by (cases b) (simp_all only: if_True if_False, (rule r, rule b, simp_all)+)
  show "reads_as ''infinity'' INFINITY" by (rule r, rule b) simp_all
  show "reads_as ''low'' (SIGNEDNUMBER (- 1))" by (rule r, rule b) simp_all
  show "reads_as ''medium'' (SIGNEDNUMBER 0)" by (rule r, rule b) simp_all
  show "reads_as ''high'' (SIGNEDNUMBER 1)" by (rule r, rule b) simp_all
qed

definition plain_word :: "string \<Rightarrow> bool" where
  "plain_word w \<longleftrightarrow> is_word w \<and> length w \<le> 255 \<and> best_rule rules w None = Some (length w, Do_string)"

lemma reads_plain: "plain_word w \<Longrightarrow> reads_as w (STRING w)"
proof -
  assume w: "plain_word w"
  then have "CHR 0x00 \<notin> set w"
    by (auto simp: plain_word_def is_word_def list_all_iff string_char_def)
  then have "takeWhile (\<lambda>c. c \<noteq> CHR 0x00) w = w"
    by (auto simp: takeWhile_eq_all_conv)
  then have "string_token w = STRING w"
    using w unfolding string_token_def by (simp only: plain_word_def take_all)
  with w word_ruleI [of w Do_string] show ?thesis
    by (auto simp: plain_word_def reads_as_def perform_def)
qed

subsection \<open>Quoted text\<close>

definition quoted_body :: regex where
  "quoted_body = Alt (Cat (Lit [CHR 0x5C]) (Cls not_newline)) (Cls (\<lambda>c. c \<noteq> CHR 0x5C \<and> c \<noteq> CHR 0x22))"

lemma quoted_lang:
  "CHR 0x22 # v \<in> lang quoted_re \<longleftrightarrow> (\<exists>y. v = y @ [CHR 0x22] \<and> y \<in> lang (Star quoted_body))"
proof -
  have q: "quoted_re = Cat (Alt (Lit ''L'') Eps) (Cat (Lit [CHR 0x22]) (Cat (Star quoted_body) (Lit [CHR 0x22])))"
    by (simp add: quoted_re_def quoted_body_def)
  have t: "v \<in> lang (Cat q (Lit [CHR 0x22])) \<longleftrightarrow> (\<exists>y. v = y @ [CHR 0x22] \<and> y \<in> lang q)" for q v
    by (auto simp: map_eq_Cons_conv tolower_quote)
  have "tolower (CHR 0x22) \<noteq> tolower (CHR ''L'')" by (simp add: tolower_bits)
  then show ?thesis
    unfolding q Cat_option Cat_cases t tolower_quote by (simp del: lang.simps)
qed

lemma body_Cons:
  assumes "c \<noteq> CHR 0x5C"
  shows "c # y \<in> lang (Star quoted_body) \<longleftrightarrow> c \<noteq> CHR 0x22 \<and> y \<in> lang (Star quoted_body)"
proof -
  have "tolower c \<noteq> tolower (CHR 0x5C)"
    using assms by (cases c) (auto simp: tolower_bits)
  then have "c # u \<in> lang quoted_body \<longleftrightarrow> u = [] \<and> c \<noteq> CHR 0x22" for u
    using assms by (auto simp: quoted_body_def Cat_cases simp del: lang.simps(6))
  then show ?thesis
    by (simp add: lang_Star_Cons del: lang.simps)
qed

text \<open>Text without quotes and backslashes.\<close>

definition plain_text :: "string \<Rightarrow> bool" where
  "plain_text u \<longleftrightarrow> CHR 0x5C \<notin> set u \<and> CHR 0x22 \<notin> set u"

lemma body_plain: "plain_text u \<Longrightarrow> u @ y \<in> lang (Star quoted_body) \<longleftrightarrow> y \<in> lang (Star quoted_body)"
  by (induction u) (auto simp: plain_text_def body_Cons simp del: lang.simps)

definition word_rules :: "(regex \<times> action) list" where
  "word_rules =
     [(addr_re, Do_addr), (naddr_re, Do_naddr), (number_re, Do_number), (snum_re, Do_snum), (decimal_re, Do_decimal),
      (Lit ''infinity'', Do_return INFINITY), (Lit ''on'', Do_return (SWITCH True)),
      (Lit ''off'', Do_return (SWITCH False)), (Lit ''low'', Do_return (SIGNEDNUMBER (-1))),
      (Lit ''medium'', Do_return (SIGNEDNUMBER 0)), (Lit ''high'', Do_return (SIGNEDNUMBER 1))]"

lemma rules_before_string:
  "rules = (leading_rules @ keyword_rules keyword_table @ word_rules) @ (string_re, Do_string) # drop 80 rules"
proof -
  have "length keyword_table = 65" by (simp add: keyword_table_def)
  then show ?thesis
    by (simp add: rules_def leading_rules_def keyword_rules_def word_rules_def)
qed

lemma words_before_string: "(q, b) \<in> set (keyword_rules keyword_table @ word_rules) \<Longrightarrow> word_re q"
proof -
  assume q: "(q, b) \<in> set (keyword_rules keyword_table @ word_rules)"
  have "word_re (Lit w)" if "list_all alnum w" for w
    using that alnum_string_char by (intro word_res) (auto simp: list_all_iff)
  with q keyword_chars show ?thesis
    by (auto simp: keyword_rules_def word_rules_def list_all_iff word_res)
qed

lemma best_rule_quoted:
  assumes "plain_text u"
  shows "best_rule rules (CHR 0x22 # u @ CHR 0x22 # s) None = Some (length u + 2, Do_string)"
proof (rule best_rule_eqI, rule first_longestI)
  let ?t = "CHR 0x22 # u @ CHR 0x22 # s" and ?w = "CHR 0x22 # u @ [CHR 0x22]"
  note rules_before_string
  then show "rules = (leading_rules @ keyword_rules keyword_table @ word_rules) @ (string_re, Do_string) # drop 80 rules" .
  have nil: "[] \<in> lang (Star quoted_body)"
    by (auto intro: exI [of _ "[]"])
  have w: "take (length u + 2) ?t = ?w" by simp
  then show "take (length u + 2) ?t \<in> lang string_re"
    using quoted_lang [of "u @ [CHR 0x22]"] body_plain [OF assms, of "[]"] nil by (simp add: string_re_def del: lang.simps(6,7))
  show "take (length u + 2) ?t \<notin> lang q"
    if q: "(q, b) \<in> set (leading_rules @ keyword_rules keyword_table @ word_rules)" for q b
  proof -
    have "?w \<notin> lang q" if "word_re q"
      using chars_in_lang [of string_char q ?w] that by (auto simp: word_re_def)
    moreover have "?w \<notin> lang q" if "(q, b) \<in> set leading_rules"
      using that by (auto simp: leading_rules_def comment_match whitespace_match)
    ultimately show ?thesis
      using q words_before_string [of q b] w by (metis UnE set_append)
  qed
  show "m \<le> length u + 2" if q: "(q, b) \<in> set rules" "m \<le> length ?t" "take m ?t \<in> lang q" for q b m
  proof (rule ccontr)
    assume "\<not> m \<le> length u + 2"
    then obtain k where k: "m = length u + 2 + Suc k" by (metis less_iff_Suc_add not_le add_Suc_right)
    let ?v = "CHR 0x22 # u @ CHR 0x22 # take (Suc k) s"
    have v: "take m ?t = ?v" by (simp add: k)
    have s: "take (Suc k) s \<noteq> []" using q(2) by (auto simp: k)
    have "?v \<notin> lang quoted_re"
    proof
      assume "?v \<in> lang quoted_re"
      then obtain y where y: "u @ CHR 0x22 # take (Suc k) s = y @ [CHR 0x22]" "y \<in> lang (Star quoted_body)"
        unfolding quoted_lang by blast
      then have "y = u @ CHR 0x22 # butlast (take (Suc k) s)"
        using s by (metis butlast.simps(2) butlast_append butlast_snoc list.distinct(1))
      with y(2) body_plain [OF assms] body_Cons [of "CHR 0x22"] show False by (simp del: lang.simps)
    qed
    moreover have "\<not> list_all string_char ?v" "?v \<notin> lang whitespace_re" "?v \<notin> lang comment_re" "length ?v \<noteq> 1"
      by (simp_all add: whitespace_match comment_match)
    ultimately show False
      using rule_match [OF q(1), of ?v] q(3) unfolding v by blast
  qed
qed simp

lemma lexes_quoted:
  assumes "plain_text u"
  shows "lexes (CHR 0x22 # u @ [CHR 0x22]) [string_token (CHR 0x22 # u @ [CHR 0x22])]"
proof (rule lexesI, intro exI conjI)
  show "scan l ((CHR 0x22 # u @ [CHR 0x22]) @ rest) =
      [(string_token (CHR 0x22 # u @ [CHR 0x22]), l)] @ scan (l + int 0) rest" for l rest
    using scan_token [OF best_rule_quoted [OF assms, of rest], where l = l] by (simp add: perform_def)
qed simp

end
