(* ===== verification/Section_Text.thy ===== *)
theory Section_Text
  imports Dump_Text Config_Ok Scan_Words
begin

text \<open>
  Text that the grammar of the configuration file takes line by line and section by section. \<open>gets\<close> says
  what a parser makes of tokens, \<open>steps\<close> what a list of items makes of them, \<open>sets\<close> the same of text. The
  lemmas give the item that is read from a switch, a number, a lifetime or a preference, and from the
  sections that \<^verbatim>\<open>radvdump\<close> prints for a prefix, a NAT64 prefix, a route, a list of name servers and a
  search list. For every section the option that the item is sent as is the option that was printed.
\<close>

subsection \<open>Tokens that a parser takes\<close>

definition gets :: "(toks \<Rightarrow> ('a \<times> toks) option) \<Rightarrow> token list \<Rightarrow> 'a \<Rightarrow> bool" where
  "gets p ks x \<longleftrightarrow> (\<forall>ts rest. map fst ts = ks \<longrightarrow> p (ts @ rest) = Some (x, rest))"

text \<open>Items of a list that lead from one value to another.\<close>

definition steps :: "('a \<Rightarrow> toks \<Rightarrow> ('a \<times> toks) option) \<Rightarrow> 'a \<Rightarrow> token list \<Rightarrow> 'a \<Rightarrow> bool" where
  "steps item x ks y \<longleftrightarrow> (\<forall>ts rest. map fst ts = ks \<longrightarrow> plist item x (ts @ rest) = plist item y rest)"

lemma steps_Nil: "steps item x [] x"
  by (simp add: steps_def)

lemma steps_append: "steps item x ks y \<Longrightarrow> steps item y js z \<Longrightarrow> steps item x (ks @ js) z"
  unfolding steps_def by (auto simp: map_eq_append_conv)

lemma steps_item:
  assumes "gets (item x) (k # ks) y" and "k \<noteq> LITERAL CHR ''}''"
  shows "steps item x (k # ks) y"
  unfolding steps_def
proof (intro allI impI)
  fix ts rest :: toks
  assume t: "map fst ts = k # ks"
  then have "\<not> next_is CHR ''}'' (ts @ rest)" "item x (ts @ rest) = Some (y, rest)" "length rest < length (ts @ rest)"
    using assms by (auto simp: gets_def next_is_def map_eq_Cons_conv)
  then show "plist item x (ts @ rest) = plist item y rest"
    by (simp add: plist.simps [of item x])
qed

lemma gets_block:
  assumes "steps item x ks y"
  shows "gets (block item x) (LITERAL CHR ''{'' # ks @ [LITERAL CHR ''}'', LITERAL CHR '';'']) y"
    and "gets (optional_block item x) (LITERAL CHR ''{'' # ks @ [LITERAL CHR ''}'', LITERAL CHR '';'']) y"
proof -
  have p: "plist item x (ts @ (LITERAL CHR ''}'', l) # rest) = Some (y, rest)" if "map fst ts = ks" for ts l rest
    using assms that unfolding steps_def by (simp add: plist.simps [of item y] next_is_def)
  show "gets (block item x) (LITERAL CHR ''{'' # ks @ [LITERAL CHR ''}'', LITERAL CHR '';'']) y"
    "gets (optional_block item x) (LITERAL CHR ''{'' # ks @ [LITERAL CHR ''}'', LITERAL CHR '';'']) y"
    by (auto simp: gets_def block_def optional_block_def expect_def next_is_def map_eq_Cons_conv
        map_eq_append_conv p)
qed

lemmas value_defs = assign_def expect_def next_is_def

text \<open>Text whose tokens lead from one value to another.\<close>

definition sets :: "('a \<Rightarrow> toks \<Rightarrow> ('a \<times> toks) option) \<Rightarrow> 'a \<Rightarrow> string \<Rightarrow> 'a \<Rightarrow> bool" where
  "sets item x s y \<longleftrightarrow> (\<exists>ks. lexes s ks \<and> steps item x ks y)"

lemma sets_Nil: "sets item x [] x"
  unfolding sets_def by (intro exI [of _ "[]"] conjI lexes_Nil steps_Nil)

lemma sets_append: "sets item x s y \<Longrightarrow> sets item y t z \<Longrightarrow> sets item x (s @ t) z"
  using lexes_append steps_append by (fastforce simp: sets_def)

lemma sets_item: "lexes s (k # ks) \<Longrightarrow> gets (item x) (k # ks) y \<Longrightarrow> k \<noteq> LITERAL CHR ''}'' \<Longrightarrow> sets item x s y"
  unfolding sets_def using steps_item [of item x k ks y] by blast

lemma sets_skip: "lexes s [] \<Longrightarrow> sets item x s x"
  unfolding sets_def by (intro exI [of _ "[]"] conjI steps_Nil)

lemma sets_list:
  assumes "\<And>x a. x \<in> set xs \<Longrightarrow> sets item a (f x) (upd (\<lambda>l. l @ [r x]) a)"
    and "\<And>g h a. upd g (upd h a) = upd (g \<circ> h) a" and "\<And>a. upd (\<lambda>l. l) a = a"
  shows "sets item a (concat (map f xs)) (upd (\<lambda>l. l @ map r xs) a)"
  using assms(1)
proof (induction xs arbitrary: a)
  case Nil
  then show ?case by (simp add: sets_Nil assms(3))
next
  case (Cons x xs)
  have "sets item a (f x) (upd (\<lambda>l. l @ [r x]) a)" using Cons.prems by simp
  moreover have "sets item (upd (\<lambda>l. l @ [r x]) a) (concat (map f xs)) (upd (\<lambda>l. l @ map r xs) (upd (\<lambda>l. l @ [r x]) a))"
    using Cons by simp
  ultimately show ?case
    by (auto simp: assms(2) o_def dest: sets_append)
qed

subsection \<open>Lines\<close>

lemma lexes_blanks: "list_all blank s \<Longrightarrow> lexes s []"
proof (induction s)
  case (Cons c s)
  then show ?case
    using lexes_append [OF lexes_blank [of c] Cons.IH] by simp
qed (simp add: lexes_Nil)

lemma lexes_indent: "list_all blank s \<Longrightarrow> lexes t ks \<Longrightarrow> lexes (s @ t) ks"
  using lexes_append [OF lexes_blanks [of s], of t ks] by simp

lemma lexes_rules:
  "lexes t ks \<Longrightarrow> lexes (CHR 0x0A # t) ks"
  "lexes t ks \<Longrightarrow> lexes (CHR '' '' # t) ks"
  "lexes t ks \<Longrightarrow> lexes (CHR 0x09 # t) ks"
  "lexes t ks \<Longrightarrow> lexes (CHR '';'' # t) (LITERAL CHR '';'' # ks)"
  "lexes t ks \<Longrightarrow> lexes (CHR ''/'' # t) (LITERAL CHR ''/'' # ks)"
  "lexes t ks \<Longrightarrow> lexes (CHR ''{'' # t) (LITERAL CHR ''{'' # ks)"
  "lexes t ks \<Longrightarrow> lexes (CHR ''}'' # t) (LITERAL CHR ''}'' # ks)"
  "CHR 0x0A \<notin> set u \<Longrightarrow> lexes t ks \<Longrightarrow> lexes (CHR ''#'' # u @ CHR 0x0A # t) ks"
  using lexes_append [OF lexes_newline, of t ks] lexes_append [OF lexes_blank, of _ t ks]
    lexes_append [OF lexes_literal, of _ t ks] lexes_append [OF lexes_comment, of u t ks] by simp_all

text \<open>A keyword, a value and a semicolon on a line.\<close>

lemma lexes_line:
  assumes "list_all blank s" and "reads_as key k" and "reads_as val v"
  shows "lexes (s @ key @ '' '' @ val @ '';'' @ nl) [k, v, LITERAL CHR '';'']"
proof -
  have "lexes (key @ CHR '' '' # val @ CHR '';'' # nl) [k, v, LITERAL CHR '';'']"
    by (intro lexes_word assms lexes_rules lexes_newline delims)
  with lexes_indent [OF assms(1)] show ?thesis by simp
qed

lemma keyword_words:
  "reads_as ''interface'' (KEYWORD T_INTERFACE)" "reads_as ''prefix'' (KEYWORD T_PREFIX)"
  "reads_as ''route'' (KEYWORD T_ROUTE)" "reads_as ''RDNSS'' (KEYWORD T_RDNSS)" "reads_as ''DNSSL'' (KEYWORD T_DNSSL)"
  "reads_as ''nat64prefix'' (KEYWORD T_NAT64PREFIX)" "reads_as ''AdvSendAdvert'' (KEYWORD T_AdvSendAdvert)"
  "reads_as ''AdvManagedFlag'' (KEYWORD T_AdvManagedFlag)"
  "reads_as ''AdvOtherConfigFlag'' (KEYWORD T_AdvOtherConfigFlag)"
  "reads_as ''AdvReachableTime'' (KEYWORD T_AdvReachableTime)"
  "reads_as ''AdvRetransTimer'' (KEYWORD T_AdvRetransTimer)" "reads_as ''AdvCurHopLimit'' (KEYWORD T_AdvCurHopLimit)"
  "reads_as ''AdvDefaultLifetime'' (KEYWORD T_AdvDefaultLifetime)"
  "reads_as ''AdvHomeAgentFlag'' (KEYWORD T_AdvHomeAgentFlag)"
  "reads_as ''AdvSNACRouterFlag'' (KEYWORD T_AdvSNACRouterFlag)"
  "reads_as ''AdvDefaultPreference'' (KEYWORD T_AdvDefaultPreference)"
  "reads_as ''AdvLinkMTU'' (KEYWORD T_AdvLinkMTU)" "reads_as ''AdvSourceLLAddress'' (KEYWORD T_AdvSourceLLAddress)"
  "reads_as ''AdvIntervalOpt'' (KEYWORD T_AdvIntervalOpt)" "reads_as ''AdvHomeAgentInfo'' (KEYWORD T_AdvHomeAgentInfo)"
  "reads_as ''AdvMobRtrSupportFlag'' (KEYWORD T_AdvMobRtrSupportFlag)"
  "reads_as ''HomeAgentPreference'' (KEYWORD T_HomeAgentPreference)"
  "reads_as ''HomeAgentLifetime'' (KEYWORD T_HomeAgentLifetime)"
  "reads_as ''AdvCaptivePortalAPI'' (KEYWORD T_AdvCaptivePortalAPI)"
  "reads_as ''AdvValidLifetime'' (KEYWORD T_AdvValidLifetime)"
  "reads_as ''AdvPreferredLifetime'' (KEYWORD T_AdvPreferredLifetime)"
  "reads_as ''AdvOnLink'' (KEYWORD T_AdvOnLink)" "reads_as ''AdvAutonomous'' (KEYWORD T_AdvAutonomous)"
  "reads_as ''AdvRouterAddr'' (KEYWORD T_AdvRouterAddr)"
  "reads_as ''AdvDHCPv6PDPreferred'' (KEYWORD T_AdvDHCPv6PDPreferred)"
  "reads_as ''AdvRoutePreference'' (KEYWORD T_AdvRoutePreference)"
  "reads_as ''AdvRouteLifetime'' (KEYWORD T_AdvRouteLifetime)"
  "reads_as ''AdvRDNSSLifetime'' (KEYWORD T_AdvRDNSSLifetime)"
  "reads_as ''AdvDNSSLLifetime'' (KEYWORD T_AdvDNSSLLifetime)"
  by (rule reads_keyword, simp add: keyword_table_def)+

lemma sets_switch:
  assumes "reads_as key (KEYWORD k)" and "list_all blank s"
    and "gets (item x) [KEYWORD k, SWITCH v, LITERAL CHR '';''] y"
  shows "sets item x (flag_line False d (s @ key) v) y"
proof -
  have "lexes (flag_line False d (s @ key) v) [KEYWORD k, SWITCH v, LITERAL CHR '';'']"
    using lexes_line [OF assms(2,1) reads_switch] by (simp add: flag_line_def on_off_def)
  then show ?thesis by (rule sets_item) (use assms(3) in simp_all)
qed

lemma sets_number:
  assumes "reads_as key (KEYWORD k)" and "list_all blank s" and "n < 2 ^ 32"
    and "gets (item x) [KEYWORD k, NUMBER (of_nat n), LITERAL CHR '';''] y"
  shows "sets item x (num_line False d (s @ key) n) y"
proof -
  have "lexes (num_line False d (s @ key) n) [KEYWORD k, NUMBER (of_nat n), LITERAL CHR '';'']"
    using lexes_line [OF assms(2,1) reads_number [OF assms(3)]] by (simp add: num_line_def)
  then show ?thesis by (rule sets_item) (use assms(4) in simp_all)
qed

lemma sets_lifetime:
  assumes "reads_as key (KEYWORD k)" and "list_all blank s"
    and "gets (item x) [KEYWORD k, NUMBER v, LITERAL CHR '';''] y"
    and "v = - 1 \<Longrightarrow> gets (item x) [KEYWORD k, INFINITY, LITERAL CHR '';''] y"
  shows "sets item x (lifetime_line (s @ key) v) y"
proof (cases "v = 0xffffffff")
  case True
  have "lexes (key @ CHR '' '' # ''infinity'' @ CHR '';'' # CHR '' '' # CHR ''#'' # '' (0xffffffff)'' @ nl)
      [KEYWORD k, INFINITY, LITERAL CHR '';'']"
    by (intro lexes_word assms(1) reads_infinity lexes_rules lexes_Nil delims) simp
  with lexes_indent [OF assms(2)] have "lexes (lifetime_line (s @ key) v) [KEYWORD k, INFINITY, LITERAL CHR '';'']"
    using True by (simp add: lifetime_line_def)
  then show ?thesis by (rule sets_item) (use True assms(4) in simp_all)
next
  case False
  have "unat v < 2 ^ 32" using unsigned_less [of v, where 'a = nat] by simp
  then have "lexes (s @ key @ '' '' @ dec (unat v) @ '';'' @ nl) [KEYWORD k, NUMBER (of_nat (unat v)), LITERAL CHR '';'']"
    by (intro lexes_line assms reads_number)
  then have "lexes (lifetime_line (s @ key) v) [KEYWORD k, NUMBER v, LITERAL CHR '';'']"
    using False by (simp add: lifetime_line_def)
  then show ?thesis by (rule sets_item) (use assms(3) in simp_all)
qed

lemma sets_preference:
  assumes "reads_as key (KEYWORD k)" and "list_all blank s" and "preference_ok p"
    and "gets (item x) [KEYWORD k, SIGNEDNUMBER p, LITERAL CHR '';''] y"
  shows "sets item x (s @ key @ '' '' @ preference_text p @ '';'' @ nl) y"
proof -
  have "reads_as (preference_text p) (SIGNEDNUMBER p)"
    using assms(3) reads_preference by (auto simp: preference_ok_def preference_text_def)
  from lexes_line [OF assms(2,1) this] show ?thesis
    by (rule sets_item) (use assms(4) in simp_all)
qed

subsection \<open>The section of a prefix\<close>

text \<open>What is read back of a prefix.\<close>

definition read_prefix :: "AdvPrefix \<Rightarrow> AdvPrefix" where
  "read_prefix p = prefix_init_defaults\<lparr>Prefix := Prefix p, PrefixLen := PrefixLen p,
     AdvValidLifetime := curr_validlft p, curr_validlft := curr_validlft p,
     AdvPreferredLifetime := curr_preferredlft p, curr_preferredlft := curr_preferredlft p,
     AdvOnLinkFlag := AdvOnLinkFlag p, AdvAutonomousFlag := AdvAutonomousFlag p,
     AdvRouterAddr := AdvRouterAddr p, AdvDHCPv6PDPreferredFlag := AdvDHCPv6PDPreferredFlag p\<rparr>"

lemma read_prefix_image: "prefix_option_image (read_prefix p) False = prefix_option_image p False"
  by (simp add: read_prefix_def prefix_option_image_def)

lemmas gets_defs = gets_def map_eq_Cons_conv value_defs

lemma gets_prefixparms:
  "gets (prefixparms p) [KEYWORD T_AdvOnLink, SWITCH b, LITERAL CHR '';''] (p\<lparr>AdvOnLinkFlag := b\<rparr>)"
  "gets (prefixparms p) [KEYWORD T_AdvAutonomous, SWITCH b, LITERAL CHR '';''] (p\<lparr>AdvAutonomousFlag := b\<rparr>)"
  "gets (prefixparms p) [KEYWORD T_AdvRouterAddr, SWITCH b, LITERAL CHR '';''] (p\<lparr>AdvRouterAddr := b\<rparr>)"
  "gets (prefixparms p) [KEYWORD T_AdvDHCPv6PDPreferred, SWITCH b, LITERAL CHR '';''] (p\<lparr>AdvDHCPv6PDPreferredFlag := b\<rparr>)"
  "gets (prefixparms p) [KEYWORD T_AdvValidLifetime, NUMBER v, LITERAL CHR '';''] (p\<lparr>AdvValidLifetime := v, curr_validlft := v\<rparr>)"
  "v = - 1 \<Longrightarrow> gets (prefixparms p) [KEYWORD T_AdvValidLifetime, INFINITY, LITERAL CHR '';''] (p\<lparr>AdvValidLifetime := v, curr_validlft := v\<rparr>)"
  "gets (prefixparms p) [KEYWORD T_AdvPreferredLifetime, NUMBER v, LITERAL CHR '';''] (p\<lparr>AdvPreferredLifetime := v, curr_preferredlft := v\<rparr>)"
  "v = - 1 \<Longrightarrow> gets (prefixparms p) [KEYWORD T_AdvPreferredLifetime, INFINITY, LITERAL CHR '';''] (p\<lparr>AdvPreferredLifetime := v, curr_preferredlft := v\<rparr>)"
  by (auto simp: gets_defs prefixparms_def)

text \<open>A section: its head, its parameters in braces, and the comment behind it.\<close>

lemma lexes_section:
  assumes "lexes head hks" and "lexes body ks" and "CHR 0x0A \<notin> set u"
  shows "lexes (head @ tab @ ''{'' @ nl @ body @ tab @ ''}; #'' @ u @ nl @ nl)
    (hks @ LITERAL CHR ''{'' # ks @ [LITERAL CHR ''}'', LITERAL CHR '';''])"
proof -
  have "lexes (CHR 0x09 # CHR ''{'' # nl) [LITERAL CHR ''{'']"
    by (intro lexes_rules lexes_newline)
  moreover have "lexes (CHR 0x09 # CHR ''}'' # CHR '';'' # CHR '' '' # CHR ''#'' # u @ CHR 0x0A # nl)
      [LITERAL CHR ''}'', LITERAL CHR '';'']"
    by (intro lexes_rules lexes_newline assms(3))
  ultimately have "lexes (head @ (CHR 0x09 # CHR ''{'' # nl) @ body @
      (CHR 0x09 # CHR ''}'' # CHR '';'' # CHR '' '' # CHR ''#'' # u @ CHR 0x0A # nl))
      (hks @ [LITERAL CHR ''{''] @ ks @ [LITERAL CHR ''}'', LITERAL CHR '';''])"
    by (intro lexes_append assms(1,2))
  then show ?thesis by simp
qed

lemma lexes_addr_len:
  assumes "reads_as key (KEYWORD k)" and "reads_as addr (IPV6ADDR a)" and "n < 2 ^ 32"
  shows "lexes (nl @ tab @ key @ '' '' @ addr @ ''/'' @ dec n @ nl)
    [KEYWORD k, IPV6ADDR a, LITERAL CHR ''/'', NUMBER (of_nat n)]"
proof -
  have "lexes (CHR 0x0A # CHR 0x09 # key @ CHR '' '' # addr @ CHR ''/'' # dec n @ CHR 0x0A # [])
      [KEYWORD k, IPV6ADDR a, LITERAL CHR ''/'', NUMBER (of_nat n)]"
    by (intro lexes_word lexes_rules assms reads_number lexes_newline delims lexes_Nil)
  then show ?thesis by simp
qed

text \<open>Parsers in sequence.\<close>

lemma gets_append:
  assumes "gets p ks x" and "gets (q x) js y" and "\<And>ts. r ts = p ts \<bind> (\<lambda>(x, ts). q x ts)"
  shows "gets r (ks @ js) y"
  unfolding gets_def
proof (intro allI impI)
  fix ts rest :: toks
  assume "map fst ts = ks @ js"
  then obtain us vs where "ts = us @ vs" "map fst us = ks" "map fst vs = js"
    by (auto simp: map_eq_append_conv)
  then show "r (ts @ rest) = Some (y, rest)"
    using assms by (simp add: gets_def)
qed

lemma gets_map:
  assumes "gets p ks x" and "\<And>rest. f (x, rest) = Some (y, rest)"
    and "\<And>ts. r ts = p ts \<bind> f"
  shows "gets r ks y"
  using assms by (auto simp: gets_def)

lemma gets_add_one: "gets p ks x \<Longrightarrow> gets (add_one p f) ks (f [x])"
  by (auto simp: gets_def add_one_def)

text \<open>A section of an interface by its keyword.\<close>

lemma sets_section:
  assumes "lexes s (KEYWORD k # ks)" and "gets p ks x" and "\<And>ts l. item i ((KEYWORD k, l) # ts) = add_one p f ts"
    and "f [x] = y"
  shows "sets item i s y"
proof (rule sets_item [OF assms(1)])
  show "gets (item i) (KEYWORD k # ks) y"
    using gets_add_one [OF assms(2), of f] assms(3,4) by (auto simp: gets_def map_eq_Cons_conv)
qed simp

lemma gets_addr_len: "gets addr_len [IPV6ADDR a, LITERAL CHR ''/'', NUMBER n] (a, n)"
  by (auto simp: gets_defs addr_len_def)

definition prefix_shown :: "AdvPrefix \<Rightarrow> bool" where
  "prefix_shown p \<longleftrightarrow> addr_shown (Prefix p) \<and> Prefix p \<noteq> 0 \<and> PrefixLen p \<le> 128 \<and> curr_preferredlft p \<le> curr_validlft p"

lemma sets_prefixparms:
  "sets prefixparms (prefix_init_defaults\<lparr>PrefixLen := PrefixLen p, Prefix := Prefix p\<rparr>)
    (lifetime_line (tab @ tab @ ''AdvValidLifetime'') (curr_validlft p) @
     lifetime_line (tab @ tab @ ''AdvPreferredLifetime'') (curr_preferredlft p) @
     flag_line False True (tab @ tab @ ''AdvOnLink'') (AdvOnLinkFlag p) @
     flag_line False True (tab @ tab @ ''AdvAutonomous'') (AdvAutonomousFlag p) @
     flag_line False False (tab @ tab @ ''AdvRouterAddr'') (AdvRouterAddr p) @
     flag_line False False (tab @ tab @ ''AdvDHCPv6PDPreferred'') (AdvDHCPv6PDPreferredFlag p)) (read_prefix p)"
proof -
  have t: "list_all blank (tab @ tab)" by simp
  note l = sets_lifetime [OF _ t, simplified append_assoc] and s = sets_switch [OF _ t, simplified append_assoc]
  have "read_prefix p = prefix_init_defaults\<lparr>PrefixLen := PrefixLen p, Prefix := Prefix p,
      AdvValidLifetime := curr_validlft p, curr_validlft := curr_validlft p,
      AdvPreferredLifetime := curr_preferredlft p, curr_preferredlft := curr_preferredlft p,
      AdvOnLinkFlag := AdvOnLinkFlag p, AdvAutonomousFlag := AdvAutonomousFlag p,
      AdvRouterAddr := AdvRouterAddr p, AdvDHCPv6PDPreferredFlag := AdvDHCPv6PDPreferredFlag p\<rparr>"
    by (simp add: read_prefix_def)
  then show ?thesis
    by (simp only:) (intro sets_append; (rule l s; (rule keyword_words gets_prefixparms; assumption?)))
qed

lemma number_len: "unat (n :: byte) < 2 ^ 32" "(of_nat (unat n) :: u32) = ucast n"
  using unsigned_less [of n, where 'a = nat] by simp_all

lemma ucast_len: "(ucast (ucast n :: u32) :: byte) = n" "(ucast n :: u32) \<le> 128 \<longleftrightarrow> (n :: byte) \<le> 128"
proof -
  have "unat n < 2 ^ LENGTH(32)" using number_len(1) [of n] by simp
  then have "unat (ucast n :: u32) = unat n"
    by (simp only: unsigned_ucast_eq take_bit_nat_eq_self)
  then show "(ucast n :: u32) \<le> 128 \<longleftrightarrow> n \<le> 128"
    by (simp add: word_le_nat_alt)
  show "(ucast (ucast n :: u32) :: byte) = n"
    by (rule bit_word_eqI) (simp add: bit_simps)
qed

lemma sets_prefix:
  assumes "prefix_shown p"
  shows "sets ifaceparam i (prefix_text False p) (AdvPrefixList_update (\<lambda>l. l @ [read_prefix p]) i)"
proof -
  let ?h = "[IPV6ADDR (Prefix p), LITERAL CHR ''/'', NUMBER (ucast (PrefixLen p))]"
  let ?p = "prefix_init_defaults\<lparr>PrefixLen := PrefixLen p, Prefix := Prefix p\<rparr>"
  obtain ks where ks: "lexes (lifetime_line (tab @ tab @ ''AdvValidLifetime'') (curr_validlft p) @
       lifetime_line (tab @ tab @ ''AdvPreferredLifetime'') (curr_preferredlft p) @
       flag_line False True (tab @ tab @ ''AdvOnLink'') (AdvOnLinkFlag p) @
       flag_line False True (tab @ tab @ ''AdvAutonomous'') (AdvAutonomousFlag p) @
       flag_line False False (tab @ tab @ ''AdvRouterAddr'') (AdvRouterAddr p) @
       flag_line False False (tab @ tab @ ''AdvDHCPv6PDPreferred'') (AdvDHCPv6PDPreferredFlag p)) ks"
    and st: "steps prefixparms ?p ks (read_prefix p)"
    using sets_prefixparms [of p] unfolding sets_def by blast
  let ?b = "LITERAL CHR ''{'' # ks @ [LITERAL CHR ''}'', LITERAL CHR '';'']"
  have "lexes (nl @ tab @ ''prefix'' @ '' '' @ addrtostr (Prefix p) @ ''/'' @ dec (unat (PrefixLen p)) @ nl)
      (KEYWORD T_PREFIX # ?h)"
    using lexes_addr_len [OF keyword_words(2) reads_addr number_len(1)] assms
    by (simp add: number_len prefix_shown_def)
  from lexes_section [OF this ks, of "'' End of prefix definition''"]
  have "lexes (prefix_text False p) (KEYWORD T_PREFIX # ?h @ ?b)"
    by (simp add: prefix_text_def)
  moreover have "gets prefixhead ?h ?p"
    using gets_addr_len by (rule gets_map)
      (use assms in \<open>auto simp: prefixhead_def prefix_shown_def ucast_len not_less case_prod_beta\<close>)
  then have "gets prefixdef (?h @ ?b) (read_prefix p)"
  proof (rule gets_append)
    show "gets (\<lambda>ts. optional_block prefixparms ?p ts \<bind> (\<lambda>(p, ts).
        if AdvPreferredLifetime p > AdvValidLifetime p then None
        else if if6 p \<noteq> [] \<and> PrefixLen p \<noteq> 64 then None else Some (p, ts))) ?b (read_prefix p)"
      using gets_block(2) [OF st] by (rule gets_map)
        (use assms in \<open>auto simp: prefix_shown_def read_prefix_def prefix_init_defaults_def\<close>)
  qed (simp add: prefixdef_def)
  ultimately show ?thesis
    by (rule sets_section [where f = "\<lambda>xs. i\<lparr>AdvPrefixList := AdvPrefixList i @ xs\<rparr>"])
      (simp_all add: ifaceparam_def)
qed

subsection \<open>The section of a NAT64 prefix\<close>

abbreviation leading_bits :: "nat \<Rightarrow> in6_addr \<Rightarrow> in6_addr" where
  "leading_bits n a \<equiv> push_bit (128 - n) (drop_bit (128 - n) a)"

definition rounded_lifetime :: "u32 \<Rightarrow> u32" where
  "rounded_lifetime v = of_nat ((unat v + 7) div 8 * 8)"

definition read_nat64 :: "NAT64Prefix \<Rightarrow> NAT64Prefix" where
  "read_nat64 p = \<lparr>NAT64_Prefix = leading_bits 96 (NAT64_Prefix p), NAT64_PrefixLen = NAT64_PrefixLen p,
     NAT64_AdvValidLifetime = rounded_lifetime (NAT64_curr_validlft p),
     NAT64_curr_validlft = rounded_lifetime (NAT64_curr_validlft p)\<rparr>"

definition nat64_shown :: "NAT64Prefix \<Rightarrow> bool" where
  "nat64_shown p \<longleftrightarrow> nat64_ok p \<and> addr_shown (leading_bits 96 (NAT64_Prefix p)) \<and>
     leading_bits 96 (NAT64_Prefix p) \<noteq> 0"

lemma rounded_lifetime:
  assumes "unat v \<le> 65528"
  shows "unat (rounded_lifetime v) = (unat v + 7) div 8 * 8" "unat (rounded_lifetime v) \<le> 65528"
proof -
  have "(unat v + 7) div 8 * 8 \<le> 65528"
    using assms by presburger
  then show "unat (rounded_lifetime v) = (unat v + 7) div 8 * 8"
    unfolding rounded_lifetime_def by (simp only: unat_of_nat) (simp add: take_bit_nat_eq_self)
  with \<open>(unat v + 7) div 8 * 8 \<le> 65528\<close> show "unat (rounded_lifetime v) \<le> 65528" by simp
qed

text \<open>The bytes of an address of which the leading ones are kept.\<close>

lemma take_leading_bits:
  assumes "j \<le> 16"
  shows "take j (s6_addr (leading_bits (8 * j) a)) = take j (s6_addr a)"
proof -
  let ?bs = "take j (s6_addr a) @ replicate (16 - j) 0"
  have "be 16 (from_be ?bs :: in6_addr) = ?bs"
    by (rule be_from_be) (use assms in simp_all)
  then have "s6_addr (leading_bits (8 * j) a) = ?bs"
    using from_be_truncated [OF assms, of a] by simp
  then show ?thesis using assms by simp
qed

lemma read_nat64_image:
  assumes "nat64_ok p"
  shows "nat64prefix_option_image (read_nat64 p) = nat64prefix_option_image p"
proof -
  let ?v = "NAT64_curr_validlft p" and ?c = "prefix_length_code (NAT64_PrefixLen p)"
  have c: "?c \<le> 5" and v: "unat ?v \<le> 65528"
    using assms prefix_length_code_cases(1) by (auto simp: nat64_ok_def)
  define w where "w v = (ucast (((v + 7) AND 0xFFF8) OR (ucast ?c AND 0x7)) :: u16)" for v :: u32
  have "w (rounded_lifetime ?v) AND 7 = w ?v AND 7" "w (rounded_lifetime ?v) AND 0xFFF8 = w ?v AND 0xFFF8"
    using nat64_word [OF v c] nat64_word [OF rounded_lifetime(2) [OF v] c] rounded_lifetime(1) [OF v]
    by (simp_all only: w_def word_unat_eq_iff, simp)
  moreover have "x = (x AND 0xFFF8) OR (x AND 7)" for x :: u16
  proof -
    have "(0xFFF8 OR 7 :: u16) = - 1" by simp
    then show ?thesis by (metis bit.conj_disj_distrib word_bw_comms(1) word_log_esimps(1) and.right_neutral)
  qed
  ultimately have "w (rounded_lifetime ?v) = w ?v" by metis
  then show ?thesis
    using take_leading_bits [of 12 "NAT64_Prefix p"]
    by (simp add: nat64prefix_option_image_def read_nat64_def w_def)
qed

lemma sets_nat64:
  assumes "nat64_shown p"
  shows "sets ifaceparam i (nat64_text p) (NAT64PrefixList_update (\<lambda>l. l @ [read_nat64 p]) i)"
proof -
  let ?a = "leading_bits 96 (NAT64_Prefix p)" and ?v = "rounded_lifetime (NAT64_curr_validlft p)"
  let ?h = "[IPV6ADDR ?a, LITERAL CHR ''/'', NUMBER (ucast (NAT64_PrefixLen p))]"
  let ?p = "(nat64prefix_init_defaults i)\<lparr>NAT64_PrefixLen := NAT64_PrefixLen p, NAT64_Prefix := ?a\<rparr>"
  let ?ks = "[KEYWORD T_AdvValidLifetime, NUMBER ?v, LITERAL CHR '';'']"
  let ?b = "LITERAL CHR ''{'' # ?ks @ [LITERAL CHR ''}'', LITERAL CHR '';'']"
  have ok: "addr_shown ?a" "?a \<noteq> 0" "NAT64_PrefixLen p \<in> {32, 40, 48, 56, 64, 96}" "unat (NAT64_curr_validlft p) \<le> 65528"
    using assms by (auto simp: nat64_shown_def nat64_ok_def)
  note r = rounded_lifetime [OF ok(4)]
  have u: "uint ?v \<le> DFLT_NAT64MaxValidLifetime"
  proof -
    have "uint ?v = int (unat ?v)" by simp
    with r(2) show ?thesis unfolding DFLT_NAT64MaxValidLifetime_def by linarith
  qed
  have "unat ?v < 2 ^ 32" using r(2) by simp
  then have body: "lexes ((tab @ tab) @ ''AdvValidLifetime'' @ '' '' @ dec (unat ?v) @ '';'' @ nl) ?ks"
    using lexes_line [OF _ keyword_words(25) reads_number, of "tab @ tab" "unat ?v"] by simp
  have head: "lexes (nl @ tab @ ''nat64prefix'' @ '' '' @ addrtostr ?a @ ''/'' @ dec (unat (NAT64_PrefixLen p)) @ nl)
      (KEYWORD T_NAT64PREFIX # ?h)"
    using lexes_addr_len [OF keyword_words(6) reads_addr [OF ok(1)] number_len(1)] by (simp add: number_len)
  have "lexes (nat64_text p) (KEYWORD T_NAT64PREFIX # ?h @ ?b)"
    using lexes_section [OF head body, of "'' End of nat64prefix definition''"] by (simp add: nat64_text_def r(1))
  moreover have "gets (nat64prefixhead i) ?h ?p"
    using gets_addr_len by (rule gets_map)
      (use ok in \<open>auto simp: nat64prefixhead_def case_prod_beta\<close>)
  then have "gets (nat64prefixdef i) (?h @ ?b) (read_nat64 p)"
  proof (rule gets_append)
    have "gets (nat64prefixparms ?p) ?ks (?p\<lparr>NAT64_AdvValidLifetime := ?v\<rparr>)"
      using u by (auto simp: gets_defs nat64prefixparms_def)
    then have "steps nat64prefixparms ?p ?ks (?p\<lparr>NAT64_AdvValidLifetime := ?v\<rparr>)"
      by (rule steps_item) simp
    then show "gets (\<lambda>ts. optional_block nat64prefixparms ?p ts \<bind> (\<lambda>(p, ts).
        if uint (NAT64_AdvValidLifetime p) > DFLT_NAT64MaxValidLifetime then None
        else Some (p\<lparr>NAT64_curr_validlft := NAT64_AdvValidLifetime p\<rparr>, ts))) ?b (read_nat64 p)"
      by (rule gets_map [OF gets_block(2)])
        (use u in \<open>auto simp: read_nat64_def nat64prefix_init_defaults_def Let_def\<close>)
  qed (simp add: nat64prefixdef_def)
  ultimately show ?thesis
    by (rule sets_section [where f = "\<lambda>xs. i\<lparr>NAT64PrefixList := NAT64PrefixList i @ xs\<rparr>"])
      (simp_all add: ifaceparam_def)
qed

subsection \<open>The section of a route\<close>

definition route_prefix :: "AdvRoute \<Rightarrow> in6_addr" where
  "route_prefix r = (if Route_PrefixLen r = 0 then 0
     else if Route_PrefixLen r \<le> 64 then leading_bits 64 (Route_Prefix r) else Route_Prefix r)"

definition read_route :: "AdvRoute \<Rightarrow> AdvRoute" where
  "read_route r = \<lparr>Route_Prefix = route_prefix r, Route_PrefixLen = Route_PrefixLen r,
     AdvRoutePreference = AdvRoutePreference r, AdvRouteLifetime = AdvRouteLifetime r, RemoveRouteFlag = True\<rparr>"

definition route_shown :: "AdvRoute \<Rightarrow> bool" where
  "route_shown r \<longleftrightarrow> addr_shown (route_prefix r) \<and> Route_PrefixLen r \<le> 128 \<and> preference_ok (AdvRoutePreference r)"

lemma read_route_image:
  assumes "Route_PrefixLen r \<le> 128"
  shows "route_option_image (read_route r) False = route_option_image r False"
  by (rule route_len_cases [OF assms])
     (use take_leading_bits [of 8 "Route_Prefix r"] in
       \<open>simp_all add: route_info_image_def read_route_def route_prefix_def\<close>)

lemma gets_routeparms:
  "gets (routeparms r) [KEYWORD T_AdvRoutePreference, SIGNEDNUMBER p, LITERAL CHR '';''] (r\<lparr>AdvRoutePreference := p\<rparr>)"
  "gets (routeparms r) [KEYWORD T_AdvRouteLifetime, NUMBER v, LITERAL CHR '';''] (r\<lparr>AdvRouteLifetime := v\<rparr>)"
  "v = - 1 \<Longrightarrow> gets (routeparms r) [KEYWORD T_AdvRouteLifetime, INFINITY, LITERAL CHR '';''] (r\<lparr>AdvRouteLifetime := v\<rparr>)"
  by (auto simp: gets_defs routeparms_def)

lemma sets_route:
  assumes "route_shown r"
  shows "sets ifaceparam i (route_text False q r) (AdvRouteList_update (\<lambda>l. l @ [read_route r]) i)"
proof -
  let ?a = "route_prefix r"
  let ?h = "[IPV6ADDR ?a, LITERAL CHR ''/'', NUMBER (ucast (Route_PrefixLen r))]"
  let ?r = "(route_init_defaults i)\<lparr>Route_PrefixLen := Route_PrefixLen r, Route_Prefix := ?a\<rparr>"
  let ?body = "((tab @ tab) @ ''AdvRoutePreference'' @ '' '' @ preference_text (AdvRoutePreference r) @ '';'' @ nl) @
       lifetime_line ((tab @ tab) @ ''AdvRouteLifetime'') (AdvRouteLifetime r)"
  have ok: "addr_shown ?a" "Route_PrefixLen r \<le> 128" "preference_ok (AdvRoutePreference r)"
    using assms by (simp_all add: route_shown_def)
  have "sets routeparms ?r ?body (?r\<lparr>AdvRoutePreference := AdvRoutePreference r, AdvRouteLifetime := AdvRouteLifetime r\<rparr>)"
    by (rule sets_append, rule sets_preference [OF keyword_words(31) _ ok(3) gets_routeparms(1)], simp,
        rule sets_lifetime [OF keyword_words(32) _ gets_routeparms(2,3)]) simp_all
  then obtain ks where ks: "lexes ?body ks" and
    st: "steps routeparms ?r ks (?r\<lparr>AdvRoutePreference := AdvRoutePreference r, AdvRouteLifetime := AdvRouteLifetime r\<rparr>)"
    unfolding sets_def by blast
  let ?b = "LITERAL CHR ''{'' # ks @ [LITERAL CHR ''}'', LITERAL CHR '';'']"
  have head: "lexes (nl @ tab @ ''route'' @ '' '' @ addrtostr ?a @ ''/'' @ dec (unat (Route_PrefixLen r)) @ nl) (KEYWORD T_ROUTE # ?h)"
    using lexes_addr_len [OF keyword_words(3) reads_addr [OF ok(1)] number_len(1)] by (simp add: number_len)
  have "addrtostr 0 = ''::''" "dec 0 = ''0''"
    by (simp_all add: addrtostr_def inet_ntop_0 num_text.simps digit_def)
  then have "route_text False q r = (nl @ tab @ ''route'' @ '' '' @ addrtostr ?a @ ''/'' @ dec (unat (Route_PrefixLen r)) @ nl) @
      tab @ ''{'' @ nl @ ?body @ tab @ ''}; #'' @ '' End of route definition'' @ nl @ nl"
    by (simp add: route_text_def route_prefix_def)
  then have "lexes (route_text False q r) (KEYWORD T_ROUTE # ?h @ ?b)"
    using lexes_section [OF head ks, of "'' End of route definition''"] by simp
  moreover have "gets (routehead i) ?h ?r"
    using gets_addr_len by (rule gets_map)
      (use ok in \<open>auto simp: routehead_def ucast_len not_less case_prod_beta\<close>)
  then have "gets (routedef i) (?h @ ?b) (read_route r)"
  proof (rule gets_append)
    show "gets (block routeparms ?r) ?b (read_route r)"
      using gets_block(1) [OF st] by (simp add: read_route_def route_init_defaults_def)
  qed (simp add: routedef_def)
  ultimately show ?thesis
    by (rule sets_section [where f = "\<lambda>xs. i\<lparr>AdvRouteList := AdvRouteList i @ xs\<rparr>"])
      (simp_all add: ifaceparam_def)
qed

subsection \<open>The sections of name servers and search lists\<close>

lemma lexes_words:
  "(\<And>x. x \<in> set xs \<Longrightarrow> reads_as (f x) (t x)) \<Longrightarrow> lexes (concat (map (\<lambda>x. '' '' @ f x) xs) @ nl) (map t xs)"
proof (induction xs)
  case Nil
  show ?case using lexes_newline by simp
next
  case (Cons x xs)
  let ?rest = "concat (map (\<lambda>x. '' '' @ f x) xs) @ nl"
  obtain d s where d: "?rest = d # s" "delim d" by (cases xs) auto
  have "lexes ?rest (map t xs)" using Cons by simp
  then have "lexes (CHR '' '' # f x @ d # s) (t x # map t xs)"
    using Cons.prems d by (intro lexes_rules lexes_word) simp_all
  with d(1) show ?case by simp
qed

lemma lexes_word_line:
  assumes "reads_as key k" and "\<And>x. x \<in> set xs \<Longrightarrow> reads_as (f x) (t x)"
  shows "lexes (nl @ tab @ key @ concat (map (\<lambda>x. '' '' @ f x) xs) @ nl) (k # map t xs)"
proof -
  let ?rest = "concat (map (\<lambda>x. '' '' @ f x) xs) @ nl"
  obtain d s where d: "?rest = d # s" "delim d" by (cases xs) auto
  have "lexes ?rest (map t xs)" using assms(2) by (rule lexes_words)
  then have "lexes (CHR 0x0A # CHR 0x09 # key @ d # s) (k # map t xs)"
    using assms(1) d by (intro lexes_rules lexes_word) simp_all
  with d(1) show ?thesis by simp
qed

definition read_rdnss :: "AdvRDNSS \<Rightarrow> AdvRDNSS" where
  "read_rdnss r = \<lparr>AdvRDNSSLifetime = AdvRDNSSLifetime r, FlushRDNSSFlag = True, AdvRDNSSAddr = AdvRDNSSAddr r\<rparr>"

lemma read_rdnss_image: "rdnss_option_image (read_rdnss r) False = rdnss_option_image r False"
  by (simp add: rdnss_option_image_def rdnss_info_image_def rdnss_bytes_def read_rdnss_def)

definition rdnss_shown :: "AdvRDNSS \<Rightarrow> bool" where
  "rdnss_shown r \<longleftrightarrow> AdvRDNSSAddr r \<noteq> [] \<and> length (AdvRDNSSAddr r) \<le> 127 \<and> list_all addr_shown (AdvRDNSSAddr r)"

lemma rdnssaddrs_tokens:
  "map fst ts = map IPV6ADDR as \<Longrightarrow> length (AdvRDNSSAddr d) + length as \<le> 127 \<Longrightarrow> next_is c rest \<Longrightarrow>
    rdnssaddrs d (ts @ rest) = Some (d\<lparr>AdvRDNSSAddr := AdvRDNSSAddr d @ as\<rparr>, rest)"
proof (induction as arbitrary: d ts)
  case Nil
  then show ?case by (cases rest; cases "hd rest") (auto simp: next_is_def)
next
  case (Cons a as)
  then show ?case by (auto simp: map_eq_Cons_conv)
qed

lemma gets_rdnssparms:
  "gets (rdnssparms d) [KEYWORD T_AdvRDNSSLifetime, NUMBER v, LITERAL CHR '';''] (d\<lparr>AdvRDNSSLifetime := v\<rparr>)"
  "v = - 1 \<Longrightarrow> gets (rdnssparms d) [KEYWORD T_AdvRDNSSLifetime, INFINITY, LITERAL CHR '';''] (d\<lparr>AdvRDNSSLifetime := v\<rparr>)"
  by (auto simp: gets_defs rdnssparms_def)

lemma sets_rdnss:
  assumes "rdnss_shown r"
  shows "sets ifaceparam i (rdnss_text r) (AdvRDNSSList_update (\<lambda>l. l @ [read_rdnss r]) i)"
proof -
  let ?h = "map IPV6ADDR (AdvRDNSSAddr r)"
  let ?d = "(rdnss_init_defaults i)\<lparr>AdvRDNSSAddr := AdvRDNSSAddr r\<rparr>"
  let ?body = "lifetime_line ((tab @ tab) @ ''AdvRDNSSLifetime'') (AdvRDNSSLifetime r)"
  have ok: "AdvRDNSSAddr r \<noteq> []" "length (AdvRDNSSAddr r) \<le> 127" "\<And>a. a \<in> set (AdvRDNSSAddr r) \<Longrightarrow> addr_shown a"
    using assms by (auto simp: rdnss_shown_def list_all_iff)
  have "sets rdnssparms ?d ?body (?d\<lparr>AdvRDNSSLifetime := AdvRDNSSLifetime r\<rparr>)"
    by (rule sets_lifetime [OF keyword_words(33) _ gets_rdnssparms]) simp_all
  then obtain ks where ks: "lexes ?body ks" and st: "steps rdnssparms ?d ks (?d\<lparr>AdvRDNSSLifetime := AdvRDNSSLifetime r\<rparr>)"
    unfolding sets_def by blast
  let ?b = "LITERAL CHR ''{'' # ks @ [LITERAL CHR ''}'', LITERAL CHR '';'']"
  have head: "lexes (nl @ tab @ ''RDNSS'' @ concat (map (\<lambda>a. '' '' @ addrtostr a) (AdvRDNSSAddr r)) @ nl) (KEYWORD T_RDNSS # ?h)"
    by (intro lexes_word_line keyword_words reads_addr ok(3))
  have "lexes (rdnss_text r) (KEYWORD T_RDNSS # ?h @ ?b)"
    using lexes_section [OF head ks, of "'' End of RDNSS definition''"] by (simp add: rdnss_text_def)
  moreover have "gets (rdnssdef i) (?h @ ?b) (read_rdnss r)"
    unfolding gets_def
  proof (intro allI impI)
    fix ts rest :: toks
    assume "map fst ts = ?h @ ?b"
    then obtain us vs where ts: "ts = us @ vs" "map fst us = ?h" "map fst vs = ?b"
      by (auto simp: map_eq_append_conv)
    then have "next_is CHR ''{'' (vs @ rest)"
      by (auto simp: next_is_def map_eq_Cons_conv)
    then have "rdnssaddrs (rdnss_init_defaults i) (us @ vs @ rest) = Some (?d, vs @ rest)"
      using rdnssaddrs_tokens [OF ts(2), of "rdnss_init_defaults i"] ok(2) by (simp add: rdnss_init_defaults_def)
    moreover have "block rdnssparms ?d (vs @ rest) = Some (read_rdnss r, rest)"
      using gets_block(1) [OF st] ts(3) by (simp add: gets_def read_rdnss_def rdnss_init_defaults_def)
    ultimately show "rdnssdef i (ts @ rest) = Some (read_rdnss r, rest)"
      using ok(1) by (simp add: rdnssdef_def ts(1))
  qed
  ultimately show ?thesis
    by (rule sets_section [where f = "\<lambda>xs. i\<lparr>AdvRDNSSList := AdvRDNSSList i @ xs\<rparr>"])
      (simp_all add: ifaceparam_def)
qed

text \<open>Text that \<open>print_sanitized\<close> leaves as it is.\<close>

definition printable :: "string \<Rightarrow> bool" where
  "printable s \<longleftrightarrow> list_all (\<lambda>c. isprint (of_char c) \<and> c \<noteq> CHR 0x5C \<and> c \<noteq> CHR 0x22) s"

lemma sanitized_printable: "printable s \<Longrightarrow> print_sanitized (string_bytes s) = s"
proof -
  have "sanitized_char (of_char c) = [c]" if "isprint (of_char c)" "c \<noteq> CHR 0x5C" "c \<noteq> CHR 0x22" for c
  proof -
    have u: "unat (of_char c :: byte) = of_char c"
    proof -
      have "unat (word_of_nat (of_char c) :: byte) = of_char c"
        using nat_of_char_less_256 [of c] by (simp only: unat_of_nat) (simp add: take_bit_nat_eq_self)
      then show ?thesis by (simp only: of_nat_of_char)
    qed
    have "(of_char c :: nat) \<noteq> of_char (CHR 0x5C)" "(of_char c :: nat) \<noteq> of_char (CHR 0x22)"
      using that(2,3) of_char_eq_iff by metis+
    then show ?thesis
      using that(1) by (simp add: sanitized_char_def u)
  qed
  then show "printable s \<Longrightarrow> ?thesis"
    by (induction s) (auto simp: printable_def print_sanitized_def string_bytes_def)
qed

definition shown_suffix :: "string \<Rightarrow> string" where
  "shown_suffix s = join_labels (name_labels s)"

definition read_dnssl :: "AdvDNSSL \<Rightarrow> AdvDNSSL" where
  "read_dnssl d = \<lparr>AdvDNSSLLifetime = AdvDNSSLLifetime d, FlushDNSSLFlag = True,
     AdvDNSSLSuffixes = map shown_suffix (AdvDNSSLSuffixes d)\<rparr>"

definition suffix_shown :: "string \<Rightarrow> bool" where
  "suffix_shown s \<longleftrightarrow> name_ok s \<and> plain_word (shown_suffix s) \<and> list_all suffix_char (shown_suffix s)"

definition dnssl_shown :: "AdvDNSSL \<Rightarrow> bool" where
  "dnssl_shown d \<longleftrightarrow> AdvDNSSLSuffixes d \<noteq> [] \<and> list_all suffix_shown (AdvDNSSLSuffixes d)"

lemma split_dots_label: "CHR ''.'' \<notin> set l \<Longrightarrow> split_dots l = [l]"
  by (induction l) auto

lemma split_dots_Cons: "CHR ''.'' \<notin> set l \<Longrightarrow> split_dots (l @ CHR ''.'' # s) = l # split_dots s"
  by (induction l) auto

lemma split_dots_join: "ls \<noteq> [] \<Longrightarrow> list_all (\<lambda>l. CHR ''.'' \<notin> set l) ls \<Longrightarrow> split_dots (join_labels ls) = ls"
  by (induction ls rule: join_labels.induct) (simp_all add: split_dots_label split_dots_Cons)

lemma name_labels_shown: "name_ok s \<Longrightarrow> name_labels (shown_suffix s) = name_labels s"
proof -
  assume n: "name_ok s"
  let ?ls = "name_labels s"
  have "?ls \<noteq> []" "list_all (\<lambda>l. CHR ''.'' \<notin> set l) ?ls" "last ?ls \<noteq> []"
    using n by (auto simp: name_ok_def label_ok_def list_all_iff)
  then show ?thesis
    using split_dots_join [of ?ls] by (simp add: shown_suffix_def name_labels_def [of "join_labels _"])
qed

lemma read_dnssl_domains: "dnssl_shown d \<Longrightarrow> dnssl_domains (read_dnssl d) = dnssl_domains d"
  unfolding dnssl_domains_def read_dnssl_def
  by (intro arg_cong [of _ _ concat])
     (auto simp: dnssl_shown_def suffix_shown_def list_all_iff wire_domain_def name_labels_shown)

lemma read_dnssl_image:
  "dnssl_shown d \<Longrightarrow>
    dnssl_option_image (read_dnssl d) False (dnssl_domains (read_dnssl d)) = dnssl_option_image d False (dnssl_domains d)"
  by (simp add: read_dnssl_domains) (simp add: dnssl_option_image_def dnssl_info_image_def read_dnssl_def)

lemma suffix_char_printable: "list_all suffix_char s \<Longrightarrow> printable s"
  by (auto simp: list_all_iff printable_def suffix_char_def isprint_def Let_def)

lemma dnsslsuffixes_tokens:
  "map fst ts = map STRING ss \<Longrightarrow> list_all (list_all suffix_char) ss \<Longrightarrow> next_is c rest \<Longrightarrow>
    dnsslsuffixes d (ts @ rest) = Some (d\<lparr>AdvDNSSLSuffixes := AdvDNSSLSuffixes d @ ss\<rparr>, rest)"
proof (induction ss arbitrary: d ts)
  case Nil
  then show ?case by (cases rest; cases "hd rest") (auto simp: next_is_def)
next
  case (Cons s ss)
  then show ?case by (auto simp: map_eq_Cons_conv)
qed

lemma gets_dnsslparms:
  "gets (dnsslparms d) [KEYWORD T_AdvDNSSLLifetime, NUMBER v, LITERAL CHR '';''] (d\<lparr>AdvDNSSLLifetime := v\<rparr>)"
  "v = - 1 \<Longrightarrow> gets (dnsslparms d) [KEYWORD T_AdvDNSSLLifetime, INFINITY, LITERAL CHR '';''] (d\<lparr>AdvDNSSLLifetime := v\<rparr>)"
  by (auto simp: gets_defs dnsslparms_def)

lemma sets_dnssl:
  assumes "dnssl_shown d"
  shows "sets ifaceparam i (dnssl_text d) (AdvDNSSLList_update (\<lambda>l. l @ [read_dnssl d]) i)"
proof -
  let ?ss = "map shown_suffix (AdvDNSSLSuffixes d)"
  let ?h = "map STRING ?ss"
  let ?d = "(dnssl_init_defaults i)\<lparr>AdvDNSSLSuffixes := ?ss\<rparr>"
  let ?body = "lifetime_line ((tab @ tab) @ ''AdvDNSSLLifetime'') (AdvDNSSLLifetime d)"
  have ok: "?ss \<noteq> []" "list_all (list_all suffix_char) ?ss"
    "\<And>s. s \<in> set (AdvDNSSLSuffixes d) \<Longrightarrow> reads_as (shown_suffix s) (STRING (shown_suffix s))"
    using assms reads_plain by (auto simp: dnssl_shown_def suffix_shown_def list_all_iff)
  have "sets dnsslparms ?d ?body (?d\<lparr>AdvDNSSLLifetime := AdvDNSSLLifetime d\<rparr>)"
    by (rule sets_lifetime [OF keyword_words(34) _ gets_dnsslparms]) simp_all
  then obtain ks where ks: "lexes ?body ks" and st: "steps dnsslparms ?d ks (?d\<lparr>AdvDNSSLLifetime := AdvDNSSLLifetime d\<rparr>)"
    unfolding sets_def by blast
  let ?b = "LITERAL CHR ''{'' # ks @ [LITERAL CHR ''}'', LITERAL CHR '';'']"
  have "suffix_text s = '' '' @ shown_suffix s" if "s \<in> set (AdvDNSSLSuffixes d)" for s
    using assms that sanitized_printable suffix_char_printable
    by (auto simp: suffix_text_def shown_suffix_def [symmetric] dnssl_shown_def suffix_shown_def list_all_iff)
  then have m: "map suffix_text (AdvDNSSLSuffixes d) = map (\<lambda>s. '' '' @ shown_suffix s) (AdvDNSSLSuffixes d)"
    by simp
  have "lexes (nl @ tab @ ''DNSSL'' @ concat (map (\<lambda>s. '' '' @ shown_suffix s) (AdvDNSSLSuffixes d)) @ nl)
      (KEYWORD T_DNSSL # map (\<lambda>s. STRING (shown_suffix s)) (AdvDNSSLSuffixes d))"
    by (intro lexes_word_line keyword_words ok(3))
  then have head: "lexes (nl @ tab @ ''DNSSL'' @ concat (map suffix_text (AdvDNSSLSuffixes d)) @ nl) (KEYWORD T_DNSSL # ?h)"
    unfolding m by (simp add: o_def)
  have "lexes (dnssl_text d) (KEYWORD T_DNSSL # ?h @ ?b)"
    using lexes_section [OF head ks, of "'' End of DNSSL definition''"] by (simp add: dnssl_text_def)
  moreover have "gets (dnssldef i) (?h @ ?b) (read_dnssl d)"
    unfolding gets_def
  proof (intro allI impI)
    fix ts rest :: toks
    assume "map fst ts = ?h @ ?b"
    then obtain us vs where ts: "ts = us @ vs" "map fst us = ?h" "map fst vs = ?b"
      by (auto simp: map_eq_append_conv)
    then have "next_is CHR ''{'' (vs @ rest)"
      by (auto simp: next_is_def map_eq_Cons_conv)
    then have "dnsslsuffixes (dnssl_init_defaults i) (us @ vs @ rest) = Some (?d, vs @ rest)"
      using dnsslsuffixes_tokens [OF ts(2), of _ _ "dnssl_init_defaults i"] ok(2) by (simp add: dnssl_init_defaults_def)
    moreover have "block dnsslparms ?d (vs @ rest) = Some (read_dnssl d, rest)"
      using gets_block(1) [OF st] ts(3) by (simp add: gets_def read_dnssl_def dnssl_init_defaults_def)
    ultimately show "dnssldef i (ts @ rest) = Some (read_dnssl d, rest)"
      using ok(1) by (simp add: dnssldef_def ts(1))
  qed
  ultimately show ?thesis
    by (rule sets_section [where f = "\<lambda>xs. i\<lparr>AdvDNSSLList := AdvDNSSLList i @ xs\<rparr>"])
      (simp_all add: ifaceparam_def)
qed

end
