(* ===== verification/Dump_Config.thy ===== *)
theory Dump_Config
  imports Section_Text
begin

text \<open>
  The output of \<^verbatim>\<open>radvdump\<close> as a configuration file: the lines of the interface, its body, and the whole
  file. The interface that radvd reads from it has the header of the advertisement, and the options that
  the text describes are built from it byte for byte.
\<close>

subsection \<open>The lines of an interface\<close>

lemma gets_flags:
  "gets (ifaceparam i) [KEYWORD T_AdvSendAdvert, SWITCH b, LITERAL CHR '';''] (i\<lparr>AdvSendAdvert := b\<rparr>)"
  "gets (ifaceparam i) [KEYWORD T_AdvManagedFlag, SWITCH b, LITERAL CHR '';'']
    (i\<lparr>ra_header_info := (ra_header_info i)\<lparr>AdvManagedFlag := b\<rparr>\<rparr>)"
  "gets (ifaceparam i) [KEYWORD T_AdvOtherConfigFlag, SWITCH b, LITERAL CHR '';'']
    (i\<lparr>ra_header_info := (ra_header_info i)\<lparr>AdvOtherConfigFlag := b\<rparr>\<rparr>)"
  "gets (ifaceparam i) [KEYWORD T_AdvHomeAgentFlag, SWITCH b, LITERAL CHR '';'']
    (i\<lparr>ra_header_info := (ra_header_info i)\<lparr>AdvHomeAgentFlag := b\<rparr>\<rparr>)"
  "gets (ifaceparam i) [KEYWORD T_AdvSNACRouterFlag, SWITCH b, LITERAL CHR '';'']
    (i\<lparr>ra_header_info := (ra_header_info i)\<lparr>AdvSNACRouterFlag := b\<rparr>\<rparr>)"
  "gets (ifaceparam i) [KEYWORD T_AdvSourceLLAddress, SWITCH b, LITERAL CHR '';''] (i\<lparr>AdvSourceLLAddress := b\<rparr>)"
  "gets (ifaceparam i) [KEYWORD T_AdvIntervalOpt, SWITCH b, LITERAL CHR '';'']
    (i\<lparr>mipv6 := (mipv6 i)\<lparr>AdvIntervalOpt := b\<rparr>\<rparr>)"
  "gets (ifaceparam i) [KEYWORD T_AdvHomeAgentInfo, SWITCH b, LITERAL CHR '';'']
    (i\<lparr>mipv6 := (mipv6 i)\<lparr>AdvHomeAgentInfo := b\<rparr>\<rparr>)"
  "gets (ifaceparam i) [KEYWORD T_AdvMobRtrSupportFlag, SWITCH b, LITERAL CHR '';'']
    (i\<lparr>mipv6 := (mipv6 i)\<lparr>AdvMobRtrSupportFlag := b\<rparr>\<rparr>)"
  by (auto simp: gets_defs ifaceparam_def ifaceval_def Let_def)

lemma gets_numbers:
  "gets (ifaceparam i) [KEYWORD T_AdvReachableTime, NUMBER n, LITERAL CHR '';'']
    (i\<lparr>ra_header_info := (ra_header_info i)\<lparr>AdvReachableTime := n\<rparr>\<rparr>)"
  "gets (ifaceparam i) [KEYWORD T_AdvRetransTimer, NUMBER n, LITERAL CHR '';'']
    (i\<lparr>ra_header_info := (ra_header_info i)\<lparr>AdvRetransTimer := n\<rparr>\<rparr>)"
  "gets (ifaceparam i) [KEYWORD T_AdvCurHopLimit, NUMBER n, LITERAL CHR '';'']
    (i\<lparr>ra_header_info := (ra_header_info i)\<lparr>AdvCurHopLimit := ucast n\<rparr>\<rparr>)"
  "gets (ifaceparam i) [KEYWORD T_AdvDefaultLifetime, NUMBER n, LITERAL CHR '';'']
    (i\<lparr>ra_header_info := (ra_header_info i)\<lparr>AdvDefaultLifetime := i32 n\<rparr>\<rparr>)"
  "gets (ifaceparam i) [KEYWORD T_AdvLinkMTU, NUMBER n, LITERAL CHR '';''] (i\<lparr>AdvLinkMTU := n\<rparr>)"
  "gets (ifaceparam i) [KEYWORD T_HomeAgentPreference, NUMBER n, LITERAL CHR '';'']
    (i\<lparr>mipv6 := (mipv6 i)\<lparr>HomeAgentPreference := ucast n\<rparr>\<rparr>)"
  "gets (ifaceparam i) [KEYWORD T_HomeAgentLifetime, NUMBER n, LITERAL CHR '';'']
    (i\<lparr>mipv6 := (mipv6 i)\<lparr>HomeAgentLifetime := i32 n\<rparr>\<rparr>)"
  "gets (ifaceparam i) [KEYWORD T_AdvDefaultPreference, SIGNEDNUMBER p, LITERAL CHR '';'']
    (i\<lparr>ra_header_info := (ra_header_info i)\<lparr>AdvDefaultPreference := p\<rparr>\<rparr>)"
  by (auto simp: gets_defs ifaceparam_def ifaceval_def Let_def)

lemma gets_portal:
  "portal_url s = Some u \<Longrightarrow>
    gets (ifaceparam i) [KEYWORD T_AdvCaptivePortalAPI, STRING s, LITERAL CHR '';''] (i\<lparr>AdvCaptivePortalAPI := Some u\<rparr>)"
  by (auto simp: gets_defs ifaceparam_def ifaceval_def Let_def captive_portal_def)

lemma i32_small: "0 \<le> v \<Longrightarrow> v < 65536 \<Longrightarrow> i32 (of_nat (nat v)) = v"
  unfolding i32_def by (simp add: signed_take_bit_int_eq_self_iff signed_of_int)

lemma ucast_u16: "(ucast (ucast (x :: u16) :: u32) :: u16) = x"
  by (rule bit_word_eqI) (simp add: bit_simps)

lemma small_numbers: "unat (x :: u16) < 2 ^ 32" "unat (y :: u32) < 2 ^ 32" "v < 65536 \<Longrightarrow> nat v < 2 ^ 32"
  using unsigned_less [of x, where 'a = nat] unsigned_less [of y, where 'a = nat] by simp_all

lemma sets_eq: "sets item x s y \<Longrightarrow> y = z \<Longrightarrow> sets item x s z"
  by simp

lemma sets_header:
  assumes "preference_ok (AdvDefaultPreference info)" and "0 \<le> AdvDefaultLifetime info" and "AdvDefaultLifetime info < 65536"
  shows "sets ifaceparam i (header_text False info) (i\<lparr>ra_header_info := info\<rparr>)"
proof -
  have t: "list_all blank tab" by simp
  note num = sets_number [OF _ t] and flag = sets_switch [OF _ t] and pref = sets_preference [OF _ t assms(1)]
  let ?h = "(ra_header_info i)\<lparr>AdvManagedFlag := AdvManagedFlag info, AdvOtherConfigFlag := AdvOtherConfigFlag info,
    AdvReachableTime := of_nat (unat (AdvReachableTime info)), AdvRetransTimer := of_nat (unat (AdvRetransTimer info)),
    AdvCurHopLimit := ucast (of_nat (unat (AdvCurHopLimit info)) :: u32),
    AdvDefaultLifetime := i32 (of_nat (nat (AdvDefaultLifetime info))),
    AdvHomeAgentFlag := AdvHomeAgentFlag info, AdvSNACRouterFlag := AdvSNACRouterFlag info\<rparr>"
  have "sets ifaceparam i (
     flag_line False False (tab @ ''AdvManagedFlag'') (AdvManagedFlag info) @
     flag_line False False (tab @ ''AdvOtherConfigFlag'') (AdvOtherConfigFlag info) @
     num_line False 0 (tab @ ''AdvReachableTime'') (unat (AdvReachableTime info)) @
     num_line False 0 (tab @ ''AdvRetransTimer'') (unat (AdvRetransTimer info)) @
     num_line False 64 (tab @ ''AdvCurHopLimit'') (unat (AdvCurHopLimit info)) @
     num_line False 1800 (tab @ ''AdvDefaultLifetime'') (nat (AdvDefaultLifetime info)) @
     flag_line False False (tab @ ''AdvHomeAgentFlag'') (AdvHomeAgentFlag info) @
     flag_line False False (tab @ ''AdvSNACRouterFlag'') (AdvSNACRouterFlag info)) (i\<lparr>ra_header_info := ?h\<rparr>)"
    by (rule sets_eq, ((rule sets_append)?,
          (rule num flag; (rule keyword_words gets_flags gets_numbers small_numbers number_len; fact?)))+) simp
  then have "sets ifaceparam i (header_text False info) (i\<lparr>ra_header_info := ?h\<lparr>AdvDefaultPreference := AdvDefaultPreference info\<rparr>\<rparr>)"
    using sets_append [OF _ sets_eq [OF pref [OF keyword_words(16) gets_numbers(8)]]] unfolding header_text_def by fastforce
  moreover have "?h\<lparr>AdvDefaultPreference := AdvDefaultPreference info\<rparr> = info"
    using i32_small [OF assms(2,3)] by (simp add: ucast_len)
  ultimately show ?thesis by simp
qed

lemma sets_if: "(b \<Longrightarrow> sets item x s y) \<Longrightarrow> (\<not> b \<Longrightarrow> y = x) \<Longrightarrow> sets item x (if b then s else []) y"
  using sets_Nil [of item x] by auto

text \<open>The home agent option is only sent when it says more than the header.\<close>

definition home_agent_sent :: "Interface \<Rightarrow> bool" where
  "home_agent_sent iface \<longleftrightarrow> (let m = mipv6 iface in AdvHomeAgentInfo m \<and> (AdvMobRtrSupportFlag m \<or>
     HomeAgentPreference m \<noteq> 0 \<or> HomeAgentLifetime m \<noteq> AdvDefaultLifetime (ra_header_info iface)))"

definition read_mipv6 :: "Interface \<Rightarrow> mipv6" where
  "read_mipv6 iface =
     (if home_agent_sent iface then mipv6 iface
      else (mipv6 iface_init_defaults)\<lparr>AdvIntervalOpt := AdvIntervalOpt (mipv6 iface)\<rparr>)"

definition portal_shown :: "string \<Rightarrow> bool" where
  "portal_shown u \<longleftrightarrow> u \<noteq> [] \<and> length u \<le> 253 \<and> printable u"

lemma sets_on:
  assumes "reads_as key (KEYWORD k)" and "gets (item x) [KEYWORD k, SWITCH True, LITERAL CHR '';''] y"
  shows "sets item x (tab @ key @ '' on;'' @ nl) y"
  using sets_switch [where item = item and x = x, OF assms(1) _ assms(2), of tab False] by (simp add: flag_line_def on_off_def)

lemma sets_portal:
  assumes "portal_shown u"
  shows "sets ifaceparam i (portal_text u) (i\<lparr>AdvCaptivePortalAPI := Some u\<rparr>)"
proof -
  let ?q = "CHR 0x22 # u @ [CHR 0x22]"
  have u: "u \<noteq> []" "length u \<le> 253" "printable u" using assms by (simp_all add: portal_shown_def)
  have "isprint (of_char c)" if "c \<in> set u" for c
    using u(3) that by (simp add: printable_def list_all_iff)
  moreover have "\<not> isprint (of_char (CHR 0x00))" by (simp add: isprint_def)
  ultimately have "CHR 0x00 \<notin> set u" by metis
  then have nul: "takeWhile (\<lambda>c. c \<noteq> CHR 0x00) ?q = ?q"
    unfolding takeWhile_eq_all_conv by auto
  then have tok: "string_token ?q = STRING ?q"
    using u(2) unfolding string_token_def nul by (simp del: takeWhile.simps)
  have "plain_text u" using u(3) by (auto simp: plain_text_def printable_def list_all_iff)
  then have "lexes (?q @ CHR '';'' # nl) (STRING ?q # [LITERAL CHR '';''])"
    using lexes_append [OF lexes_quoted [of u], of "CHR '';'' # nl" "[LITERAL CHR '';'']"] lexes_rules(4) [OF lexes_newline]
    by (simp add: tok)
  from lexes_rules(3) [OF lexes_word [OF keyword_words(24) delims(1) lexes_rules(2) [OF this]]]
  have "lexes (CHR 0x09 # ''AdvCaptivePortalAPI'' @ CHR '' '' # ?q @ CHR '';'' # nl)
      [KEYWORD T_AdvCaptivePortalAPI, STRING ?q, LITERAL CHR '';'']" .
  then have t: "lexes (portal_text u) [KEYWORD T_AdvCaptivePortalAPI, STRING ?q, LITERAL CHR '';'']"
    by (simp add: portal_text_def sanitized_printable [OF u(3)])
  have "portal_url ?q = Some u"
    using u(1) by (simp add: portal_url_def)
  from sets_item [OF t gets_portal [OF this]] show ?thesis by simp
qed

lemma sets_home_agent:
  assumes "0 \<le> HomeAgentLifetime m" and "HomeAgentLifetime m < 65536"
  shows "sets ifaceparam i (home_agent_text False m) (i\<lparr>mipv6 := (mipv6 i)\<lparr>AdvHomeAgentInfo := True,
    AdvMobRtrSupportFlag := AdvMobRtrSupportFlag m, HomeAgentPreference := HomeAgentPreference m,
    HomeAgentLifetime := HomeAgentLifetime m\<rparr>\<rparr>)"
proof -
  have t: "list_all blank tab" by simp
  note num = sets_number [OF _ t] and flag = sets_switch [OF _ t]
  have "sets ifaceparam i ((tab @ ''AdvHomeAgentInfo'' @ '' on;'' @ nl) @
      flag_line False False (tab @ ''AdvMobRtrSupportFlag'') (AdvMobRtrSupportFlag m) @
      num_line False 0 (tab @ ''HomeAgentPreference'') (unat (HomeAgentPreference m)) @
      num_line False 1800 (tab @ ''HomeAgentLifetime'') (nat (HomeAgentLifetime m)))
    (i\<lparr>mipv6 := (mipv6 i)\<lparr>AdvHomeAgentInfo := True,
      AdvMobRtrSupportFlag := AdvMobRtrSupportFlag m, HomeAgentPreference := HomeAgentPreference m,
      HomeAgentLifetime := HomeAgentLifetime m\<rparr>\<rparr>)"
    by (rule sets_eq, (rule sets_append, rule sets_on [where item = ifaceparam, OF keyword_words(20) gets_flags(8)]), ((rule sets_append)?,
          (rule num flag; (rule keyword_words gets_flags gets_numbers small_numbers; fact?)))+)
       (simp add: i32_small [OF assms] ucast_u16)
  then show ?thesis by (simp add: home_agent_text_def)
qed

lemma sets_config_lines:
  assumes d: "dump_config_ok iface" and p: "\<And>u. AdvCaptivePortalAPI iface = Some u \<Longrightarrow> portal_shown u"
    and i: "AdvLinkMTU i = 0" "AdvSourceLLAddress i" "mipv6 i = mipv6 iface_init_defaults" "AdvCaptivePortalAPI i = None"
  shows "sets ifaceparam i (config_lines False iface)
    (i\<lparr>AdvLinkMTU := AdvLinkMTU iface, mipv6 := read_mipv6 iface, AdvCaptivePortalAPI := AdvCaptivePortalAPI iface\<rparr>)"
proof -
  let ?m = "mipv6 iface" and ?i1 = "i\<lparr>AdvLinkMTU := AdvLinkMTU iface\<rparr>"
  let ?i2 = "?i1\<lparr>mipv6 := (mipv6 i)\<lparr>AdvIntervalOpt := AdvIntervalOpt ?m\<rparr>\<rparr>"
  let ?i3 = "?i1\<lparr>mipv6 := read_mipv6 iface\<rparr>"
  have a: "sets ifaceparam i (if AdvLinkMTU iface \<noteq> 0 then num_line False 0 (tab @ ''AdvLinkMTU'') (unat (AdvLinkMTU iface)) else []) ?i1"
    using sets_number [where item = ifaceparam and x = i, OF keyword_words(17) _ small_numbers(2) gets_numbers(5), of tab 0 "AdvLinkMTU iface"] i(1)
    by (intro sets_if) simp_all
  have b: "sets ifaceparam ?i1 (if AdvSourceLLAddress iface \<and> if_hwaddr_len (sllao iface) > 0 \<and> \<not> False
      then tab @ ''AdvSourceLLAddress'' @ '' on;'' @ nl else []) ?i1"
  proof (rule sets_if)
    have "?i1\<lparr>AdvSourceLLAddress := True\<rparr> = ?i1" using i(2) by (cases i) simp
    then show "sets ifaceparam ?i1 (tab @ ''AdvSourceLLAddress'' @ '' on;'' @ nl) ?i1"
      by (rule sets_eq [OF sets_on [where item = ifaceparam, OF keyword_words(18) gets_flags(6)]])
  qed simp
  have c: "sets ifaceparam ?i1 (if AdvIntervalOpt ?m then tab @ ''AdvIntervalOpt'' @ '' on;'' @ nl else []) ?i2"
    using sets_on [where item = ifaceparam and x = ?i1, OF keyword_words(19) gets_flags(7)] i(3)
    by (intro sets_if) (simp_all add: iface_init_defaults_def)
  have e: "sets ifaceparam ?i2 (if home_agent_sent iface then home_agent_text False ?m else []) ?i3"
  proof (rule sets_if)
    assume h: "home_agent_sent iface"
    show "sets ifaceparam ?i2 (home_agent_text False ?m) ?i3"
      by (rule sets_eq [OF sets_home_agent])
        (use d h in \<open>auto simp: dump_config_ok_def read_mipv6_def home_agent_sent_def Let_def\<close>)
  qed (simp add: read_mipv6_def i(3))
  have f: "sets ifaceparam ?i3 (case AdvCaptivePortalAPI iface of None \<Rightarrow> [] | Some u \<Rightarrow> portal_text u)
      (?i3\<lparr>AdvCaptivePortalAPI := AdvCaptivePortalAPI iface\<rparr>)"
  proof (cases "AdvCaptivePortalAPI iface")
    case None
    have "?i3 = ?i3\<lparr>AdvCaptivePortalAPI := None\<rparr>" using i(4) by (cases i) simp
    from sets_eq [OF sets_Nil this] show ?thesis by (simp add: None)
  next
    case (Some u)
    from sets_portal [OF p [OF Some]] show ?thesis by (simp add: Some)
  qed
  have "config_lines False iface =
      (if AdvLinkMTU iface \<noteq> 0 then num_line False 0 (tab @ ''AdvLinkMTU'') (unat (AdvLinkMTU iface)) else []) @
      (if AdvSourceLLAddress iface \<and> if_hwaddr_len (sllao iface) > 0 \<and> \<not> False
       then tab @ ''AdvSourceLLAddress'' @ '' on;'' @ nl else []) @
      (if AdvIntervalOpt ?m then tab @ ''AdvIntervalOpt'' @ '' on;'' @ nl else []) @
      (if home_agent_sent iface then home_agent_text False ?m else []) @
      (case AdvCaptivePortalAPI iface of None \<Rightarrow> [] | Some u \<Rightarrow> portal_text u)"
    by (simp add: config_lines_def Let_def home_agent_sent_def)
  then show ?thesis
    using sets_append [OF a sets_append [OF b sets_append [OF c sets_append [OF e f]]]] by (simp only:)
qed

subsection \<open>The whole output\<close>

definition shown_prefixes :: "kernel \<Rightarrow> Interface \<Rightarrow> AdvPrefix list" where
  "shown_prefixes k iface =
     map (limit_prefix_lifetimes k) (concat (map (advertised_prefixes k iface) (AdvPrefixList iface)))"

definition shown_rdnss :: "Interface \<Rightarrow> AdvRDNSS list" where
  "shown_rdnss iface = filter (\<lambda>r. rdnss_bytes r div 8 \<le> 255) (AdvRDNSSList iface)"

definition shown_dnssl :: "Interface \<Rightarrow> AdvDNSSL list" where
  "shown_dnssl iface = filter (\<lambda>d. dnssl_groups (dnssl_domains d) \<le> 255) (AdvDNSSLList iface)"

text \<open>
  The configurations whose text means the same in the configuration file: no address but \<^verbatim>\<open>::\<close> begins with
  a zero group (the scanner takes \<^verbatim>\<open>::1\<close> for a name), no advertised prefix is \<^verbatim>\<open>::\<close> (which asks for the
  prefixes of the interface), no preferred lifetime exceeds the valid one, the search suffixes are names
  for the scanner and not words of the language, and the portal has no characters that need escaping.
\<close>

definition config_shown :: "kernel \<Rightarrow> Interface \<Rightarrow> bool" where
  "config_shown k iface \<longleftrightarrow>
     list_all prefix_shown (shown_prefixes k iface) \<and> list_all nat64_shown (NAT64PrefixList iface) \<and>
     list_all route_shown (AdvRouteList iface) \<and> list_all rdnss_shown (shown_rdnss iface) \<and>
     list_all dnssl_shown (shown_dnssl iface) \<and>
     (case AdvCaptivePortalAPI iface of None \<Rightarrow> True | Some u \<Rightarrow> portal_shown u)"

lemma sets_sections:
  assumes "config_shown k iface"
  shows "sets ifaceparam i (config_sections False k iface)
    (i\<lparr>AdvPrefixList := AdvPrefixList i @ map read_prefix (shown_prefixes k iface),
       NAT64PrefixList := NAT64PrefixList i @ map read_nat64 (NAT64PrefixList iface),
       AdvRouteList := AdvRouteList i @ map read_route (AdvRouteList iface),
       AdvRDNSSList := AdvRDNSSList i @ map read_rdnss (shown_rdnss iface),
       AdvDNSSLList := AdvDNSSLList i @ map read_dnssl (shown_dnssl iface)\<rparr>)"
proof -
  have s: "\<And>x. x \<in> set (shown_prefixes k iface) \<Longrightarrow> prefix_shown x"
    "\<And>x. x \<in> set (NAT64PrefixList iface) \<Longrightarrow> nat64_shown x" "\<And>x. x \<in> set (AdvRouteList iface) \<Longrightarrow> route_shown x"
    "\<And>x. x \<in> set (shown_rdnss iface) \<Longrightarrow> rdnss_shown x" "\<And>x. x \<in> set (shown_dnssl iface) \<Longrightarrow> dnssl_shown x"
    using assms by (auto simp: config_shown_def list_all_iff)
  have p: "sets ifaceparam a (concat (map (prefix_text False) (shown_prefixes k iface))) (AdvPrefixList_update (\<lambda>l. l @ map read_prefix (shown_prefixes k iface)) a)" for a
    by (intro sets_list [where upd = AdvPrefixList_update] sets_prefix s(1)) (simp_all add: o_def)
  have n: "sets ifaceparam a (concat (map nat64_text (NAT64PrefixList iface))) (NAT64PrefixList_update (\<lambda>l. l @ map read_nat64 (NAT64PrefixList iface)) a)" for a
    by (intro sets_list [where upd = NAT64PrefixList_update] sets_nat64 s(2)) (simp_all add: o_def)
  have r: "sets ifaceparam a (concat (map (route_text False (AdvDefaultPreference (ra_header_info iface))) (AdvRouteList iface))) (AdvRouteList_update (\<lambda>l. l @ map read_route (AdvRouteList iface)) a)" for a
    by (intro sets_list [where upd = AdvRouteList_update] sets_route s(3)) (simp_all add: o_def)
  have d: "sets ifaceparam a (concat (map rdnss_text (shown_rdnss iface))) (AdvRDNSSList_update (\<lambda>l. l @ map read_rdnss (shown_rdnss iface)) a)" for a
    by (intro sets_list [where upd = AdvRDNSSList_update] sets_rdnss s(4)) (simp_all add: o_def)
  have e: "sets ifaceparam a (concat (map dnssl_text (shown_dnssl iface))) (AdvDNSSLList_update (\<lambda>l. l @ map read_dnssl (shown_dnssl iface)) a)" for a
    by (intro sets_list [where upd = AdvDNSSLList_update] sets_dnssl s(5)) (simp_all add: o_def)
  note all = sets_append [OF p sets_append [OF n sets_append [OF r sets_append [OF d e]]]]
  show ?thesis
    unfolding config_sections_def shown_prefixes_def [symmetric] shown_rdnss_def [symmetric] shown_dnssl_def [symmetric]
    by (rule sets_eq [OF all]) (cases i, simp)
qed

text \<open>The interface that is read back.\<close>

definition read_iface :: "kernel \<Rightarrow> string \<Rightarrow> int \<Rightarrow> Interface \<Rightarrow> Interface" where
  "read_iface k n l iface = iface_init_defaults\<lparr>
     props := (props iface_init_defaults)\<lparr>name := ifname n\<rparr>, lineno := l, AdvSendAdvert := True,
     ra_header_info := ra_header_info iface, AdvLinkMTU := AdvLinkMTU iface, mipv6 := read_mipv6 iface,
     AdvCaptivePortalAPI := AdvCaptivePortalAPI iface,
     AdvPrefixList := map read_prefix (shown_prefixes k iface),
     NAT64PrefixList := map read_nat64 (NAT64PrefixList iface),
     AdvRouteList := map read_route (AdvRouteList iface),
     AdvRDNSSList := map read_rdnss (shown_rdnss iface),
     AdvDNSSLList := map read_dnssl (shown_dnssl iface)\<rparr>"

lemma init_fields:
  "AdvLinkMTU iface_init_defaults = 0" "AdvSourceLLAddress iface_init_defaults"
  "AdvCaptivePortalAPI iface_init_defaults = None" "AdvPrefixList iface_init_defaults = []"
  "NAT64PrefixList iface_init_defaults = []" "AdvRouteList iface_init_defaults = []"
  "AdvRDNSSList iface_init_defaults = []" "AdvDNSSLList iface_init_defaults = []"
  by (simp_all add: iface_init_defaults_def Interface_zero_def)

abbreviation read_head :: "string \<Rightarrow> int \<Rightarrow> Interface" where
  "read_head n l \<equiv> iface_init_defaults\<lparr>props := (props iface_init_defaults)\<lparr>name := ifname n\<rparr>, lineno := l\<rparr>"

lemma sets_body:
  assumes d: "dump_config_ok iface" and c: "config_shown k iface"
  shows "sets ifaceparam (read_head n l)
    ((tab @ ''AdvSendAdvert'' @ '' on;'' @ nl) @
     (tab @ ''# Note: {Min,Max}RtrAdvInterval cannot be obtained with radvdump'' @ nl) @
     header_text False (ra_header_info iface) @ config_lines False iface @ config_sections False k iface)
    (read_iface k n l iface)"
proof -
  let ?i = "(read_head n l)\<lparr>AdvSendAdvert := True\<rparr>"
  let ?j = "?i\<lparr>ra_header_info := ra_header_info iface\<rparr>"
  have 1: "sets ifaceparam (read_head n l) (tab @ ''AdvSendAdvert'' @ '' on;'' @ nl) ?i"
    by (rule sets_on [where item = ifaceparam, OF keyword_words(7) gets_flags(1)])
  have "lexes (CHR 0x09 # CHR ''#'' # '' Note: {Min,Max}RtrAdvInterval cannot be obtained with radvdump'' @ CHR 0x0A # []) []"
    by (intro lexes_rules lexes_Nil) simp
  then have 2: "sets ifaceparam ?i (tab @ ''# Note: {Min,Max}RtrAdvInterval cannot be obtained with radvdump'' @ nl) ?i"
    by (intro sets_skip) simp
  have 3: "sets ifaceparam ?i (header_text False (ra_header_info iface)) ?j"
    using d by (intro sets_header) (auto simp: dump_config_ok_def)
  have "\<And>u. AdvCaptivePortalAPI iface = Some u \<Longrightarrow> portal_shown u"
    using c by (auto simp: config_shown_def)
  then have 4: "sets ifaceparam ?j (config_lines False iface)
      (?j\<lparr>AdvLinkMTU := AdvLinkMTU iface, mipv6 := read_mipv6 iface, AdvCaptivePortalAPI := AdvCaptivePortalAPI iface\<rparr>)"
    using d by (intro sets_config_lines) (simp_all add: init_fields)
  note 5 = sets_append [OF 1 sets_append [OF 2 sets_append [OF 3 sets_append [OF 4 sets_sections [OF c]]]]]
  show ?thesis
    by (rule sets_eq [OF 5]) (simp add: read_iface_def init_fields)
qed

subsection \<open>The file\<close>

definition one_line :: "string \<Rightarrow> bool" where
  "one_line s \<longleftrightarrow> CHR 0x0A \<notin> set s"

lemma one_line_simps [simp]:
  "one_line []" "one_line (c # s) \<longleftrightarrow> c \<noteq> CHR 0x0A \<and> one_line s" "one_line (s @ t) \<longleftrightarrow> one_line s \<and> one_line t"
  by (auto simp: one_line_def)

lemma one_line_words: "list_all string_char s \<Longrightarrow> one_line s"
  by (auto simp: one_line_def list_all_iff)

lemma one_line_num: "one_line (dec n)" "one_line (hex n)"
proof -
  have "list_all alnum (dec n)"
    using dec_digits [of n] isdigit_alnum by (auto simp: list_all_iff)
  then show "one_line (dec n)" by (intro one_line_words) (auto simp: list_all_iff alnum_string_char)
  obtain ds where ds: "hex n = map digit ds" "list_all (\<lambda>d. d < 16) ds"
    using hex_digits [of n] by blast
  have "isxdigit (digit d)" if "d < 16" for d
    using that by (simp add: isxdigit_def)
  then show "one_line (hex n)"
    using ds by (intro one_line_words) (auto simp: list_all_iff intro!: alnum_string_char isxdigit_alnum)
qed

lemma one_line_addr: "one_line (addrtostr a)"
proof -
  have q: "one_line (dotted_quad a)" for a by (simp add: dotted_quad_def Let_def one_line_num)
  have "one_line (words_text a b l ws i)" for a b l ws i
    by (induction ws arbitrary: i) (auto simp: one_line_num q)
  then show ?thesis
    by (simp add: addrtostr_def inet_ntop_def Let_def split: prod.split)
qed

lemma lexes_preamble:
  assumes "one_line VERSION" and "plain_word n"
  shows "lexes (''#'' @ nl @ ''# radvd configuration generated by radvdump '' @ VERSION @ nl @
     ''# based on Router Advertisement from '' @ addrtostr a @ nl @ ''# received by interface '' @ n @ nl @
     ''#'' @ nl @ nl @ ''interface '' @ n @ nl @ ''{'' @ nl) [KEYWORD T_INTERFACE, STRING n, LITERAL CHR ''{'']"
proof -
  have n: "one_line n" using assms(2) by (intro one_line_words) (simp add: plain_word_def is_word_def)
  have c: "lexes (CHR ''#'' # u @ nl @ t) ks" if "one_line u" "lexes t ks" for u t ks
    using lexes_append [OF lexes_comment that(2), of u] that(1) by (simp add: one_line_def)
  have "lexes (''interface'' @ CHR '' '' # n @ CHR 0x0A # CHR ''{'' # nl) [KEYWORD T_INTERFACE, STRING n, LITERAL CHR ''{'']"
    by (intro lexes_word lexes_rules keyword_words(1) reads_plain assms(2) lexes_newline delims)
  note 1 = c [of "[]", OF _ lexes_rules(1) [OF this]]
  note 2 = c [of "'' received by interface '' @ n", OF _ 1]
  note 3 = c [of "'' based on Router Advertisement from '' @ addrtostr a", OF _ 2]
  note c [of "[]", OF _ c [of "'' radvd configuration generated by radvdump '' @ VERSION", OF _ 3]]
  then show ?thesis by (simp add: n one_line_addr assms(1))
qed

lemma grammar_one:
  assumes "lexes s (KEYWORD T_INTERFACE # STRING n # LITERAL CHR ''{'' # ks @ [LITERAL CHR ''}'', LITERAL CHR '';''])"
    and "\<And>l. steps ifaceparam (read_head n l) ks (r l)"
  shows "\<exists>l. readin_config (Some s) = Some [r l]"
proof -
  let ?ks = "LITERAL CHR ''{'' # ks @ [LITERAL CHR ''}'', LITERAL CHR '';'']"
  obtain ts m where t: "map fst ts = KEYWORD T_INTERFACE # STRING n # ?ks" "scan 1 s = ts @ scan (1 + int m) []"
    using assms(1) unfolding lexes_def by (metis append_Nil2)
  then obtain l1 l us where u: "ts = (KEYWORD T_INTERFACE, l1) # (STRING n, l) # us" "map fst us = ?ks"
    by (auto simp: map_eq_Cons_conv)
  have "block ifaceparam (read_head n l) (us @ []) = Some (r l, [])"
    using gets_block(1) [OF assms(2), unfolded gets_def, rule_format, OF u(2)] .
  then have "grammar [] ts = Some [r l]"
    by (simp add: grammar.simps ifacedef_def u(1))
  with t(2) show ?thesis by (auto simp: readin_config_def yyparse_def)
qed

lemma lexes_unique: "lexes s ks \<Longrightarrow> lexes s js \<Longrightarrow> ks = js"
proof -
  assume "lexes s ks" "lexes s js"
  then obtain ts n us m where "map fst ts = ks" "scan 1 (s @ []) = ts @ scan (1 + int n) []" "map fst us = js" "scan 1 (s @ []) = us @ scan (1 + int m) []"
    unfolding lexes_def by metis
  then show ?thesis by auto
qed

lemma print_ff_read_back:
  assumes w: "wire_config_ok iface" and d: "dump_config_ok iface" and c: "config_shown k iface"
    and m: "msg = ra_header_image (ra_header_info iface) False @ concat (ra_option_images k iface) @ rest"
    and l: "len = 16 + int (length (concat (ra_option_images k iface)))" and ne: "ra_option_images k iface \<noteq> []"
    and i: "if_indextoname k' ifindex = Some n" and n: "plain_word n" and v: "one_line VERSION"
  obtains out line where "print_ff VERSION k' msg len src ifindex False = Some out"
    and "readin_config (Some out) = Some [read_iface k n line iface]"
proof -
  let ?pre = "''#'' @ nl @ ''# radvd configuration generated by radvdump '' @ VERSION @ nl @
     ''# based on Router Advertisement from '' @ addrtostr src @ nl @ ''# received by interface '' @ n @ nl @
     ''#'' @ nl @ nl @ ''interface '' @ n @ nl @ ''{'' @ nl"
  let ?body = "(tab @ ''AdvSendAdvert'' @ '' on;'' @ nl) @
     (tab @ ''# Note: {Min,Max}RtrAdvInterval cannot be obtained with radvdump'' @ nl) @
     header_text False (ra_header_info iface) @ config_lines False iface @ config_sections False k iface"
  have "\<exists>ks. lexes ?body ks \<and> steps ifaceparam (read_head n line) ks (read_iface k n line iface)" for line
    using sets_body [OF d c, where n = n and l = line] by (simp only: sets_def)
  then obtain ks where ks: "lexes ?body ks" "\<And>line. steps ifaceparam (read_head n line) ks (read_iface k n line iface)"
    using lexes_unique by metis
  have "lexes (CHR ''}'' # CHR '';'' # CHR '' '' # CHR ''#'' # '' End of interface definition'' @ CHR 0x0A # []) [LITERAL CHR ''}'', LITERAL CHR '';'']"
    by (intro lexes_rules lexes_Nil) simp
  then have "lexes (?pre @ ?body @ dump_closing) ([KEYWORD T_INTERFACE, STRING n, LITERAL CHR ''{''] @ ks @ [LITERAL CHR ''}'', LITERAL CHR '';''])"
    by (intro lexes_append lexes_preamble v n ks(1)) (simp add: dump_closing_def)
  then obtain line where "readin_config (Some (?pre @ ?body @ dump_closing)) = Some [read_iface k n line iface]"
    using grammar_one [OF _ ks(2)] by auto
  moreover have "print_ff VERSION k' msg len src ifindex False = Some (?pre @ ?body @ dump_closing)"
    using print_ff_own [OF w d m l i, of VERSION src False] ne by (simp add: dump_preamble_def)
  ultimately show ?thesis by (rule that [rotated])
qed

subsection \<open>The options of the interface that is read back\<close>

text \<open>
  The options that the printed text describes in full. The link-layer address comes from the device,
  the interval option carries an interval that the advertisement does not show otherwise, and the
  6LoWPAN options are not printed.
\<close>

definition described :: "byte list \<Rightarrow> bool" where
  "described m \<longleftrightarrow> rd_byte m 0 \<notin> Some ` {1, 7, 34, 35}"

lemma filter_all: "(\<And>x. x \<in> set xs \<Longrightarrow> P (f x)) \<Longrightarrow> filter P (map f xs) = map f xs"
  by (induction xs) auto

definition described_options :: "kernel \<Rightarrow> Interface \<Rightarrow> byte list list" where
  "described_options k iface =
     map (\<lambda>p. prefix_option_image p False) (shown_prefixes k iface) @
     map nat64prefix_option_image (NAT64PrefixList iface) @
     map (\<lambda>r. route_option_image r False) (AdvRouteList iface) @
     map (\<lambda>r. rdnss_option_image r False) (shown_rdnss iface) @
     map (\<lambda>d. dnssl_option_image d False (dnssl_domains d)) (shown_dnssl iface) @
     (if AdvLinkMTU iface \<noteq> 0 then [mtu_option_image (AdvLinkMTU iface)] else []) @
     (if home_agent_sent iface then [home_agent_info_image (mipv6 iface)] else []) @
     (case AdvCaptivePortalAPI iface of None \<Rightarrow> [] | Some u \<Rightarrow> [capport_option_image u])"

lemma filter_described:
  assumes "\<not> cease_adv (state_info iface)" and "list_all (\<lambda>r. Route_PrefixLen r \<le> 128) (AdvRouteList iface)"
  shows "filter described (ra_option_images k iface) = described_options k iface"
proof -
  have r: "rd_byte (route_option_image r False) 0 = Some 24" if "r \<in> set (AdvRouteList iface)" for r
    using assms(2) that by (intro route_type_byte) (auto simp: list_all_iff)
  have t: "described m" if "rd_byte m 0 = Some t" "t \<in> {3, 5, 8, 24, 25, 31, 37, 38}" for m t
    using that by (auto simp: described_def)
  have f: "\<not> described m" if "rd_byte m 0 = Some t" "t \<in> {1, 7, 34, 35}" for m t
    using that by (auto simp: described_def)
  have "filter described (map (\<lambda>r. route_option_image r False) (AdvRouteList iface)) = map (\<lambda>r. route_option_image r False) (AdvRouteList iface)"
    by (intro filter_all t [OF r]) simp_all
  then show ?thesis
    using assms(1)
    by (simp add: ra_option_images_def described_options_def Let_def home_agent_sent_def shown_prefixes_def
        shown_rdnss_def shown_dnssl_def filter_all t [OF type_byte(1)] t [OF type_byte(2)] t [OF type_byte(3)]
        t [OF type_byte(6)] t [OF type_byte(9)] t [OF type_byte(10)] t [OF type_byte(11)] f [OF type_byte(4)]
        f [OF type_byte(5)] f [OF type_byte(7)] f [OF type_byte(8)] o_def split: option.split list.split)
qed

lemma read_iface_fields [simp]:
  "AdvPrefixList (read_iface k n l iface) = map read_prefix (shown_prefixes k iface)"
  "NAT64PrefixList (read_iface k n l iface) = map read_nat64 (NAT64PrefixList iface)"
  "AdvRouteList (read_iface k n l iface) = map read_route (AdvRouteList iface)"
  "AdvRDNSSList (read_iface k n l iface) = map read_rdnss (shown_rdnss iface)"
  "AdvDNSSLList (read_iface k n l iface) = map read_dnssl (shown_dnssl iface)"
  "AdvLinkMTU (read_iface k n l iface) = AdvLinkMTU iface"
  "mipv6 (read_iface k n l iface) = read_mipv6 iface"
  "ra_header_info (read_iface k n l iface) = ra_header_info iface"
  "AdvCaptivePortalAPI (read_iface k n l iface) = AdvCaptivePortalAPI iface"
  "\<not> cease_adv (state_info (read_iface k n l iface))"
  by (simp_all add: read_iface_def iface_init_defaults_def Interface_zero_def)

lemma read_home_agent:
  "home_agent_sent (read_iface k n l iface) = home_agent_sent iface"
  "home_agent_sent iface \<Longrightarrow> read_mipv6 iface = mipv6 iface"
  by (auto simp: home_agent_sent_def read_mipv6_def iface_init_defaults_def Let_def)

lemma read_shown_prefixes:
  assumes "config_shown k iface" and "\<And>p. limit_prefix_lifetimes k2 p = p"
  shows "shown_prefixes k2 (read_iface k n l iface) = map read_prefix (shown_prefixes k iface)"
proof -
  have "advertised_prefixes k2 i (read_prefix p) = [read_prefix p]" if "p \<in> set (shown_prefixes k iface)" for i p
  proof -
    have "Prefix p \<noteq> 0"
      using assms(1) that by (auto simp: config_shown_def list_all_iff prefix_shown_def addr_shown_def)
    then show ?thesis
      by (simp add: advertised_prefixes_def read_prefix_def prefix_init_defaults_def)
  qed
  then have "concat (map (\<lambda>p. advertised_prefixes k2 i (read_prefix p)) (shown_prefixes k iface)) =
      concat (map (\<lambda>p. [read_prefix p]) (shown_prefixes k iface))" for i
    by (intro arg_cong [of _ _ concat] map_cong) simp_all
  then show ?thesis
    by (simp add: shown_prefixes_def [of k2] assms(2) o_def)
qed

lemma read_options:
  assumes w: "wire_config_ok iface" and d: "dump_config_ok iface" and c: "config_shown k iface"
    and k: "\<And>p. limit_prefix_lifetimes k2 p = p"
  shows "filter described (ra_option_images k2 (read_iface k n l iface)) = filter described (ra_option_images k iface)"
proof -
  let ?i = "read_iface k n l iface"
  have r: "\<And>r. r \<in> set (AdvRouteList iface) \<Longrightarrow> Route_PrefixLen r \<le> 128"
    using w by (auto simp: wire_config_ok_def list_all_iff)
  have s: "\<And>d. d \<in> set (shown_dnssl iface) \<Longrightarrow> dnssl_shown d"
    using c by (auto simp: config_shown_def list_all_iff)
  have "filter described (ra_option_images k iface) = described_options k iface"
    using d r by (intro filter_described) (auto simp: dump_config_ok_def list_all_iff)
  moreover have "filter described (ra_option_images k2 ?i) = described_options k2 ?i"
    using r by (intro filter_described) (auto simp: list_all_iff read_route_def)
  moreover have "shown_rdnss ?i = map read_rdnss (shown_rdnss iface)"
    by (auto simp: shown_rdnss_def filter_map o_def read_rdnss_def rdnss_bytes_def)
  moreover have "shown_dnssl ?i = map read_dnssl (shown_dnssl iface)"
  proof -
    have "filter (\<lambda>d. dnssl_groups (dnssl_domains (read_dnssl d)) \<le> 255) (shown_dnssl iface) = shown_dnssl iface"
      using s by (auto simp: filter_id_conv read_dnssl_domains) (simp add: shown_dnssl_def)
    then show ?thesis by (simp add: shown_dnssl_def [of ?i] filter_map o_def)
  qed
  moreover have "map (\<lambda>d. dnssl_option_image (read_dnssl d) False (dnssl_domains (read_dnssl d))) (shown_dnssl iface) =
      map (\<lambda>d. dnssl_option_image d False (dnssl_domains d)) (shown_dnssl iface)"
    using s by (auto simp: read_dnssl_image)
  moreover have "map (\<lambda>r. route_option_image (read_route r) False) (AdvRouteList iface) = map (\<lambda>r. route_option_image r False) (AdvRouteList iface)"
    using r by (auto intro: read_route_image)
  moreover have "map (\<lambda>p. nat64prefix_option_image (read_nat64 p)) (NAT64PrefixList iface) = map nat64prefix_option_image (NAT64PrefixList iface)"
    using d by (auto simp: dump_config_ok_def list_all_iff read_nat64_image)
  ultimately show ?thesis
    using read_home_agent(2) [of iface]
    by (simp add: described_options_def read_shown_prefixes [OF c k] read_home_agent(1) o_def read_prefix_image
        read_rdnss_image)
qed

end
