(* ===== verification/Log.thy ===== *)
theory Log
  imports Text_Input
begin

text \<open>
  \<^verbatim>\<open>log.c\<close>: where a message goes. The static variables are a record; what a call writes to the
  standard error, to \<^verbatim>\<open>syslog\<close> and to the log file is the list of effects it returns. A message is the
  text that \<^verbatim>\<open>vsnprintf\<close> makes of the format and its arguments. The process id, the time stamp of
  \<^verbatim>\<open>strftime\<close> and the outcome of \<^verbatim>\<open>fopen\<close> are answers of the system.
\<close>

definition L_NONE :: int where "L_NONE = 0"
definition L_SYSLOG :: int where "L_SYSLOG = 1"
definition L_STDERR :: int where "L_STDERR = 2"
definition L_STDERR_SYSLOG :: int where "L_STDERR_SYSLOG = 3"
definition L_LOGFILE :: int where "L_LOGFILE = 4"
definition L_STDERR_CLEAN :: int where "L_STDERR_CLEAN = 5"
definition L_UNSPEC :: int where "L_UNSPEC = 6"

lemmas log_methods = L_NONE_def L_SYSLOG_def L_STDERR_def L_STDERR_SYSLOG_def L_LOGFILE_def
  L_STDERR_CLEAN_def L_UNSPEC_def

text \<open>The priorities and the facility of \<^verbatim>\<open>syslog.h\<close> that the program uses.\<close>

definition LOG_CRIT :: int where "LOG_CRIT = 2"
definition LOG_ERR :: int where "LOG_ERR = 3"
definition LOG_WARNING :: int where "LOG_WARNING = 4"
definition LOG_INFO :: int where "LOG_INFO = 6"
definition LOG_DEBUG :: int where "LOG_DEBUG = 7"
definition LOG_DAEMON :: int where "LOG_DAEMON = 24"

record log_state =
  log_method :: int
  log_ident :: string
  log_file :: string
  log_file_open :: bool
  log_facility :: int
  debug_level :: int

record log_env =
  env_pid :: int
  env_tstamp :: string
  env_fopen :: "string \<Rightarrow> string option"

datatype log_effect =
    Openlog string int
  | Syslog int string
  | Stderr string
  | Logfile string string
  | Closelog
  | Close_logfile string

definition log_init :: log_state where
  "log_init = \<lparr>log_method = L_NONE, log_ident = [], log_file = [], log_file_open = False,
     log_facility = 0, debug_level = 0\<rparr>"

subsection \<open>Operations\<close>

definition log_head :: "log_env \<Rightarrow> log_state \<Rightarrow> string" where
  "log_head e st = log_ident st @ '' ('' @ dec_int (env_pid e) @ ''): ''"

definition log_line :: "log_env \<Rightarrow> log_state \<Rightarrow> string \<Rightarrow> string" where
  "log_line e st buff = ''['' @ env_tstamp e @ ''] '' @ log_head e st @ buff @ nl"

definition unknown_method :: "log_env \<Rightarrow> log_state \<Rightarrow> int \<times> log_state \<times> log_effect list" where
  "unknown_method e st =
     (-1, st\<lparr>log_method := L_NONE\<rparr>,
      [Stderr (log_head e st @ ''unknown logging method: '' @ dec_int (log_method st) @ nl)])"

text \<open>\<open>env_fopen\<close> answers with the error text when the file cannot be opened for appending.\<close>

definition log_open :: "log_env \<Rightarrow> int \<Rightarrow> string \<Rightarrow> string option \<Rightarrow> int \<Rightarrow> log_state \<Rightarrow>
    int \<times> log_state \<times> log_effect list" where
  "log_open e meth ident path facility st =
     (let st = st\<lparr>log_method := meth, log_ident := ident\<rparr>
      in if meth = L_NONE \<or> meth = L_UNSPEC \<or> meth = L_STDERR then (0, st, [])
         else if meth = L_STDERR_CLEAN \<or> meth = L_STDERR_SYSLOG \<or> meth = L_SYSLOG then
           (let st = st\<lparr>log_facility := (if facility = -1 then LOG_DAEMON else facility)\<rparr>
            in (0, st, [Openlog (log_ident st) (log_facility st)]))
         else if meth = L_LOGFILE then
           (case path of
              None \<Rightarrow> (-1, st, [Stderr (log_head e st @ ''no logfile specified'' @ nl)])
            | Some file \<Rightarrow>
                (let st = st\<lparr>log_file := file\<rparr>
                 in case env_fopen e file of
                      Some err \<Rightarrow>
                        (-1, st\<lparr>log_file_open := False\<rparr>,
                         [Stderr (log_head e st @ ''can't open '' @ file @ '': '' @ err @ nl)])
                    | None \<Rightarrow> (0, st\<lparr>log_file_open := True\<rparr>, [])))
         else unknown_method e st)"

text \<open>\<^verbatim>\<open>buff\<close> has 1024 bytes; \<^verbatim>\<open>vsnprintf\<close> cuts the text and ends it with a zero byte.\<close>

definition vlog :: "log_env \<Rightarrow> int \<Rightarrow> string \<Rightarrow> log_state \<Rightarrow> int \<times> log_state \<times> log_effect list" where
  "vlog e prio msg st =
     (let buff = take 1023 msg; meth = log_method st
      in if meth = L_NONE \<or> meth = L_UNSPEC then (0, st, [])
         else if meth = L_SYSLOG then (0, st, [Syslog prio buff])
         else if meth = L_STDERR_SYSLOG then
           (0, st, Syslog prio buff # (if debug_level st < prio then [] else [Stderr (log_line e st buff)]))
         else if meth = L_STDERR then (0, st, [Stderr (log_line e st buff)])
         else if meth = L_STDERR_CLEAN then (0, st, [Stderr (buff @ nl)])
         else if meth = L_LOGFILE then (0, st, [Logfile (log_file st) (log_line e st buff)])
         else unknown_method e st)"

definition dlog :: "log_env \<Rightarrow> int \<Rightarrow> int \<Rightarrow> string \<Rightarrow> log_state \<Rightarrow> log_state \<times> log_effect list" where
  "dlog e prio level msg st = (if debug_level st < level then (st, []) else snd (vlog e prio msg st))"

definition flog :: "log_env \<Rightarrow> int \<Rightarrow> string \<Rightarrow> log_state \<Rightarrow> log_state \<times> log_effect list" where
  "flog e prio msg st = snd (vlog e prio msg st)"

definition log_close :: "log_env \<Rightarrow> log_state \<Rightarrow> int \<times> log_state \<times> log_effect list" where
  "log_close e st =
     (let meth = log_method st
      in if meth = L_NONE \<or> meth = L_UNSPEC \<or> meth = L_STDERR then (0, st, [])
         else if meth = L_STDERR_SYSLOG \<or> meth = L_SYSLOG then (0, st, [Closelog])
         else if meth = L_LOGFILE then (0, st\<lparr>log_file_open := False\<rparr>, [Close_logfile (log_file st)])
         else unknown_method e st)"

definition set_debuglevel :: "int \<Rightarrow> log_state \<Rightarrow> log_state" where
  "set_debuglevel level st = st\<lparr>debug_level := level\<rparr>"

definition get_debuglevel :: "log_state \<Rightarrow> int" where
  "get_debuglevel st = debug_level st"

subsection \<open>Where messages go\<close>

text \<open>A sequence of log calls between \<^verbatim>\<open>log_open\<close> and \<^verbatim>\<open>log_close\<close>, each in its own environment.\<close>

datatype log_call = Call_flog log_env int string | Call_dlog log_env int int string | Call_debug int

fun run_log_call :: "log_call \<Rightarrow> log_state \<Rightarrow> log_state \<times> log_effect list" where
  "run_log_call (Call_flog e prio msg) st = flog e prio msg st"
| "run_log_call (Call_dlog e prio level msg) st = dlog e prio level msg st"
| "run_log_call (Call_debug level) st = (set_debuglevel level st, [])"

fun run_log :: "log_call list \<Rightarrow> log_state \<Rightarrow> log_state \<times> log_effect list" where
  "run_log [] st = (st, [])"
| "run_log (c # cs) st =
     (let (st, fx) = run_log_call c st; (st, fxs) = run_log cs st in (st, fx @ fxs))"

text \<open>The sinks that belong to a method.\<close>

fun sink_of :: "int \<Rightarrow> string option \<Rightarrow> log_effect \<Rightarrow> bool" where
  "sink_of meth path (Syslog prio t) \<longleftrightarrow> (meth = L_SYSLOG \<or> meth = L_STDERR_SYSLOG) \<and> length t \<le> 1023"
| "sink_of meth path (Stderr t) \<longleftrightarrow> meth = L_STDERR \<or> meth = L_STDERR_SYSLOG \<or> meth = L_STDERR_CLEAN"
| "sink_of meth path (Logfile p t) \<longleftrightarrow> meth = L_LOGFILE \<and> path = Some p"
| "sink_of meth path _ \<longleftrightarrow> False"

definition known_method :: "int \<Rightarrow> bool" where
  "known_method m \<longleftrightarrow> m \<in> {L_NONE, L_SYSLOG, L_STDERR, L_STDERR_SYSLOG, L_LOGFILE, L_STDERR_CLEAN, L_UNSPEC}"

text \<open>The state that a successful \<open>log_open\<close> leaves.\<close>

definition log_opened :: "int \<Rightarrow> string option \<Rightarrow> log_state \<Rightarrow> bool" where
  "log_opened meth path st \<longleftrightarrow> log_method st = meth \<and> known_method meth \<and>
     (meth = L_LOGFILE \<longrightarrow> log_file_open st \<and> path = Some (log_file st))"

lemma log_open_opened:
  assumes "log_open e meth ident path facility st = (0, st', fx)"
  shows "log_opened meth path st'"
  using assms
  by (auto simp: log_open_def log_opened_def known_method_def unknown_method_def log_methods Let_def
      split: if_split_asm option.split_asm)

lemma vlog_opened:
  assumes "log_opened meth path st"
  shows "vlog e prio msg st = (0, st, snd (snd (vlog e prio msg st)))"
    and "list_all (sink_of meth path) (snd (snd (vlog e prio msg st)))"
  using assms by (auto simp: vlog_def log_opened_def known_method_def log_methods Let_def)

lemma vlog_opened_eq:
  assumes "log_opened meth path st" and "snd (vlog e prio msg st) = (st', fx)"
  shows "log_opened meth path st' \<and> list_all (sink_of meth path) fx"
  using vlog_opened [OF assms(1), of e prio msg] assms by (metis fst_conv snd_conv)

lemma run_log_call_opened:
  assumes "log_opened meth path st" and "run_log_call c st = (st', fx)"
  shows "log_opened meth path st' \<and> list_all (sink_of meth path) fx"
  using assms vlog_opened_eq [OF assms(1)]
  by (cases c) (auto simp: flog_def dlog_def set_debuglevel_def log_opened_def split: if_split_asm)

lemma run_log_opened:
  "log_opened meth path st \<Longrightarrow>
    log_opened meth path (fst (run_log cs st)) \<and> list_all (sink_of meth path) (snd (run_log cs st))"
proof (induction cs arbitrary: st)
  case (Cons c cs)
  obtain st1 fx where c: "run_log_call c st = (st1, fx)" by fastforce
  from run_log_call_opened [OF Cons.prems c] Cons.IH [of st1] show ?case
    by (simp add: c case_prod_beta Let_def)
qed simp

text \<open>The debug level decides which messages of the method \<^verbatim>\<open>stderr_syslog\<close> reach the standard error.\<close>

lemma stderr_syslog_effects:
  "log_method st = L_STDERR_SYSLOG \<Longrightarrow>
    vlog e prio msg st = (0, st, Syslog prio (take 1023 msg) #
      (if debug_level st < prio then [] else [Stderr (log_line e st (take 1023 msg))]))"
  by (simp add: vlog_def log_methods Let_def)

end
