(* ===== verification/Startup.thy ===== *)
theory Startup
  imports Log Config
begin

text \<open>
  What \<^verbatim>\<open>main\<close> of \<^verbatim>\<open>radvd.c\<close> does before it serves: the command line, the permissions of the
  configuration file, the raw socket (\<^verbatim>\<open>socket.c\<close>), the pid file, the daemon process, the privileged
  helper and the change of user (\<^verbatim>\<open>util.c\<close>).

  The process is described by the system calls it makes: a trace of calls with their answers. The
  answer of the system may depend on everything that happened before. A C function becomes a function that
  gets the trace and a continuation for its return value; a call of \<^verbatim>\<open>exit\<close> drops the continuation.
  \<^verbatim>\<open>fork\<close> answers 0 in the child: the trace is the one of a single process. Log messages that do
  not decide anything are left out.
\<close>

unbundle bit_operations_syntax

subsection \<open>System calls\<close>

datatype sockopt =
    IPV6_RECVPKTINFO int
  | IPV6_CHECKSUM int
  | IPV6_UNICAST_HOPS int
  | IPV6_MULTICAST_HOPS int
  | IPV6_MULTICAST_LOOP int
  | IPV6_RECVHOPLIMIT int
  | ICMP6_FILTER "u32 list"

datatype signal = SIGHUP | SIGTERM | SIGINT | SIGUSR1

datatype syscall =
    Sys_chroot string
  | Sys_chdir string
  | Sys_fopen string
  | Sys_fclose
  | Sys_stat string
  | Sys_readin_config string
  | Sys_socket
  | Sys_setsockopt int sockopt
  | Sys_check_ip6_forwarding
  | Sys_open string
  | Sys_flock int
  | Sys_write int string
  | Sys_fsync int
  | Sys_close int
  | Sys_close_pipe nat
  | Sys_pipe
  | Sys_fork
  | Sys_getpid
  | Sys_write_pipe int
  | Sys_read_pipe
  | Sys_umask int
  | Sys_setsid
  | Sys_privsep_init
  | Sys_initgroups string nat
  | Sys_setgid nat
  | Sys_setuid nat
  | Sys_seteuid nat
  | Sys_unlink string
  | Sys_sigblock "signal list"
  | Sys_sigaction signal
  | Sys_netlink_socket
  | Sys_netlink_no_enobufs int
  | Sys_netlink_bind int

type_synonym trace = "(syscall \<times> int) list"

record stat =
  st_mode :: u32
  st_uid :: nat
  st_gid :: nat

record passwd =
  pw_uid :: nat
  pw_gid :: nat

text \<open>
  The system: the answer to a call after a history, the status of a file, the user database, the
  number that was read from the pipe of \<^verbatim>\<open>daemonp\<close>, the text of the pid file after a history, and the
  text of the configuration file, \<open>None\<close> when it cannot be opened.
\<close>

record system =
  answer :: "trace \<Rightarrow> syscall \<Rightarrow> int"
  stat_buf :: "trace \<Rightarrow> string \<Rightarrow> stat"
  getpwnam :: "string \<Rightarrow> passwd option"
  piped_pid :: "trace \<Rightarrow> int"
  file_text :: "trace \<Rightarrow> string \<Rightarrow> string"
  conf_text :: "string \<Rightarrow> string option"
  sys_log_env :: log_env

text \<open>What \<^verbatim>\<open>main\<close> of the daemon knows when it begins to serve.\<close>

record server =
  srv_ifaces :: "Interface list"
  srv_sock :: int
  srv_pidfd :: int
  srv_pidfile :: string
  srv_conf_path :: string
  srv_user :: "string option"
  srv_log :: log_state

datatype 'a outcome = Exit int trace | Serve 'a trace

fun outcome_trace :: "'a outcome \<Rightarrow> trace" where
  "outcome_trace (Exit code t) = t"
| "outcome_trace (Serve srv t) = t"

definition sys :: "system \<Rightarrow> syscall \<Rightarrow> trace \<Rightarrow> (int \<Rightarrow> trace \<Rightarrow> 'a outcome) \<Rightarrow> 'a outcome" where
  "sys s c t k = k (answer s t c) (t @ [(c, answer s t c)])"

subsection \<open>The raw socket\<close>

text \<open>\<^verbatim>\<open>struct icmp6_filter\<close>: a bit for each of the 256 message types, set when the type is blocked.\<close>

definition ICMP6_FILTER_SETBLOCKALL :: "u32 list" where
  "ICMP6_FILTER_SETBLOCKALL = replicate 8 (-1)"

definition ICMP6_FILTER_SETPASS :: "nat \<Rightarrow> u32 list \<Rightarrow> u32 list" where
  "ICMP6_FILTER_SETPASS ty f =
     f[ty div 32 := f ! (ty div 32) AND NOT (push_bit (ty mod 32) 1)]"

definition ICMP6_FILTER_WILLPASS :: "nat \<Rightarrow> u32 list \<Rightarrow> bool" where
  "ICMP6_FILTER_WILLPASS ty f \<longleftrightarrow> \<not> bit (f ! (ty div 32)) (ty mod 32)"

definition icmpv6_filter :: "u32 list" where
  "icmpv6_filter = ICMP6_FILTER_SETPASS 134 (ICMP6_FILTER_SETPASS 133 ICMP6_FILTER_SETBLOCKALL)"

definition icmpv6_options :: "sockopt list" where
  "icmpv6_options =
     [IPV6_RECVPKTINFO 1, IPV6_CHECKSUM 2, IPV6_UNICAST_HOPS 255, IPV6_MULTICAST_HOPS 255,
      IPV6_MULTICAST_LOOP 0, IPV6_RECVHOPLIMIT 1, ICMP6_FILTER icmpv6_filter]"

fun set_options :: "system \<Rightarrow> int \<Rightarrow> sockopt list \<Rightarrow> trace \<Rightarrow> (int \<Rightarrow> trace \<Rightarrow> 'a outcome) \<Rightarrow> 'a outcome" where
  "set_options s sock [] t k = k 0 t"
| "set_options s sock (opt # opts) t k =
     sys s (Sys_setsockopt sock opt) t (\<lambda>err t.
       if err < 0 then k (-1) t else set_options s sock opts t k)"

definition open_icmpv6_socket :: "system \<Rightarrow> trace \<Rightarrow> (int \<Rightarrow> trace \<Rightarrow> 'a outcome) \<Rightarrow> 'a outcome" where
  "open_icmpv6_socket s t k =
     sys s Sys_socket t (\<lambda>sock t.
       if sock < 0 then k (-1) t
       else set_options s sock icmpv6_options t (\<lambda>err t. k (if err < 0 then -1 else sock) t))"

subsection \<open>The pid file\<close>

definition open_pid_file :: "system \<Rightarrow> string \<Rightarrow> trace \<Rightarrow> (int \<Rightarrow> trace \<Rightarrow> 'a outcome) \<Rightarrow> 'a outcome" where
  "open_pid_file s path t k =
     sys s (Sys_open path) t (\<lambda>pidfd t. if pidfd = -1 then Exit (-1) t else k pidfd t)"

definition open_and_lock_pid_file :: "system \<Rightarrow> string \<Rightarrow> trace \<Rightarrow> (int \<Rightarrow> trace \<Rightarrow> 'a outcome) \<Rightarrow> 'a outcome" where
  "open_and_lock_pid_file s path t k =
     open_pid_file s path t (\<lambda>pidfd t.
       sys s (Sys_flock pidfd) t (\<lambda>lock t. if lock \<noteq> 0 then Exit (-1) t else k pidfd t))"

text \<open>\<^verbatim>\<open>dirname\<close> of the C library.\<close>

definition strip_slashes :: "string \<Rightarrow> string" where
  "strip_slashes s = rev (dropWhile (\<lambda>c. c = CHR ''/'') (rev s))"

definition dirname :: "string \<Rightarrow> string" where
  "dirname path =
     (let p = strip_slashes path; dir = rev (dropWhile (\<lambda>c. c \<noteq> CHR ''/'') (rev p))
      in if p = [] then (if path = [] then ''.'' else ''/'')
         else if dir = [] then ''.''
         else if strip_slashes dir = [] then ''/''
         else strip_slashes dir)"

text \<open>The value returned is the one of the last \<^verbatim>\<open>close\<close>, the one of the directory.\<close>

definition write_pid_file :: "system \<Rightarrow> string \<Rightarrow> int \<Rightarrow> trace \<Rightarrow> (int \<Rightarrow> trace \<Rightarrow> 'a outcome) \<Rightarrow> 'a outcome" where
  "write_pid_file s path pid t k =
     open_pid_file s path t (\<lambda>pidfd t.
       let pid_str = dec_int pid
       in sys s (Sys_write pidfd pid_str) t (\<lambda>rc t.
            if rc \<noteq> int (length pid_str) then k (-1) t
            else sys s (Sys_write pidfd nl) t (\<lambda>rc t.
              if rc \<noteq> 1 then k (-1) t
              else sys s (Sys_fsync pidfd) t (\<lambda>rc t.
                sys s (Sys_close pidfd) t (\<lambda>rc t.
                  sys s (Sys_open (dirname path)) t (\<lambda>dirfd t.
                    sys s (Sys_fsync dirfd) t (\<lambda>rc t.
                      sys s (Sys_close dirfd) t (\<lambda>rc t. k rc t))))))))"

text \<open>\<^verbatim>\<open>fscanf\<close> with \<^verbatim>\<open>%d\<close>: leading space, a sign, at least one digit.\<close>

definition scan_int :: "string \<Rightarrow> int option" where
  "scan_int text =
     (let r = dropWhile isspace text;
          ds = takeWhile isdigit (if r \<noteq> [] \<and> hd r \<in> {CHR ''-'', CHR ''+''} then tl r else r)
      in if ds = [] then None else Some (atoi text))"

definition check_pid_file :: "system \<Rightarrow> string \<Rightarrow> trace \<Rightarrow> (trace \<Rightarrow> 'a outcome) \<Rightarrow> 'a outcome" where
  "check_pid_file s path t k =
     sys s (Sys_fopen path) t (\<lambda>pidfile t.
       if pidfile = 0 then Exit (-1) t
       else let scanned = scan_int (file_text s t path)
            in sys s Sys_fclose t (\<lambda>_ t.
                 if scanned = None then Exit (-1) t
                 else sys s Sys_getpid t (\<lambda>pid t.
                   if scanned \<noteq> Some pid then Exit (-1) t else k t)))"

subsection \<open>Processes and users\<close>

text \<open>The child of \<^verbatim>\<open>daemonp\<close>, once its pid is in the file: a session without terminal.\<close>

definition detach :: "system \<Rightarrow> trace \<Rightarrow> (trace \<Rightarrow> 'a outcome) \<Rightarrow> 'a outcome" where
  "detach s t k =
     sys s (Sys_umask 0) t (\<lambda>_ t.
       sys s Sys_setsid t (\<lambda>rc t.
         if rc = -1 then Exit (-1) t
         else sys s (Sys_chdir ''/'') t (\<lambda>rc t.
           if rc = -1 then Exit 1 t
           else sys s (Sys_close 0) t (\<lambda>_ t.
             sys s (Sys_close 1) t (\<lambda>_ t.
               sys s (Sys_close 2) t (\<lambda>_ t.
                 sys s (Sys_open ''/dev/null'') t (\<lambda>fd t.
                   if fd = -1 then Exit (-1) t
                   else sys s (Sys_open ''/dev/null'') t (\<lambda>fd t.
                     if fd = -1 then Exit (-1) t
                     else sys s (Sys_open ''/dev/null'') t (\<lambda>fd t.
                       if fd = -1 then Exit (-1) t else k t)))))))))"

definition daemonp :: "system \<Rightarrow> string \<Rightarrow> trace \<Rightarrow> (int \<Rightarrow> trace \<Rightarrow> 'a outcome) \<Rightarrow> 'a outcome" where
  "daemonp s path t k =
     sys s Sys_pipe t (\<lambda>rc t.
       if rc \<noteq> 0 then Exit (-1) t
       else sys s Sys_fork t (\<lambda>pid t.
         if pid = -1 then Exit (-1) t
         else if pid = 0 then
           sys s Sys_getpid t (\<lambda>pid t.
             sys s (Sys_close_pipe 0) t (\<lambda>_ t.
               write_pid_file s path pid t (\<lambda>rc t.
                 if rc \<noteq> 0 then Exit (-1) t
                 else sys s (Sys_write_pipe pid) t (\<lambda>_ t. detach s t (\<lambda>t. k 0 t)))))
         else
           sys s (Sys_close_pipe 1) t (\<lambda>_ t.
             sys s Sys_read_pipe t (\<lambda>rc t.
               if rc \<noteq> 4 then Exit (-1) t
               else if piped_pid s t \<noteq> pid then Exit (-1) t
               else sys s (Sys_close_pipe 0) t (\<lambda>_ t. k pid t)))))"

definition do_daemonize :: "system \<Rightarrow> string \<Rightarrow> trace \<Rightarrow> (int \<Rightarrow> trace \<Rightarrow> 'a outcome) \<Rightarrow> 'a outcome" where
  "do_daemonize s path t k = daemonp s path t (\<lambda>pid t. if pid = -1 then Exit (-1) t else k pid t)"

definition S_IWUSR :: u32 where "S_IWUSR = 0x80"
definition S_IWGRP :: u32 where "S_IWGRP = 0x10"
definition S_IWOTH :: u32 where "S_IWOTH = 0x02"

definition check_conffile_perm :: "system \<Rightarrow> string option \<Rightarrow> string \<Rightarrow> trace \<Rightarrow>
    (int \<Rightarrow> trace \<Rightarrow> 'a outcome) \<Rightarrow> 'a outcome" where
  "check_conffile_perm s username conf_file t k =
     sys s (Sys_fopen conf_file) t (\<lambda>fp t.
       if fp = 0 then k (-1) t
       else sys s Sys_fclose t (\<lambda>_ t.
         sys s (Sys_stat conf_file) t (\<lambda>rc t'.
           let stbuf = stat_buf s t conf_file; t = t'
           in if rc \<noteq> 0 then k (-1) t
              else if st_mode stbuf AND S_IWOTH \<noteq> 0 then k (-1) t
              else if username \<noteq> None \<and> \<not> strncmp_eq (the username) ''root'' 5 then
                (case getpwnam s (the username) of
                   None \<Rightarrow> k (-1) t
                 | Some pw \<Rightarrow>
                     if st_mode stbuf AND S_IWGRP \<noteq> 0 \<and> pw_gid pw = st_gid stbuf \<or>
                        st_mode stbuf AND S_IWUSR \<noteq> 0 \<and> pw_uid pw = st_uid stbuf then k (-1) t
                     else k 0 t)
              else k 0 t)))"

definition drop_root_privileges :: "system \<Rightarrow> string \<Rightarrow> trace \<Rightarrow> (int \<Rightarrow> trace \<Rightarrow> 'a outcome) \<Rightarrow> 'a outcome" where
  "drop_root_privileges s username t k =
     (case getpwnam s username of
        None \<Rightarrow> k (-1) t
      | Some pw \<Rightarrow>
          sys s (Sys_initgroups username (pw_gid pw)) t (\<lambda>rc t.
            if rc \<noteq> 0 then k (-1) t
            else sys s (Sys_setgid (pw_gid pw)) t (\<lambda>rc t.
              if rc \<noteq> 0 then k (-1) t
              else sys s (Sys_setuid (pw_uid pw)) t (\<lambda>rc t.
                if rc \<noteq> 0 then k (-1) t
                else if pw_uid pw = 0 then k 0 t
                else sys s (Sys_setuid 0) t (\<lambda>rc t.
                  if rc \<noteq> -1 then k (-1) t
                  else sys s (Sys_seteuid 0) t (\<lambda>rc t.
                    if rc \<noteq> -1 then k (-1) t else k 0 t))))))"

text \<open>The helper process of the privilege separation ends in the child of this \<^verbatim>\<open>fork\<close>.\<close>

definition start_privsep :: "system \<Rightarrow> trace \<Rightarrow> (trace \<Rightarrow> 'a outcome) \<Rightarrow> 'a outcome" where
  "start_privsep s t k =
     sys s Sys_pipe t (\<lambda>rc t.
       if rc \<noteq> 0 then Exit (-1) t
       else sys s Sys_fork t (\<lambda>pid t.
         if pid = -1 then Exit (-1) t
         else if pid = 0 then
           sys s (Sys_close_pipe 1) t (\<lambda>_ t. sys s Sys_privsep_init t (\<lambda>_ t. Exit 0 t))
         else sys s (Sys_close_pipe 0) t (\<lambda>_ t. k t)))"

subsection \<open>The command line\<close>

text \<open>
  \<^verbatim>\<open>getopt_long\<close>: the options that it returns one after the other. The option string and the table
  are those of \<^verbatim>\<open>radvd.c\<close>; operands are skipped; a word \<^verbatim>\<open>--\<close> ends the options. An unknown option, a
  missing or superfluous argument and an ambiguous abbreviation give a question mark.
\<close>

definition OPTIONS_STR :: string where
  "OPTIONS_STR = ''d:C:l:m:p:t:u:vhcn''"

definition prog_opt :: "(string \<times> bool \<times> char) list" where
  "prog_opt =
     [(''chrootdir'', True, CHR ''t''), (''config'', True, CHR ''C''), (''configtest'', False, CHR ''c''),
      (''debug'', True, CHR ''d''), (''facility'', True, CHR ''f''), (''help'', False, CHR ''h''),
      (''logfile'', True, CHR ''l''), (''logmethod'', True, CHR ''m''), (''nodaemon'', False, CHR ''n''),
      (''pidfile'', True, CHR ''p''), (''username'', True, CHR ''u''), (''version'', False, CHR ''v'')]"

fun short_option :: "string \<Rightarrow> char \<Rightarrow> bool option" where
  "short_option [] c = None"
| "short_option (d # ds) c =
     (if c = CHR '':'' then None
      else if d = c then Some (ds \<noteq> [] \<and> hd ds = CHR '':'')
      else short_option ds c)"

text \<open>The options of a word behind its hyphen, and the words left.\<close>

fun short_options :: "string \<Rightarrow> string \<Rightarrow> string list \<Rightarrow> (char \<times> string) list \<times> string list" where
  "short_options ostr [] args = ([], args)"
| "short_options ostr (c # cs) args =
     (case short_option ostr c of
        None \<Rightarrow> (let (os, args) = short_options ostr cs args in ((CHR ''?'', []) # os, args))
      | Some False \<Rightarrow> (let (os, args) = short_options ostr cs args in ((c, []) # os, args))
      | Some True \<Rightarrow>
          if cs \<noteq> [] then ([(c, cs)], args)
          else (case args of
                  [] \<Rightarrow> ([(CHR ''?'', [])], [])
                | a # args \<Rightarrow> ([(c, a)], args)))"

definition long_option :: "(string \<times> bool \<times> char) list \<Rightarrow> string \<Rightarrow> string list \<Rightarrow>
    (char \<times> string) \<times> string list" where
  "long_option table word args =
     (let lname = takeWhile (\<lambda>c. c \<noteq> CHR ''='') word;
          value = drop (length lname) word;
          exact = filter (\<lambda>(l, _). l = lname) table;
          found = (if exact \<noteq> [] then exact else filter (\<lambda>(l, _). take (length lname) l = lname) table)
      in case found of
           [(_, arg, c)] \<Rightarrow>
             if arg then
               (if value \<noteq> [] then ((c, tl value), args)
                else (case args of [] \<Rightarrow> ((CHR ''?'', []), []) | a # args \<Rightarrow> ((c, a), args)))
             else ((if value \<noteq> [] then (CHR ''?'', []) else (c, [])), args)
         | _ \<Rightarrow> ((CHR ''?'', []), args))"

lemma short_options_shorter: "short_options ostr cs args = (os, args') \<Longrightarrow> length args' < Suc (length args)"
  by (induction ostr cs args arbitrary: os args' rule: short_options.induct)
    (fastforce split: option.split_asm bool.split_asm list.split_asm if_split_asm prod.split_asm
      simp: Let_def)+

lemma long_option_shorter: "long_option table word args = (opt, args') \<Longrightarrow> length args' < Suc (length args)"
  by (auto simp: long_option_def Let_def split: list.split_asm if_split_asm)

function getopt_long :: "string \<Rightarrow> (string \<times> bool \<times> char) list \<Rightarrow> string list \<Rightarrow> (char \<times> string) list" where
  "getopt_long ostr table [] = []"
| "getopt_long ostr table (w # args) =
     (if w = ''--'' then []
      else if length w < 2 \<or> hd w \<noteq> CHR ''-'' then getopt_long ostr table args
      else if hd (tl w) = CHR ''-'' then
        (case long_option table (tl (tl w)) args of (opt, args) \<Rightarrow> opt # getopt_long ostr table args)
      else
        (case short_options ostr (tl w) args of (opts, args) \<Rightarrow> opts @ getopt_long ostr table args))"
  by pat_completeness auto
termination
  by (relation "measure (\<lambda>(ostr, table, args). length args)")
    (auto dest!: long_option_shorter [OF sym] short_options_shorter [OF sym])

record options =
  log_method_opt :: int
  logfile :: string
  facility :: int
  username :: "string option"
  chrootdir :: "string option"
  configtest :: bool
  daemonize :: bool
  conf_path :: string
  daemon_pid_file_ident :: string
  debuglevel :: int

definition PATH_RADVD_CONF :: string where "PATH_RADVD_CONF = ''/etc/radvd.conf''"
definition PATH_RADVD_PID :: string where "PATH_RADVD_PID = ''/var/run/radvd.pid''"
definition PATH_RADVD_LOG :: string where "PATH_RADVD_LOG = ''/var/log/radvd.log''"

text \<open>\<^verbatim>\<open>LOG_FACILITY\<close> is the facility chosen at build time, \<^verbatim>\<open>LOG_DAEMON\<close> unless configured.\<close>

definition options_init :: options where
  "options_init = \<lparr>log_method_opt = L_UNSPEC, logfile = PATH_RADVD_LOG, facility = LOG_DAEMON,
     username = None, chrootdir = None, configtest = False, daemonize = True,
     conf_path = PATH_RADVD_CONF, daemon_pid_file_ident = PATH_RADVD_PID, debuglevel = 0\<rparr>"

definition log_method_named :: "string \<Rightarrow> int option" where
  "log_method_named arg =
     (if arg = ''syslog'' then Some L_SYSLOG
      else if arg = ''stderr_syslog'' then Some L_STDERR_SYSLOG
      else if arg = ''stderr'' then Some L_STDERR
      else if arg = ''stderr_clean'' then Some L_STDERR_CLEAN
      else if arg = ''logfile'' then Some L_LOGFILE
      else if arg = ''none'' then Some L_NONE
      else None)"

text \<open>The body of the loop over the options; \<open>None\<close> is \<^verbatim>\<open>exit(1)\<close>, with a text for the user.\<close>

definition parse_option :: "char \<Rightarrow> string \<Rightarrow> options \<Rightarrow> options option" where
  "parse_option c optarg opts =
     (if c = CHR ''C'' then Some (opts\<lparr>conf_path := optarg\<rparr>)
      else if c = CHR ''d'' then Some (opts\<lparr>debuglevel := atoi optarg\<rparr>)
      else if c = CHR ''f'' then Some (opts\<lparr>facility := atoi optarg\<rparr>)
      else if c = CHR ''l'' then Some (opts\<lparr>logfile := optarg\<rparr>)
      else if c = CHR ''p'' then Some (opts\<lparr>daemon_pid_file_ident := optarg\<rparr>)
      else if c = CHR ''m'' then
        (case log_method_named optarg of
           Some m \<Rightarrow> Some (opts\<lparr>log_method_opt := m\<rparr>)
         | None \<Rightarrow> None)
      else if c = CHR ''t'' then Some (opts\<lparr>chrootdir := Some optarg\<rparr>)
      else if c = CHR ''u'' then Some (opts\<lparr>username := Some optarg\<rparr>)
      else if c = CHR ''v'' then None
      else if c = CHR ''c'' then Some (opts\<lparr>configtest := True\<rparr>)
      else if c = CHR ''n'' then Some (opts\<lparr>daemonize := False\<rparr>)
      else if c \<in> {CHR ''h'', CHR '':'', CHR ''?''} then None
      else Some opts)"

fun parse_options :: "(char \<times> string) list \<Rightarrow> options \<Rightarrow> options option" where
  "parse_options [] opts = Some opts"
| "parse_options ((c, arg) # rest) opts = do { opts \<leftarrow> parse_option c arg opts; parse_options rest opts }"

subsection \<open>main\<close>

definition enter_chroot :: "system \<Rightarrow> options \<Rightarrow> trace \<Rightarrow> (trace \<Rightarrow> 'a outcome) \<Rightarrow> 'a outcome" where
  "enter_chroot s opts t k =
     (case chrootdir opts of
        None \<Rightarrow> k t
      | Some dir \<Rightarrow>
          if username opts = None then Exit 1 t
          else sys s (Sys_chroot dir) t (\<lambda>rc t.
            if rc = -1 then Exit 1 t
            else sys s (Sys_chdir ''/'') t (\<lambda>rc t. if rc = -1 then Exit 1 t else k t)))"

text \<open>The method and the debug level after the switch for \<^verbatim>\<open>configtest\<close>.\<close>

definition effective_method :: "options \<Rightarrow> int" where
  "effective_method opts =
     (let m = (if configtest opts \<and> log_method_opt opts \<notin> {L_STDERR, L_STDERR_CLEAN} then L_STDERR
               else log_method_opt opts)
      in if m = L_UNSPEC then (if daemonize opts then L_STDERR_SYSLOG else L_STDERR) else m)"

definition effective_debuglevel :: "options \<Rightarrow> int" where
  "effective_debuglevel opts = (if configtest opts then 1 else debuglevel opts)"

definition program_name :: "string \<Rightarrow> string" where
  "program_name arg0 = rev (takeWhile (\<lambda>c. c \<noteq> CHR ''/'') (rev arg0))"

definition pid_file_or_daemon :: "system \<Rightarrow> options \<Rightarrow> trace \<Rightarrow> (trace \<Rightarrow> 'a outcome) \<Rightarrow> 'a outcome" where
  "pid_file_or_daemon s opts t k =
     (if daemonize opts then
        do_daemonize s (daemon_pid_file_ident opts) t (\<lambda>pid t.
          if pid \<noteq> 0 \<and> pid \<noteq> -1 then Exit 0 t else k t)
      else
        sys s Sys_getpid t (\<lambda>pid t.
          write_pid_file s (daemon_pid_file_ident opts) pid t (\<lambda>rc t.
            if rc \<noteq> 0 then Exit (-1) t else k t)))"

definition change_user :: "system \<Rightarrow> options \<Rightarrow> trace \<Rightarrow> (trace \<Rightarrow> 'a outcome) \<Rightarrow> 'a outcome" where
  "change_user s opts t k =
     (case username opts of
        None \<Rightarrow> k t
      | Some u \<Rightarrow> drop_root_privileges s u t (\<lambda>rc t. if rc < 0 then Exit 1 t else k t))"

text \<open>From the socket on, with the configuration read: until the interfaces are set up.\<close>

definition become_server :: "system \<Rightarrow> options \<Rightarrow> Interface list \<Rightarrow> log_state \<Rightarrow> trace \<Rightarrow> server outcome" where
  "become_server s opts ifs lg t =
     open_icmpv6_socket s t (\<lambda>sock t.
       if sock < 0 then Exit 1 t
       else sys s Sys_check_ip6_forwarding t (\<lambda>_ t.
         open_and_lock_pid_file s (daemon_pid_file_ident opts) t (\<lambda>pidfd t.
           pid_file_or_daemon s opts t (\<lambda>t.
             check_pid_file s (daemon_pid_file_ident opts) t (\<lambda>t.
               start_privsep s t (\<lambda>t.
                 change_user s opts t (\<lambda>t.
                   Serve \<lparr>srv_ifaces = ifs, srv_sock = sock, srv_pidfd = pidfd,
                     srv_pidfile = daemon_pid_file_ident opts, srv_conf_path = conf_path opts,
                     srv_user = username opts, srv_log = lg\<rparr> t)))))))"

text \<open>A configuration without an interface is the null pointer of \<^verbatim>\<open>readin_config\<close>.\<close>

definition read_configuration :: "system \<Rightarrow> options \<Rightarrow> log_state \<Rightarrow> trace \<Rightarrow> server outcome" where
  "read_configuration s opts lg t =
     sys s (Sys_readin_config (conf_path opts)) t (\<lambda>_ t.
       case readin_config (conf_text s (conf_path opts)) of
         None \<Rightarrow> Exit 1 t
       | Some ifs \<Rightarrow>
           if ifs = [] then Exit 1 t
           else if configtest opts then Exit 0 t
           else become_server s opts ifs lg t)"

definition radvd_main :: "system \<Rightarrow> string \<Rightarrow> string list \<Rightarrow> server outcome" where
  "radvd_main s arg0 args =
     (case parse_options (getopt_long OPTIONS_STR prog_opt args) options_init of
        None \<Rightarrow> Exit 1 []
      | Some opts \<Rightarrow>
          enter_chroot s opts [] (\<lambda>t.
            let (rc, lg, _) = log_open (sys_log_env s) (effective_method opts) (program_name arg0)
                  (Some (logfile opts)) (facility opts)
                  (set_debuglevel (effective_debuglevel opts) log_init)
            in if rc < 0 then Exit 1 t
               else check_conffile_perm s (username opts) (conf_path opts) t (\<lambda>rc t.
                 if rc \<noteq> 0 \<and> get_debuglevel lg = 0 then Exit 1 t
                 else read_configuration s opts lg t)))"

text \<open>The netlink socket, and what \<^verbatim>\<open>main_loop\<close> does before its first turn.\<close>

definition netlink_socket :: "system \<Rightarrow> trace \<Rightarrow> (int \<Rightarrow> trace \<Rightarrow> 'a outcome) \<Rightarrow> 'a outcome" where
  "netlink_socket s t k =
     sys s Sys_netlink_socket t (\<lambda>sock t.
       if sock = -1 then k (-1) t
       else sys s (Sys_netlink_no_enobufs sock) t (\<lambda>_ t.
         sys s (Sys_netlink_bind sock) t (\<lambda>rc t.
           if rc = -1 then sys s (Sys_close sock) t (\<lambda>_ t. k (-1) t) else k sock t)))"

fun catch_signals :: "system \<Rightarrow> signal list \<Rightarrow> trace \<Rightarrow> (trace \<Rightarrow> 'a outcome) \<Rightarrow> 'a outcome" where
  "catch_signals s [] t k = k t"
| "catch_signals s (sig # sigs) t k = sys s (Sys_sigaction sig) t (\<lambda>_ t. catch_signals s sigs t k)"

definition main_loop_setup :: "system \<Rightarrow> trace \<Rightarrow> (int \<Rightarrow> trace \<Rightarrow> 'a outcome) \<Rightarrow> 'a outcome" where
  "main_loop_setup s t k =
     sys s (Sys_sigblock [SIGHUP, SIGTERM, SIGINT, SIGUSR1]) t (\<lambda>_ t.
       catch_signals s [SIGHUP, SIGTERM, SIGINT, SIGUSR1] t (\<lambda>t. netlink_socket s t k))"

text \<open>After the main loop, the final advertisements and the multicast groups.\<close>

definition main_finish :: "system \<Rightarrow> server \<Rightarrow> trace \<Rightarrow> server outcome" where
  "main_finish s srv t =
     sys s (Sys_close (srv_sock srv)) t (\<lambda>_ t.
       sys s (Sys_unlink (srv_pidfile srv)) t (\<lambda>_ t.
         sys s (Sys_close (srv_pidfd srv)) t (\<lambda>_ t. Exit 0 t)))"

subsection \<open>main of radvdump.c\<close>

text \<open>
  The name of the user is kept in a buffer of 256 characters, of which \<^verbatim>\<open>strncpy\<close> sets 255. The option
  \<^verbatim>\<open>v\<close> and the option \<^verbatim>\<open>h\<close> exit with -1.
\<close>

record dump_options =
  dump_user :: string
  dump_edefs :: bool
  dump_debug :: int

definition dump_options_str :: string where
  "dump_options_str = ''d:fehvu:''"

definition dump_prog_opt :: "(string \<times> bool \<times> char) list" where
  "dump_prog_opt =
     [(''debug'', True, CHR ''d''), (''username'', True, CHR ''u''), (''file-format'', False, CHR ''f''),
      (''exclude-defaults'', False, CHR ''e''), (''version'', False, CHR ''v''), (''help'', False, CHR ''h'')]"

fun parse_dump_options :: "(char \<times> string) list \<Rightarrow> dump_options \<Rightarrow> int + dump_options" where
  "parse_dump_options [] opts = Inr opts"
| "parse_dump_options ((c, optarg) # rest) opts =
     (if c = CHR ''d'' then parse_dump_options rest (opts\<lparr>dump_debug := atoi optarg\<rparr>)
      else if c = CHR ''e'' then parse_dump_options rest (opts\<lparr>dump_edefs := True\<rparr>)
      else if c \<in> {CHR ''v'', CHR ''h''} then Inl (-1)
      else if c = CHR ''u'' then parse_dump_options rest (opts\<lparr>dump_user := take 255 optarg\<rparr>)
      else if c \<in> {CHR '':'', CHR ''?''} then Inl 1
      else parse_dump_options rest opts)"

text \<open>The tool goes on with its socket and the flag \<^verbatim>\<open>-e\<close>.\<close>

definition radvdump_start :: "system \<Rightarrow> string \<Rightarrow> string list \<Rightarrow> (int \<times> bool) outcome" where
  "radvdump_start s arg0 args =
     (case parse_dump_options (getopt_long dump_options_str dump_prog_opt args)
         \<lparr>dump_user = ''nobody'', dump_edefs = False, dump_debug = 0\<rparr> of
        Inl code \<Rightarrow> Exit code []
      | Inr opts \<Rightarrow>
          (let (rc, _, _) = log_open (sys_log_env s) L_STDERR (program_name arg0) None 0
                 (set_debuglevel (dump_debug opts) log_init)
           in if rc < 0 then Exit 1 []
              else open_icmpv6_socket s [] (\<lambda>sock t.
                if sock < 0 then Exit 1 t
                else if dump_user opts = [] \<or> dump_user opts = ''-'' then Serve (sock, dump_edefs opts) t
                else drop_root_privileges s (dump_user opts) t (\<lambda>rc t.
                  if rc < 0 then Exit 1 t else Serve (sock, dump_edefs opts) t))))"

subsection \<open>Privileges\<close>

text \<open>
  The identity of the process after a trace that begins as root, by what \<^verbatim>\<open>setuid\<close>, \<^verbatim>\<open>seteuid\<close> and
  \<^verbatim>\<open>setgid\<close> document for a call that answers 0.
\<close>

record creds =
  cr_uid :: nat
  cr_euid :: nat
  cr_gid :: nat

fun cred_step :: "syscall \<times> int \<Rightarrow> creds \<Rightarrow> creds" where
  "cred_step (Sys_setuid u, rc) c = (if rc = 0 then c\<lparr>cr_uid := u, cr_euid := u\<rparr> else c)"
| "cred_step (Sys_seteuid u, rc) c = (if rc = 0 then c\<lparr>cr_euid := u\<rparr> else c)"
| "cred_step (Sys_setgid g, rc) c = (if rc = 0 then c\<lparr>cr_gid := g\<rparr> else c)"
| "cred_step _ c = c"

definition root_creds :: creds where
  "root_creds = \<lparr>cr_uid = 0, cr_euid = 0, cr_gid = 0\<rparr>"

definition creds_after :: "trace \<Rightarrow> creds" where
  "creds_after t = fold cred_step t root_creds"

fun keeps_creds :: "syscall \<times> int \<Rightarrow> bool" where
  "keeps_creds (Sys_setuid u, rc) = False"
| "keeps_creds (Sys_seteuid u, rc) = False"
| "keeps_creds (Sys_setgid g, rc) = False"
| "keeps_creds _ = True"

lemma creds_after_keep: "list_all keeps_creds u \<Longrightarrow> creds_after (t @ u) = creds_after t"
proof (induction u arbitrary: t)
  case (Cons e u)
  from Cons.IH [of "t @ [e]"] Cons.prems show ?case
    by (cases e rule: keeps_creds.cases) (simp_all add: creds_after_def)
qed simp

text \<open>
  Postconditions: \<open>Q\<close> of the server and the trace with which \<^verbatim>\<open>main\<close> begins to serve, \<open>E\<close> of the code
  and the trace of an exit. The rules below replace the answers of the system by arbitrary ones.
\<close>

fun post :: "('a \<Rightarrow> trace \<Rightarrow> bool) \<Rightarrow> (int \<Rightarrow> trace \<Rightarrow> bool) \<Rightarrow> 'a outcome \<Rightarrow> bool" where
  "post Q E (Serve srv t) = Q srv t"
| "post Q E (Exit code t) = E code t"

named_theorems posts \<open>rules for postconditions\<close>

lemma sys_post [posts]: "(\<And>rc. post Q E (k rc (t @ [(c, rc)]))) \<Longrightarrow> post Q E (sys s c t k)"
  by (simp add: sys_def)

lemma if_post [posts]:
  "(b \<Longrightarrow> post Q E x) \<Longrightarrow> (\<not> b \<Longrightarrow> post Q E y) \<Longrightarrow> post Q E (if b then x else y)"
  by simp

lemma option_post [posts]:
  "(opt = None \<Longrightarrow> post Q E x) \<Longrightarrow> (\<And>v. opt = Some v \<Longrightarrow> post Q E (f v)) \<Longrightarrow>
    post Q E (case opt of None \<Rightarrow> x | Some v \<Rightarrow> f v)"
  by (cases opt) simp_all

lemma let_post [posts]: "(\<And>x. x = v \<Longrightarrow> post Q E (f x)) \<Longrightarrow> post Q E (let x = v in f x)"
  by simp

lemma Exit_post [posts]: "E code t \<Longrightarrow> post Q E (Exit code t)"
  by simp

text \<open>What every part of the startup does: it only adds calls that keep the identity, and hands over.\<close>

abbreviation any_exit :: "int \<Rightarrow> trace \<Rightarrow> bool" where
  "any_exit \<equiv> \<lambda>_ _. True"

abbreviation steady :: "trace \<Rightarrow> bool" where
  "steady \<equiv> list_all keeps_creds"

lemma set_options_post:
  assumes "steady t"
    and "\<And>t'. steady t' \<Longrightarrow> set t \<subseteq> set t' \<Longrightarrow>
      \<forall>opt \<in> set opts. \<exists>rc \<ge> 0. (Sys_setsockopt sock opt, rc) \<in> set t' \<Longrightarrow> post Q any_exit (k 0 t')"
    and "\<And>t'. post Q any_exit (k (-1) t')"
  shows "post Q any_exit (set_options s sock opts t k)"
  using assms(1,2)
proof (induction opts arbitrary: t)
  case Nil
  then show ?case by simp
next
  case (Cons opt opts)
  show ?case
  proof (simp only: set_options.simps, intro posts assms(3))
    fix rc :: int
    let ?t = "t @ [(Sys_setsockopt sock opt, rc)]"
    assume rc: "\<not> rc < 0"
    show "post Q any_exit (set_options s sock opts ?t k)"
    proof (rule Cons.IH)
      fix t'
      assume "steady t'" "set ?t \<subseteq> set t'"
        "\<forall>opt \<in> set opts. \<exists>rc \<ge> 0. (Sys_setsockopt sock opt, rc) \<in> set t'"
      with rc show "post Q any_exit (k 0 t')"
        by (intro Cons.prems(2)) (auto intro!: exI [of _ rc])
    qed (use Cons.prems(1) in simp)
  qed
qed

lemma open_icmpv6_socket_post:
  assumes "steady t"
    and "\<And>sock t'. steady t' \<Longrightarrow> set t \<subseteq> set t' \<Longrightarrow> 0 \<le> sock \<Longrightarrow>
      \<forall>opt \<in> set icmpv6_options. \<exists>rc \<ge> 0. (Sys_setsockopt sock opt, rc) \<in> set t' \<Longrightarrow>
      post Q any_exit (k sock t')"
    and "\<And>t'. post Q any_exit (k (-1) t')"
  shows "post Q any_exit (open_icmpv6_socket s t k)"
  unfolding open_icmpv6_socket_def
  using assms by (intro posts set_options_post) auto

lemma open_and_lock_pid_file_post:
  assumes "steady t"
    and "\<And>fd t'. steady t' \<Longrightarrow> set t \<subseteq> set t' \<Longrightarrow> (Sys_open path, fd) \<in> set t' \<Longrightarrow>
      (Sys_flock fd, 0) \<in> set t' \<Longrightarrow> post Q any_exit (k fd t')"
  shows "post Q any_exit (open_and_lock_pid_file s path t k)"
  unfolding open_and_lock_pid_file_def open_pid_file_def
  using assms(1) by (intro posts) (auto intro!: assms(2))

lemma write_pid_file_post:
  assumes "steady t"
    and "\<And>rc t'. steady t' \<Longrightarrow> set t \<subseteq> set t' \<Longrightarrow> post Q any_exit (k rc t')"
  shows "post Q any_exit (write_pid_file s path pid t k)"
  unfolding write_pid_file_def open_pid_file_def
  using assms(1) by (intro posts) (auto intro!: assms(2))

lemma detach_post:
  assumes "steady t"
    and "\<And>t'. steady t' \<Longrightarrow> set t \<subseteq> set t' \<Longrightarrow> post Q any_exit (k t')"
  shows "post Q any_exit (detach s t k)"
  unfolding detach_def
  using assms(1) by (intro posts) (auto intro!: assms(2))

lemma do_daemonize_post:
  assumes "steady t"
    and "\<And>pid t'. steady t' \<Longrightarrow> set t \<subseteq> set t' \<Longrightarrow> post Q any_exit (k pid t')"
  shows "post Q any_exit (do_daemonize s path t k)"
  unfolding do_daemonize_def daemonp_def
  using assms(1) by (intro posts write_pid_file_post detach_post) (auto intro!: assms(2))

lemma pid_file_or_daemon_post:
  assumes "steady t"
    and "\<And>t'. steady t' \<Longrightarrow> set t \<subseteq> set t' \<Longrightarrow> post Q any_exit (k t')"
  shows "post Q any_exit (pid_file_or_daemon s opts t k)"
  unfolding pid_file_or_daemon_def
  using assms(1) by (intro posts write_pid_file_post do_daemonize_post) (auto intro!: assms(2))

lemma check_pid_file_post:
  assumes "steady t"
    and "\<And>pid h t'. steady t' \<Longrightarrow> set t \<subseteq> set t' \<Longrightarrow> (Sys_getpid, pid) \<in> set t' \<Longrightarrow>
      scan_int (file_text s h path) = Some pid \<Longrightarrow> post Q any_exit (k t')"
  shows "post Q any_exit (check_pid_file s path t k)"
  unfolding check_pid_file_def
  using assms(1) by (intro posts) (auto intro!: assms(2))

lemma start_privsep_post:
  assumes "steady t"
    and "\<And>t'. steady t' \<Longrightarrow> set t \<subseteq> set t' \<Longrightarrow> post Q any_exit (k t')"
  shows "post Q any_exit (start_privsep s t k)"
  unfolding start_privsep_def
  using assms(1) by (intro posts) (auto intro!: assms(2))

lemma enter_chroot_post:
  assumes "steady t"
    and "\<And>t'. steady t' \<Longrightarrow> set t \<subseteq> set t' \<Longrightarrow> post Q any_exit (k t')"
  shows "post Q any_exit (enter_chroot s opts t k)"
  unfolding enter_chroot_def
  using assms(1) by (intro posts) (auto intro!: assms(2))

lemma check_conffile_perm_post:
  assumes "steady t"
    and "\<And>rc t'. steady t' \<Longrightarrow> set t \<subseteq> set t' \<Longrightarrow> post Q any_exit (k rc t')"
  shows "post Q any_exit (check_conffile_perm s user path t k)"
  unfolding check_conffile_perm_def
  using assms(1) by (intro posts) (auto intro!: assms(2))

text \<open>The calls of \<open>drop_root_privileges\<close> when it succeeds.\<close>

definition drop_calls :: "string \<Rightarrow> passwd \<Rightarrow> trace" where
  "drop_calls u pw =
     [(Sys_initgroups u (pw_gid pw), 0), (Sys_setgid (pw_gid pw), 0), (Sys_setuid (pw_uid pw), 0)] @
     (if pw_uid pw = 0 then [] else [(Sys_setuid 0, -1), (Sys_seteuid 0, -1)])"

lemma drop_root_privileges_post:
  assumes "\<And>pw. getpwnam s u = Some pw \<Longrightarrow> post Q any_exit (k 0 (t @ drop_calls u pw))"
    and "\<And>t'. post Q any_exit (k (-1) t')"
  shows "post Q any_exit (drop_root_privileges s u t k)"
  unfolding drop_root_privileges_def
  using assms by (intro posts) (auto simp: drop_calls_def)

lemma creds_after_drop_calls:
  "steady t \<Longrightarrow>
    creds_after (t @ drop_calls u pw) = \<lparr>cr_uid = pw_uid pw, cr_euid = pw_uid pw, cr_gid = pw_gid pw\<rparr>"
  using creds_after_keep [of t "[]"] by (simp add: creds_after_def drop_calls_def root_creds_def)

text \<open>The trace with which \<^verbatim>\<open>main\<close> begins to serve.\<close>

definition serving :: "system \<Rightarrow> server \<Rightarrow> trace \<Rightarrow> bool" where
  "serving s srv t \<longleftrightarrow> (\<exists>pre. steady pre \<and>
     (case srv_user srv of
        None \<Rightarrow> t = pre
      | Some u \<Rightarrow> \<exists>pw. getpwnam s u = Some pw \<and> t = pre @ drop_calls u pw) \<and>
     (\<forall>opt \<in> set icmpv6_options. \<exists>rc \<ge> 0. (Sys_setsockopt (srv_sock srv) opt, rc) \<in> set pre) \<and>
     (Sys_flock (srv_pidfd srv), 0) \<in> set pre \<and>
     (\<exists>pid h. (Sys_getpid, pid) \<in> set pre \<and> scan_int (file_text s h (srv_pidfile srv)) = Some pid) \<and>
     (\<exists>rc. (Sys_readin_config (srv_conf_path srv), rc) \<in> set pre) \<and>
     readin_config (conf_text s (srv_conf_path srv)) = Some (srv_ifaces srv) \<and> srv_ifaces srv \<noteq> [])"

lemma change_user_post:
  assumes "\<And>pw u. username opts = Some u \<Longrightarrow> getpwnam s u = Some pw \<Longrightarrow>
      post Q any_exit (k (t @ drop_calls u pw))"
    and "username opts = None \<Longrightarrow> post Q any_exit (k t)"
  shows "post Q any_exit (change_user s opts t k)"
  unfolding change_user_def
  using assms by (intro posts drop_root_privileges_post) auto

lemma become_server_serving:
  assumes "steady t" and "(Sys_readin_config (conf_path opts), rc) \<in> set t"
    and "readin_config (conf_text s (conf_path opts)) = Some ifs" and "ifs \<noteq> []"
  shows "post (serving s) any_exit (become_server s opts ifs lg t)"
  unfolding become_server_def
  using assms
  by (intro posts open_icmpv6_socket_post open_and_lock_pid_file_post pid_file_or_daemon_post
      check_pid_file_post start_privsep_post change_user_post)
    (auto simp: serving_def, blast+)

lemma read_configuration_serving:
  assumes "steady t"
  shows "post (serving s) any_exit (read_configuration s opts lg t)"
  unfolding read_configuration_def
  using assms by (intro posts become_server_serving) auto

lemma radvd_main_serving: "post (serving s) any_exit (radvd_main s arg0 args)"
  unfolding radvd_main_def case_prod_beta
  by (intro posts enter_chroot_post check_conffile_perm_post read_configuration_serving) auto

lemma radvdump_start_serving:
  assumes "parse_dump_options (getopt_long dump_options_str dump_prog_opt args)
      \<lparr>dump_user = ''nobody'', dump_edefs = False, dump_debug = 0\<rparr> = Inr opts"
    and "dump_user opts \<noteq> []" and "dump_user opts \<noteq> ''-''"
  shows "post (\<lambda>_ t. \<exists>pre pw. steady pre \<and> getpwnam s (dump_user opts) = Some pw \<and>
      t = pre @ drop_calls (dump_user opts) pw) any_exit (radvdump_start s arg0 args)"
  unfolding radvdump_start_def assms(1) sum.case case_prod_beta
  by (intro posts open_icmpv6_socket_post drop_root_privileges_post) (use assms(2,3) in auto)

lemma icmpv6_filter_passes:
  assumes "ty < 256"
  shows "ICMP6_FILTER_WILLPASS ty icmpv6_filter \<longleftrightarrow> ty \<in> {133, 134}"
proof -
  have "list_all (\<lambda>ty. ICMP6_FILTER_WILLPASS ty icmpv6_filter \<longleftrightarrow> ty \<in> {133, 134}) [0..<256]"
    by code_simp
  with assms show ?thesis by (simp add: list_all_iff)
qed

subsection \<open>The configuration file\<close>

text \<open>What \<^verbatim>\<open>check_conffile_perm\<close> asks of the file, as \<^verbatim>\<open>stat\<close> shows it at that moment.\<close>

definition conf_file_secure :: "system \<Rightarrow> string option \<Rightarrow> stat \<Rightarrow> bool" where
  "conf_file_secure s user st \<longleftrightarrow>
     st_mode st AND S_IWOTH = 0 \<and>
     (\<forall>u. user = Some u \<and> u \<noteq> ''root'' \<longrightarrow>
       (\<exists>pw. getpwnam s u = Some pw \<and>
         (st_mode st AND S_IWGRP = 0 \<or> pw_gid pw \<noteq> st_gid st) \<and>
         (st_mode st AND S_IWUSR = 0 \<or> pw_uid pw \<noteq> st_uid st)))"

lemma strncmp_root: "strncmp_eq u ''root'' 5 \<longleftrightarrow> u = ''root''"
proof
  assume "strncmp_eq u ''root'' 5"
  then have t: "take 5 u = ''root''" by (simp add: strncmp_eq_def)
  then have "length (take 5 u) = 4" by simp
  then have "length u = 4" by (simp split: if_split_asm)
  with t show "u = ''root''" by simp
qed (simp add: strncmp_eq_def)

abbreviation reads_config :: "trace \<Rightarrow> bool" where
  "reads_config t \<equiv> \<exists>p rc. (Sys_readin_config p, rc) \<in> set t"

lemma check_conffile_perm_cases:
  assumes "\<not> reads_config t" and "\<And>rc t'. rc \<noteq> 0 \<Longrightarrow> \<not> reads_config t' \<Longrightarrow> R (k rc t')"
    and "\<And>pre. \<not> reads_config pre \<Longrightarrow> conf_file_secure s user (stat_buf s pre path) \<Longrightarrow>
      R (k 0 (pre @ [(Sys_stat path, 0)]))"
  shows "R (check_conffile_perm s user path t k)"
proof -
  have bad: "R (k (-1) t')" if "\<not> reads_config t'" for t'
    using assms(2) [of "-1" t'] that by simp
  define pre where "pre = t @ [(Sys_fopen path, answer s t (Sys_fopen path)),
      (Sys_fclose, answer s (t @ [(Sys_fopen path, answer s t (Sys_fopen path))]) Sys_fclose)]"
  let ?rc = "answer s pre (Sys_stat path)" and ?st = "stat_buf s pre path"
  let ?t = "pre @ [(Sys_stat path, ?rc)]"
  have pre: "\<not> reads_config pre" "\<not> reads_config ?t"
    using assms(1) by (auto simp: pre_def)
  have "check_conffile_perm s user path t k =
    (if answer s t (Sys_fopen path) = 0 then k (-1) (t @ [(Sys_fopen path, 0)])
     else if ?rc \<noteq> 0 \<or> \<not> conf_file_secure s user ?st then k (-1) ?t else k 0 ?t)"
    by (cases user) (simp_all add: check_conffile_perm_def sys_def pre_def conf_file_secure_def strncmp_root Let_def
        split: option.split)
  moreover have "R (k 0 ?t)" if "?rc = 0" "conf_file_secure s user ?st"
    using assms(3) [OF pre(1) that(2)] that(1) by simp
  moreover have "R (k (-1) (t @ [(Sys_fopen path, 0)]))" "R (k (-1) ?t)"
    using assms(1) pre(2) by (auto intro!: bad)
  ultimately show ?thesis by auto
qed

lemma enter_chroot_cases:
  assumes "\<not> reads_config t" and "\<And>t'. \<not> reads_config t' \<Longrightarrow> R (k t')"
    and "\<And>c t'. \<not> reads_config t' \<Longrightarrow> R (Exit c t')"
  shows "R (enter_chroot s opts t k)"
  unfolding enter_chroot_def sys_def
  using assms(1) by (auto intro!: assms(2,3) split: option.split)

lemma post_trivial: "post (\<lambda>_ _. True) (\<lambda>_ _. True) out"
  by (cases out) simp_all

lemma log_open_debug: "debug_level (fst (snd (log_open e m i p f st))) = debug_level st"
  by (simp add: log_open_def unknown_method_def Let_def split: option.split)

lemma radvd_main_reads_secure:
  assumes o: "parse_options (getopt_long OPTIONS_STR prog_opt args) options_init = Some opts"
    and d: "effective_debuglevel opts = 0" and r: "reads_config (outcome_trace (radvd_main s arg0 args))"
  shows "\<exists>lg pre. radvd_main s arg0 args = read_configuration s opts lg (pre @ [(Sys_stat (conf_path opts), 0)]) \<and>
    \<not> reads_config pre \<and> conf_file_secure s (username opts) (stat_buf s pre (conf_path opts))"
proof -
  let ?R = "\<lambda>out. \<not> reads_config (outcome_trace out) \<or>
    (\<exists>lg pre. out = read_configuration s opts lg (pre @ [(Sys_stat (conf_path opts), 0)]) \<and> \<not> reads_config pre \<and>
      conf_file_secure s (username opts) (stat_buf s pre (conf_path opts)))"
  have "?R (radvd_main s arg0 args)"
    unfolding radvd_main_def o option.case
  proof (rule enter_chroot_cases)
    fix t assume t: "\<not> reads_config t"
    obtain rc lg x where l: "log_open (sys_log_env s) (effective_method opts) (program_name arg0) (Some (logfile opts))
        (facility opts) (set_debuglevel (effective_debuglevel opts) log_init) = (rc, lg, x)"
      by (cases "log_open (sys_log_env s) (effective_method opts) (program_name arg0) (Some (logfile opts))
        (facility opts) (set_debuglevel (effective_debuglevel opts) log_init)")
    have "get_debuglevel lg = 0"
      using log_open_debug [of "sys_log_env s" "effective_method opts" "program_name arg0" "Some (logfile opts)"
          "facility opts" "set_debuglevel (effective_debuglevel opts) log_init"] d l
      by (simp add: get_debuglevel_def set_debuglevel_def)
    then have "?R (check_conffile_perm s (username opts) (conf_path opts) t (\<lambda>rc t.
        if rc \<noteq> 0 \<and> get_debuglevel lg = 0 then Exit 1 t else read_configuration s opts lg t))"
      by (intro check_conffile_perm_cases [OF t, where R = ?R]) auto
    with t l show "?R (let (rc, lg, _) = log_open (sys_log_env s) (effective_method opts) (program_name arg0)
        (Some (logfile opts)) (facility opts) (set_debuglevel (effective_debuglevel opts) log_init)
      in if rc < 0 then Exit 1 t
         else check_conffile_perm s (username opts) (conf_path opts) t (\<lambda>rc t.
           if rc \<noteq> 0 \<and> get_debuglevel lg = 0 then Exit 1 t else read_configuration s opts lg t))"
      by simp
  qed simp_all
  with r show ?thesis by blast
qed

text \<open>A test of the configuration reads, and ends with a code that tells whether the file is good.\<close>

fun reading_call :: "syscall \<times> int \<Rightarrow> bool" where
  "reading_call (Sys_fopen p, rc) = True"
| "reading_call (Sys_fclose, rc) = True"
| "reading_call (Sys_stat p, rc) = True"
| "reading_call (Sys_readin_config p, rc) = True"
| "reading_call _ = False"

lemma check_conffile_perm_reading:
  assumes "list_all reading_call t"
    and "\<And>rc t'. list_all reading_call t' \<Longrightarrow> post Q E (k rc t')"
  shows "post Q E (check_conffile_perm s user path t k)"
  unfolding check_conffile_perm_def
  using assms(1) by (intro posts) (auto intro!: assms(2))

lemma log_open_stderr:
  "m \<in> {L_STDERR, L_STDERR_CLEAN} \<Longrightarrow> fst (log_open e m i p f st) = 0"
  by (auto simp: log_open_def log_methods Let_def)

lemma radvd_main_configtest:
  assumes "parse_options (getopt_long OPTIONS_STR prog_opt args) options_init = Some opts"
    and "configtest opts" and "chrootdir opts = None"
  shows "post (\<lambda>_ _. False)
    (\<lambda>code t. list_all reading_call t \<and>
       code = (if \<exists>ifs. readin_config (conf_text s (conf_path opts)) = Some ifs \<and> ifs \<noteq> [] then 0 else 1))
    (radvd_main s arg0 args)"
proof -
  have m: "effective_method opts \<in> {L_STDERR, L_STDERR_CLEAN}"
    using assms(2) by (auto simp: effective_method_def log_methods Let_def)
  have lg: "fst (log_open e (effective_method opts) i p f st) = 0"
      "debug_level (fst (snd (log_open e (effective_method opts) i p f
        (set_debuglevel (effective_debuglevel opts) st)))) = 1" for e i p f st
    using assms(2) by (simp_all add: log_open_stderr [OF m] log_open_debug set_debuglevel_def
        effective_debuglevel_def)
  show ?thesis
    unfolding radvd_main_def assms(1) option.case case_prod_beta enter_chroot_def assms(3)
      read_configuration_def
    by (intro let_post if_post check_conffile_perm_reading posts)
      (use assms(2) in \<open>auto simp: lg get_debuglevel_def\<close>)
qed

subsection \<open>The pid file names the process\<close>

text \<open>The file is not truncated when it is opened: what is written replaces the beginning of its text.\<close>

definition overwrite :: "string \<Rightarrow> string \<Rightarrow> string" where
  "overwrite new old = new @ drop (length new) old"

lemma scan_int_pid_file:
  assumes "0 \<le> pid" and "pid < 2 ^ 31"
  shows "scan_int (overwrite (dec_int pid @ nl) old) = Some pid"
proof -
  let ?rest = "CHR 0x0A # drop (Suc (length (dec_int pid))) old"
  have o: "overwrite (dec_int pid @ nl) old = dec_int pid @ ?rest"
    by (simp add: overwrite_def)
  have "atoi (dec_int pid @ ?rest) = pid"
    using assms by (intro atoi_dec_int) simp_all
  moreover have "dropWhile isspace (dec_int pid @ ?rest) = dec_int pid @ ?rest"
      "hd (dec_int pid @ ?rest) \<notin> {CHR ''-'', CHR ''+''}"
      "takeWhile isdigit (dec_int pid @ ?rest) \<noteq> []"
    using assms(1) hd_dec [of "nat pid" ?rest] takeWhile_dec [of ?rest "nat pid"]
    by (auto simp: dec_int_def isdigit_not_isspace dropWhile_eq_self_iff)
  ultimately show ?thesis
    by (simp add: scan_int_def o)
qed

end
