(* ===== verification/Samples.thy ===== *)
theory Samples
  imports Runs Dump_Config Startup
begin

text \<open>
  A concrete router, on which the theorems with hypotheses are applied: one Ethernet interface with
  a link-local and a global address, a configuration that advertises a prefix, a route, a name
  server and a search list, and a kernel whose answers fit it. The clock advances by one second
  with every call, the random numbers are all zero, and every packet is accepted.
\<close>

definition sample_prefix :: AdvPrefix where
  "sample_prefix = prefix_init_defaults\<lparr>Prefix := 0x20010db8000000010000000000000000, PrefixLen := 64\<rparr>"

definition sample_route :: AdvRoute where
  "sample_route = \<lparr>Route_Prefix = 0xfd000000000000000000000000000000, Route_PrefixLen = 48,
     AdvRoutePreference = 0, AdvRouteLifetime = 1800, RemoveRouteFlag = True\<rparr>"

definition sample_rdnss :: AdvRDNSS where
  "sample_rdnss = \<lparr>AdvRDNSSLifetime = 1800, FlushRDNSSFlag = True,
     AdvRDNSSAddr = [0x20010db8000000010000000000000053]\<rparr>"

definition sample_dnssl :: AdvDNSSL where
  "sample_dnssl = \<lparr>AdvDNSSLLifetime = 1800, FlushDNSSLFlag = True,
     AdvDNSSLSuffixes = [''example.org'']\<rparr>"

definition sample_iface :: Interface where
  "sample_iface = iface_init_defaults\<lparr>
     props := (props iface_init_defaults)\<lparr>name := ''eth0''\<rparr>,
     AdvSendAdvert := True, AdvLinkMTU := 1500, AdvPrefixList := [sample_prefix],
     AdvRouteList := [sample_route], AdvRDNSSList := [sample_rdnss],
     AdvDNSSLList := [sample_dnssl]\<rparr>"

definition sample_ll :: in6_addr where
  "sample_ll = 0xfe800000000000000000000000000001"

definition sample_kernel :: kernel where
  "sample_kernel = \<lparr>
     if_nametoindex = (\<lambda>n. if n = ''eth0'' then 2 else 0),
     if_indextoname = (\<lambda>i. if i = 2 then Some ''eth0'' else None),
     SIOCGIFFLAGS = (\<lambda>_. Some 0x1043), SIOCGIFMTU = (\<lambda>_. Some 1500),
     SIOCGIFHWADDR = (\<lambda>_. Some (1, [2, 0, 0, 0, 0, 1] @ replicate 16 0)),
     SIOCGIFADDR = (\<lambda>_. None),
     getifaddrs = Some
       [\<lparr>ifa_name = ''eth0'', ifa_addr = Some (AF_INET6 0x20010db8000000010000000000000001),
         ifa_netmask = 0xffffffffffffffff0000000000000000\<rparr>,
        \<lparr>ifa_name = ''eth0'', ifa_addr = Some (AF_INET6 sample_ll),
         ifa_netmask = 0xffffffffffffffff0000000000000000\<rparr>],
     proc_linkmtu = (\<lambda>_. Proc_value 1500), proc_iface_forwarding = (\<lambda>_. Proc_value 1),
     proc_forwarding = Proc_value 1, nl_addresses = Some [], nl_link_attrs = (\<lambda>_. None),
     join_result = (\<lambda>_. Sockopt_ok)\<rparr>"

definition sample_world :: world where
  "sample_world = \<lparr>
     kern = sample_kernel, clock = (\<lambda>n. \<lparr>tv_sec = int n, tv_nsec = 0\<rparr>), ticks = 0,
     rand_seq = (\<lambda>_. 0), rands = 0, sendmsg_result = (\<lambda>_. 100), sent = [], group_ops = [],
     privsep_out = [], warned = False\<rparr>"

text \<open>The interface as its setup leaves it.\<close>

definition sample_ready :: Interface where
  "sample_ready = sample_iface\<lparr>
     MinRtrAdvInterval := 198,
     state_info := \<lparr>ready = True, changed = False, cease_adv = False, racount = 0\<rparr>,
     props := \<lparr>name = ''eth0'', if_index = 2, if_addr = sample_ll,
       if_addrs = [0x20010db8000000010000000000000001, sample_ll, 0], addrs_count = 2,
       if_addr_rasrc = Rasrc_if_addr, max_ra_option_size = 1210\<rparr>,
     ra_header_info := (ra_header_info sample_iface)\<lparr>AdvDefaultLifetime := 1800\<rparr>,
     sllao := \<lparr>if_hwaddr = [2, 0, 0, 0, 0, 1, 0, 0, 0, 0, 0, 0, 0, 0, 0, 0],
       if_hwaddr_len = 48, if_prefix_len = 64, if_maxmtu = 1500\<rparr>,
     mipv6 := (mipv6 sample_iface)\<lparr>HomeAgentLifetime := 1800\<rparr>\<rparr>"

lemmas sample_iface_defs = sample_prefix_def sample_route_def sample_rdnss_def sample_dnssl_def
  sample_iface_def sample_ready_def sample_ll_def
  iface_init_defaults_def prefix_init_defaults_def Interface_zero_def timespec_zero_def

lemmas sample_defs = sample_iface_defs sample_kernel_def sample_world_def

lemma sample_wire: "wire_config_ok sample_ready"
  by (simp add: sample_defs wire_config_ok_def)

lemma sample_dnssl_ok: "list_all dnssl_ok (AdvDNSSLList sample_ready)"
  by (simp add: sample_defs dnssl_ok_def name_ok_def name_labels_def wire_name_def wire_domain_def
      dnssl_domains_def label_ok_def string_bytes_def)

lemma sample_ready_to_send: "ready_to_send sample_ready"
  by (simp add: sample_defs ready_to_send_def iface_ranges_def rasrc_address_def)

lemma sample_static: "iface_static sample_iface" "iface_static sample_ready"
  by (simp_all add: sample_defs iface_static_def)

lemma sample_sendable: "AdvSendAdvert sample_ready" "sendable sample_ready"
  using sample_ready_to_send sample_static sample_dnssl_ok
  by (simp_all add: sendable_def) (simp_all add: sample_defs)

lemma sample_kernel_ok: "kernel_ok (kern sample_world)"
  by (simp add: sample_defs kernel_ok_def)

lemma sample_sends_succeed: "sends_succeed sample_world"
  by (simp add: sample_defs sends_succeed_def)

lemma sample_prefix_config_ok: "prefix_config_ok sample_prefix"
  by (simp add: sample_defs prefix_config_ok_def prefix_ok_def)

lemma sample_iface_ok: "iface_ok sample_iface" "iface_ok sample_ready"
  using sample_static sample_ready_to_send sample_prefix_config_ok
  by (simp_all add: iface_ok_def iface_inv_def addrs_ok_def portal_ok_def)
     (simp_all add: sample_iface_def sample_ready_def iface_init_defaults_def Interface_zero_def)

lemma sample_world_ok: "world_ok sample_world"
  using sample_kernel_ok by (simp add: world_ok_def packets_wf_def) (simp add: sample_defs)

lemma sample_setup: "\<exists>w'. setup_iface sample_iface sample_world = Some (0, sample_ready, w')"
proof -
  have "map_option (\<lambda>(rc, i, w). (rc, i)) (setup_iface sample_iface sample_world) = Some (0, sample_ready)"
    by code_simp
  then show ?thesis by auto
qed

lemma sample_limit: "limit_prefix_lifetimes sample_kernel p = p"
  by (simp add: limit_prefix_lifetimes_def get_prefix_lifetimes_def netlink_get_address_lifetimes_def
      sample_kernel_def)

lemma sample_names:
  "list_all (\<lambda>p. PrefixLen p \<le> 128) (AdvPrefixList sample_ready)"
  "list_all (\<lambda>r. AdvRDNSSAddr r \<noteq> []) (AdvRDNSSList sample_ready)"
  "list_all dns_names (AdvDNSSLList sample_ready)"
  by (simp_all add: dns_names_def name_labels_def sample_iface_defs)

text \<open>A solicitation from a host is answered.\<close>

lemma sample_solicited:
  "\<exists>interfaces' w' logs. process [sample_ready] [133, 0, 0, 0, 0, 0, 0, 0] 5 (Some 2) 255 sample_world =
     Some (interfaces', w', logs) \<and> sent w' \<noteq> sent sample_world"
proof -
  let ?w = "sample_world\<lparr>ticks := 1, rands := 1\<rparr>"
  have "sends_succeed ?w"
    using sample_sends_succeed by (simp add: sends_succeed_def)
  moreover have "ready (state_info sample_ready)"
    by (simp add: sample_ready_def)
  ultimately obtain i' w' pkts where s: "send_ra_forall sample_ready (Some 5) ?w = Some (0, i', w')"
    "sent w' = sent ?w @ pkts" "pkt_dest ` set pkts = set (ra_targets sample_ready (Some 5))"
    using send_ra_forall_reaches [OF sample_sendable, of ?w "Some 5"] by blast
  have "ClientList sample_ready = []"
    by (simp add: sample_defs)
  then have "pkts \<noteq> []"
    using s(3) by (auto simp: ra_targets_def)
  moreover have "process_rs sample_ready [133, 0, 0, 0, 0, 0, 0, 0] 5 sample_world = Some (i', w')"
    using s(1) by (simp add: process_rs_def rs_options.simps clock_gettime_def c_rand_def Let_def)
      (simp add: sample_defs IN6_IS_ADDR_UNSPECIFIED_def)
  ultimately show ?thesis
    using s(2) by (simp add: process_def find_iface_by_index_def Let_def)
      (simp add: sample_ready_def)
qed

text \<open>The interface when its initial advertisements are over.\<close>

definition sample_settled :: Interface where
  "sample_settled = sample_ready\<lparr>state_info := (state_info sample_ready)\<lparr>racount := 3\<rparr>\<rparr>"

lemma sample_checked: "check_iface sample_kernel sample_ready = Some (0, sample_ready)"
  by code_simp

lemma sample_device_info: "\<exists>iface'. update_device_info sample_kernel sample_iface = Some (0, iface')"
proof -
  have "map_option fst (update_device_info sample_kernel sample_iface) = Some 0"
    by code_simp
  then show ?thesis by auto
qed

lemma sample_startup: "\<exists>d. startup (Some [sample_iface]) sample_world = Some d"
proof -
  obtain w1 where s: "setup_iface sample_iface sample_world = Some (0, sample_ready, w1)"
    using sample_setup by blast
  let ?w = "config_interface sample_ready w1"
  let ?i = "sample_ready\<lparr>times := (times sample_ready)\<lparr>last_ra_time := clock ?w (ticks ?w),
    last_multicast := clock ?w (Suc (ticks ?w))\<rparr>\<rparr>"
  have "sends_succeed ?w"
    using setup_iface_sent [OF s] sample_sends_succeed
    by (simp add: sends_succeed_def config_interface_def set_interface_defs Let_def)
  then have "sends_succeed (?w\<lparr>ticks := Suc (Suc (ticks ?w))\<rparr>)"
    by (simp add: sends_succeed_def)
  moreover have "sendable ?i"
    using sample_sendable(2)
    by (simp add: sendable_def ready_to_send_def iface_static_def iface_ranges_def)
  moreover have "AdvSendAdvert ?i" "ready (state_info ?i)" "\<not> UnicastOnly ?i"
    by (simp_all add: sample_iface_defs)
  ultimately obtain i' w' where
    "send_ra_forall ?i None (?w\<lparr>ticks := Suc (Suc (ticks ?w))\<rparr>) = Some (0, i', w')"
    using send_ra_forall_reaches [of ?i "?w\<lparr>ticks := Suc (Suc (ticks ?w))\<rparr>" None] by blast
  then have "\<exists>i'' w''. kickoff_adverts sample_ready ?w = Some (i'', w'')"
    using \<open>\<not> UnicastOnly ?i\<close>
    by (simp add: kickoff_adverts_def clock_gettime_def Let_def)
  then have "\<exists>i'' w''. setup_iface_foo sample_iface sample_world = Some (i'', w'')"
    using s by (simp add: setup_iface_foo_def)
  moreover have "check_ip6_forwarding sample_world = Some (0, sample_world)"
    by (simp add: check_ip6_forwarding_def) (simp add: sample_defs)
  ultimately show ?thesis
    by (auto simp: startup_def setup_ifaces_def)
qed

definition sample_daemon :: daemon where
  "sample_daemon = \<lparr>ifaces = [sample_ready], sigs = \<lparr>sighup_received = False, sigint_received = 0,
     sigterm_received = 1, sigusr1_received = False\<rparr>, wld = sample_world\<rparr>"

lemma sample_daemon_ok: "daemon_ok sample_daemon"
  using sample_iface_ok sample_world_ok by (simp add: daemon_ok_def sample_daemon_def)

lemma sample_stop:
  "\<not> UnicastOnly sample_ready" "RemoveAdvOnExit sample_ready" "ready (state_info sample_ready)"
  by (simp_all add: sample_iface_defs)

lemma sample_shutdown: "\<exists>ifs w. shutdown sample_daemon = Some (ifs, w)"
proof -
  obtain i' w' where "stop_advert_foo sample_ready sample_world = Some (i', w')"
    using stop_advert_foo_reaches [OF sample_stop(1,2) sample_sendable sample_stop(3)
        sample_sends_succeed sample_iface_ok(2) sample_world_ok] by blast
  moreover obtain w'' where "cleanup_ifaces [i'] w' = Some ([i'], w'')"
    using cleanup_ifaces_returns by blast
  ultimately show ?thesis
    by (simp add: shutdown_def stop_adverts_def sample_daemon_def)
qed

text \<open>A helper that can open every file, and a pipe that moves one byte at a time.\<close>

definition sample_procfs :: procfs where
  "sample_procfs = \<lparr>open_file = (\<lambda>_. Writable), written = []\<rparr>"

lemma sample_named:
  "plain_name (name (props sample_ready))" "CHR 0x00 \<notin> set (name (props sample_ready))"
  by (simp_all add: sample_ready_def plain_name_def)

lemma sample_writable: "\<forall>path. open_file sample_procfs path = Writable"
  by (simp add: sample_procfs_def)

lemma sample_script: "undisturbed (replicate 97 (Moved 1))" "96 < moves (replicate 97 (Moved 1))"
  by (simp_all add: undisturbed_def)

lemma sample_helper:
  "privsep_read_loop (replicate 97 (Moved 1)) (concat (map command_bytes (config_commands sample_ready)))
     sample_procfs = Some (sample_procfs\<lparr>written := written sample_procfs @ config_writes sample_ready\<rparr>)"
  using config_interface_applied [OF sample_named sample_writable sample_script, of sample_world]
  by (simp add: config_interface_commands)

text \<open>The advertisement of the sample router as the dump tool receives it.\<close>

lemma sample_dump_config: "dump_config_ok sample_ready"
  by (simp add: dump_config_ok_def sample_iface_defs preference_ok_def shown_name_def name_ok_def
      name_labels_def label_ok_def Let_def)

lemma sample_config_shown: "config_shown sample_kernel sample_ready"
  by code_simp

definition sample_solicitation :: recvmsg_result where
  "sample_solicitation = \<lparr>rm_len = 8, rm_data = [133, 0, 0, 0, 0, 0, 0, 0], rm_addr = 5,
     rm_cmsgs = [Cmsg_PKTINFO 36 2, Cmsg_HOPLIMIT 20 64]\<rparr>"

definition sample_advert :: recvmsg_result where
  "sample_advert = \<lparr>rm_len = 24, rm_data = ra_header_image (ra_header_info sample_ready) False @ mtu_option_image 1500,
     rm_addr = 5, rm_cmsgs = [Cmsg_PKTINFO 36 2]\<rparr>"

lemma sample_names_safe: "if_indextoname sample_kernel i = Some n \<Longrightarrow> safe_text n"
  by (auto simp: sample_kernel_def split: if_split_asm)

text \<open>A configuration file for an interface that the kernel does not have.\<close>

definition sample_text :: string where
  "sample_text = ''interface eth1{AdvSendAdvert on;};''"

definition sample_missing :: Interface where
  "sample_missing = iface_init_defaults\<lparr>props := (props iface_init_defaults)\<lparr>name := ''eth1''\<rparr>,
     AdvSendAdvert := True, lineno := 1\<rparr>"

lemma sample_tokens:
  "scan 1 sample_text = [(KEYWORD T_INTERFACE, 1), (STRING ''eth1'', 1), (LITERAL CHR ''{'', 1),
     (KEYWORD T_AdvSendAdvert, 1), (SWITCH True, 1), (LITERAL CHR '';'', 1), (LITERAL CHR ''}'', 1),
     (LITERAL CHR '';'', 1)]"
  by code_simp

lemma sample_text_config: "readin_config (Some sample_text) = Some [sample_missing]"
  by (simp add: readin_config_def yyparse_def sample_tokens grammar.simps ifacedef_def block_def
      expect_def next_is_def plist.simps ifaceparam_def ifaceval_def assign_def ifname_def sample_missing_def)

lemma sample_missing_setup:
  "\<exists>i w. setup_iface sample_missing sample_world = Some (-1, i, w) \<and> IgnoreIfMissing i"
proof -
  have "map_option (\<lambda>(rc, i, w). (rc, IgnoreIfMissing i)) (setup_iface sample_missing sample_world) = Some (-1, True)"
    by code_simp
  then show ?thesis by auto
qed

lemma sample_text_startup: "\<exists>d. startup (readin_config (Some sample_text)) sample_world = Some d"
proof -
  have "check_ip6_forwarding sample_world = Some (0, sample_world)"
    by (simp add: check_ip6_forwarding_def) (simp add: sample_defs)
  with sample_missing_setup show ?thesis
    by (auto simp: sample_text_config startup_def setup_ifaces_def setup_iface_foo_def)
qed

text \<open>The same kernel with forwarding switched off.\<close>

definition sample_not_forwarding :: world where
  "sample_not_forwarding = sample_world\<lparr>kern := sample_kernel\<lparr>proc_forwarding := Proc_value 0\<rparr>\<rparr>"

lemma sample_starts: "\<exists>d. startup (Some [sample_missing]) sample_not_forwarding = Some d"
proof -
  let ?w = "sample_not_forwarding\<lparr>warned := True\<rparr>"
  have "map_option (\<lambda>(rc, i, w). (rc, IgnoreIfMissing i)) (setup_iface sample_missing ?w) = Some (-1, True)"
    by code_simp
  then obtain i w where "setup_iface sample_missing ?w = Some (-1, i, w)" "IgnoreIfMissing i" by auto
  moreover have "check_ip6_forwarding sample_not_forwarding = Some (-1, ?w)"
    by (simp add: check_ip6_forwarding_def) (simp add: sample_not_forwarding_def sample_defs)
  ultimately show ?thesis
    by (auto simp: startup_def setup_ifaces_def setup_iface_foo_def)
qed

text \<open>A system on which the daemon starts as the user \<^verbatim>\<open>radvd\<close> and without daemonising.\<close>

definition sample_answer :: "syscall \<Rightarrow> int" where
  "sample_answer c =
     (case c of
        Sys_write fd s \<Rightarrow> int (length s)
      | Sys_fork \<Rightarrow> 77
      | Sys_getpid \<Rightarrow> 42
      | Sys_fopen p \<Rightarrow> 1
      | Sys_socket \<Rightarrow> 3
      | Sys_setuid u \<Rightarrow> (if u = 0 then -1 else 0)
      | Sys_seteuid u \<Rightarrow> -1
      | _ \<Rightarrow> 0)"

definition sample_system :: system where
  "sample_system = \<lparr>
     answer = (\<lambda>t. sample_answer),
     stat_buf = (\<lambda>t p. \<lparr>st_mode = 0x81A4, st_uid = 0, st_gid = 0\<rparr>),
     getpwnam = (\<lambda>u. if u = ''radvd'' then Some \<lparr>pw_uid = 110, pw_gid = 65534\<rparr> else None),
     piped_pid = (\<lambda>t. 0), file_text = (\<lambda>t p. ''42'' @ nl),
     conf_text = (\<lambda>p. Some sample_text),
     sys_log_env = \<lparr>env_pid = 42, env_tstamp = [], env_fopen = (\<lambda>p. None)\<rparr>\<rparr>"

definition sample_args :: "string list" where
  "sample_args = [''-n'', ''-u'', ''radvd'']"

lemma sample_options:
  "parse_options (getopt_long OPTIONS_STR prog_opt sample_args) options_init =
    Some (options_init\<lparr>daemonize := False, username := Some ''radvd''\<rparr>)"
  by (simp add: sample_args_def OPTIONS_STR_def parse_option_def)

lemma sample_sys [simp]: "sys sample_system c t k = k (sample_answer c) (t @ [(c, sample_answer c)])"
  by (simp add: sys_def sample_system_def)

lemma sample_fields [simp]:
  "stat_buf sample_system t p = \<lparr>st_mode = 0x81A4, st_uid = 0, st_gid = 0\<rparr>"
  "getpwnam sample_system ''radvd'' = Some \<lparr>pw_uid = 110, pw_gid = 65534\<rparr>"
  "file_text sample_system t p = ''42'' @ nl"
  "readin_config (conf_text sample_system p) = Some [sample_missing]"
  by (simp_all add: sample_system_def sample_text_config)

lemmas sample_startup_defs = enter_chroot_def check_conffile_perm_def read_configuration_def become_server_def
  open_icmpv6_socket_def open_and_lock_pid_file_def open_pid_file_def pid_file_or_daemon_def
  write_pid_file_def check_pid_file_def start_privsep_def change_user_def drop_root_privileges_def
  S_IWUSR_def S_IWGRP_def S_IWOTH_def

lemma sample_serves:
  "\<exists>srv t. radvd_main sample_system ''radvd'' sample_args = Serve srv t \<and> srv_user srv = Some ''radvd''"
proof -
  have pid: "dec_int 42 = ''42''" "scan_int [CHR ''4'', CHR ''2'', CHR 0x0A] = Some 42" by code_simp+
  let ?opts = "options_init\<lparr>daemonize := False, username := Some ''radvd''\<rparr>"
  have "effective_method ?opts = L_STDERR"
    by (simp add: effective_method_def options_init_def log_methods)
  then have "fst (log_open e (effective_method ?opts) i p f st) = 0" for e i p f st
    by (simp add: log_open_stderr)
  moreover have "chrootdir ?opts = None" "username ?opts = Some ''radvd''" "\<not> configtest ?opts" "\<not> daemonize ?opts"
    by (simp_all add: options_init_def)
  ultimately show ?thesis
    unfolding radvd_main_def sample_options
    by (simp add: sample_startup_defs pid strncmp_root case_prod_beta icmpv6_options_def sample_answer_def
        Let_def del: options.simps)
qed

lemma sample_reads: "reads_config (outcome_trace (radvd_main sample_system ''radvd'' sample_args))"
proof -
  obtain srv t where s: "radvd_main sample_system ''radvd'' sample_args = Serve srv t"
    using sample_serves by blast
  with radvd_main_serving [of sample_system "''radvd''" sample_args] have "serving sample_system srv t" by simp
  then have "reads_config t"
    unfolding serving_def by (cases "srv_user srv") fastforce+
  with s show ?thesis by simp
qed

end
