(* ===== verification/Device_Bsd.thy ===== *)
theory Device_Bsd
  imports Device
begin

text \<open>
  \<^verbatim>\<open>device-bsd44.c\<close>: the device queries of the BSD build, which replaces \<^verbatim>\<open>device-linux.c\<close>, and what
  both ports promise to the rest of the program.
\<close>

text \<open>
  The addresses that \<^verbatim>\<open>getifaddrs\<close> reports there: a link-level one has its type (of \<^verbatim>\<open>net/if_types.h\<close>) and
  its bytes. \<open>bsd_mtu\<close> is the answer to \<^verbatim>\<open>SIOCGIFMTU\<close>.
\<close>

datatype bsd_sockaddr = AF_LINK nat "byte list" | BSD_OTHER

record bsd_system =
  bsd_mtu :: "string \<Rightarrow> int option"
  bsd_ifaddrs :: "(string \<times> bsd_sockaddr option) list option"

definition IFT_ETHER :: nat where "IFT_ETHER = 6"
definition IFT_ISO88023 :: nat where "IFT_ISO88023 = 7"
definition IFT_FDDI :: nat where "IFT_FDDI = 15"

text \<open>The first link-level address of the interface.\<close>

fun find_link :: "string \<Rightarrow> (string \<times> bsd_sockaddr option) list \<Rightarrow> (nat \<times> byte list) option" where
  "find_link n [] = None"
| "find_link n ((m, a) # rest) =
     (if m \<noteq> n then find_link n rest
      else case a of
             Some (AF_LINK ty lladdr) \<Rightarrow> Some (ty, lladdr)
           | _ \<Rightarrow> find_link n rest)"

definition bsd_ra_size :: "u32 \<Rightarrow> int \<Rightarrow> u32" where
  "bsd_ra_size ramtu maxmtu = min ramtu (word_of_int (max maxmtu 1280))"

definition bsd_params :: "int \<Rightarrow> nat \<Rightarrow> int \<times> int \<times> u32" where
  "bsd_params maxmtu ty =
     (if ty = IFT_ETHER \<or> ty = IFT_ISO88023 then (64, maxmtu, 14)
      else if ty = IFT_FDDI then (64, maxmtu, 22)
      else (-1, -1, 0))"

text \<open>The label \<^verbatim>\<open>ret\<close>.\<close>

definition bsd_failed :: "Interface \<Rightarrow> int \<times> Interface" where
  "bsd_failed iface =
     (-1, iface\<lparr>sllao := (sllao iface)\<lparr>if_maxmtu := -1, if_hwaddr_len := -1, if_prefix_len := -1\<rparr>\<rparr>)"

definition bsd_update_device_info :: "bsd_system \<Rightarrow> Interface \<Rightarrow> int \<times> Interface" where
  "bsd_update_device_info k iface =
     (case bsd_mtu k (name (props iface)) of
        None \<Rightarrow> bsd_failed iface
      | Some mtu \<Rightarrow>
          (let size = bsd_ra_size (AdvRAMTU iface) mtu;
               iface = iface\<lparr>sllao := (sllao iface)\<lparr>if_maxmtu := mtu\<rparr>,
                 props := (props iface)\<lparr>max_ra_option_size := size\<rparr>\<rparr>
           in case bsd_ifaddrs k of
                None \<Rightarrow> bsd_failed iface
              | Some addresses \<Rightarrow>
                  (case find_link (name (props iface)) addresses of
                     None \<Rightarrow> bsd_failed iface
                   | Some (ty, lladdr) \<Rightarrow>
                       if length lladdr > 16 then bsd_failed iface
                       else let (plen, maxmtu, overhead) = bsd_params mtu ty
                            in (0, iface\<lparr>sllao := \<lparr>
                                  if_hwaddr = lladdr @ drop (length lladdr) (if_hwaddr (sllao iface)),
                                  if_hwaddr_len = 8 * int (length lladdr),
                                  if_prefix_len = plen, if_maxmtu = maxmtu\<rparr>,
                                props := (props iface)\<lparr>max_ra_option_size := size - overhead - 40 - 16\<rparr>\<rparr>))))"

definition bsd_setup_allrouters_membership :: "Interface \<Rightarrow> world \<Rightarrow> int \<times> world" where
  "bsd_setup_allrouters_membership iface w =
     (let idx = if_index (props iface)
      in case join_result (kern w) idx of
           Sockopt_ok \<Rightarrow> (0, w\<lparr>group_ops := group_ops w @ [ADD_MEMBERSHIP idx all_routers]\<rparr>)
         | Sockopt_EADDRINUSE \<Rightarrow> (0, w)
         | Sockopt_error \<Rightarrow> (-1, w))"

definition bsd_cleanup_allrouters_membership :: "Interface \<Rightarrow> world \<Rightarrow> int \<times> world" where
  "bsd_cleanup_allrouters_membership iface w = (0, w)"

text \<open>Nothing of the interface can be set, and forwarding is not looked up.\<close>

definition bsd_set_interface :: "string \<Rightarrow> u32 \<Rightarrow> world \<Rightarrow> int \<times> world" where
  "bsd_set_interface ifn v w = (-1, w)"

definition bsd_check_ip6_forwarding :: "world \<Rightarrow> int \<times> world" where
  "bsd_check_ip6_forwarding w = (0, w)"

definition bsd_check_ip6_iface_forwarding :: "string \<Rightarrow> int" where
  "bsd_check_ip6_iface_forwarding ifn = 1"

subsection \<open>What a port promises\<close>

text \<open>
  A successful update leaves a size for advertisements that the MTU of the device and the configured MTU
  both allow, leaves room for options, keeps the configuration, and reads a link-level address of at
  most 16 bytes into the array of 16 bytes.
\<close>

locale device_port =
  fixes update :: "'k \<Rightarrow> Interface \<Rightarrow> (int \<times> Interface) option"
    and mtu_of :: "'k \<Rightarrow> string \<Rightarrow> int option"
  assumes size_bounds: "update k iface = Some (0, iface') \<Longrightarrow> mtu_of k (name (props iface)) = Some mtu \<Longrightarrow>
      mtu < 2 ^ 31 \<Longrightarrow> 1280 \<le> AdvRAMTU iface \<Longrightarrow>
      1202 \<le> uint (max_ra_option_size (props iface')) \<and>
      uint (max_ra_option_size (props iface')) + 56 \<le> uint (AdvRAMTU iface) \<and>
      uint (max_ra_option_size (props iface')) + 56 \<le> max mtu 1280"
    and mtu_known: "update k iface = Some (0, iface') \<Longrightarrow> mtu_of k (name (props iface)) \<noteq> None"
begin

text \<open>A packet that keeps to the size fits the link: 40 bytes of IPv6 header go in front of it.\<close>

lemma packet_fits:
  assumes "update k iface = Some (0, iface')" and "\<And>mtu. mtu_of k (name (props iface)) = Some mtu \<Longrightarrow> mtu < 2 ^ 31"
    and "1280 \<le> AdvRAMTU iface" and "int (length data) \<le> uint (max_ra_option_size (props iface'))"
  shows "\<exists>mtu. mtu_of k (name (props iface)) = Some mtu \<and> int (length data) + 40 \<le> max mtu 1280 \<and>
    int (length data) + 40 \<le> uint (AdvRAMTU iface)"
proof -
  obtain mtu where mtu: "mtu_of k (name (props iface)) = Some mtu"
    using mtu_known [OF assms(1)] by blast
  from size_bounds [OF assms(1) mtu assms(2) [OF mtu] assms(3)] assms(4) mtu show ?thesis
    by auto
qed

end

interpretation linux_port: device_port update_device_info SIOCGIFMTU
proof unfold_locales
  fix k iface iface' mtu
  assume u: "update_device_info k iface = Some (0, iface')"
  then show "SIOCGIFMTU k (name (props iface)) \<noteq> None"
    by (cases "SIOCGIFMTU k (name (props iface))") (simp_all add: update_device_info_def)
  assume "SIOCGIFMTU k (name (props iface)) = Some mtu" "mtu < 2 ^ 31" "1280 \<le> AdvRAMTU iface"
  from update_device_info_size [OF u this] show
    "1202 \<le> uint (max_ra_option_size (props iface')) \<and>
      uint (max_ra_option_size (props iface')) + 56 \<le> uint (AdvRAMTU iface) \<and>
      uint (max_ra_option_size (props iface')) + 56 \<le> max mtu 1280" by simp
qed

lemma bsd_ra_size_limit: "bsd_ra_size ramtu mtu = ra_size_limit ramtu mtu (-1)"
  by (simp add: bsd_ra_size_def ra_size_limit_def Let_def max_absorb1)

lemma bsd_update_0:
  assumes "bsd_update_device_info k iface = (0, iface')"
  obtains mtu overhead where "bsd_mtu k (name (props iface)) = Some mtu" "overhead \<in> {0, 14, 22}"
    "max_ra_option_size (props iface') = ra_size_limit (AdvRAMTU iface) mtu (-1) - overhead - 40 - 16"
  using assms
  by (auto simp: bsd_update_device_info_def bsd_failed_def bsd_params_def bsd_ra_size_limit Let_def
      split: option.split_asm if_split_asm)

interpretation bsd_port: device_port "\<lambda>k iface. Some (bsd_update_device_info k iface)" bsd_mtu
proof unfold_locales
  fix k iface iface' mtu
  assume "Some (bsd_update_device_info k iface) = Some (0, iface')"
  then have "bsd_update_device_info k iface = (0, iface')" by simp
  from bsd_update_0 [OF this] obtain m overhead where m: "bsd_mtu k (name (props iface)) = Some m"
    and o: "overhead \<in> {0, 14, 22}"
    and s: "max_ra_option_size (props iface') = ra_size_limit (AdvRAMTU iface) m (-1) - overhead - 40 - 16"
    by blast
  from m show "bsd_mtu k (name (props iface)) \<noteq> None" by simp
  assume "bsd_mtu k (name (props iface)) = Some mtu" "mtu < 2 ^ 31" "1280 \<le> AdvRAMTU iface"
  with m have b: "1280 \<le> ra_size_limit (AdvRAMTU iface) m (-1)"
      "ra_size_limit (AdvRAMTU iface) m (-1) \<le> AdvRAMTU iface"
      "uint (ra_size_limit (AdvRAMTU iface) m (-1)) \<le> max mtu 1280"
    using ra_size_limit_bounds [of m "AdvRAMTU iface" "-1"] by simp_all
  have "0 \<le> uint overhead" "uint overhead \<le> 22"
    using o by auto
  moreover have "uint (max_ra_option_size (props iface')) =
      uint (ra_size_limit (AdvRAMTU iface) m (-1)) - uint overhead - 56"
    unfolding s by (rule sub_size [OF b(1) o])
  moreover have "1280 \<le> uint (ra_size_limit (AdvRAMTU iface) m (-1))"
      "uint (ra_size_limit (AdvRAMTU iface) m (-1)) \<le> uint (AdvRAMTU iface)"
    using b by (simp_all add: word_le_def)
  ultimately show
    "1202 \<le> uint (max_ra_option_size (props iface')) \<and>
      uint (max_ra_option_size (props iface')) + 56 \<le> uint (AdvRAMTU iface) \<and>
      uint (max_ra_option_size (props iface')) + 56 \<le> max mtu 1280"
    using b(3) by linarith
qed

text \<open>The array of the link-level address keeps its 16 bytes.\<close>

lemma bsd_update_hwaddr:
  assumes "bsd_update_device_info k iface = (rc, iface')" and "length (if_hwaddr (sllao iface)) = 16"
  shows "length (if_hwaddr (sllao iface')) = 16 \<and> nat (if_hwaddr_len (sllao iface')) div 8 \<le> 16"
  using assms
  by (auto simp: bsd_update_device_info_def bsd_failed_def bsd_params_def Let_def
      split: option.split_asm if_split_asm)

end
