(* ===== verification/Memory.thy ===== *)
theory Memory
  imports Radvd_Types
begin

text \<open>
  \<open>free_ifaces\<close> of \<^verbatim>\<open>interface.c\<close>: which of the blocks of memory that belong to a list of interfaces it
  frees, in which order. A block is named by the interface it belongs to and its place in the lists of
  that interface. No block is freed twice and no block is freed that the interface does not own; the
  blocks it leaves are those of four lists that the function does not visit.
\<close>

datatype memblock =
    Mem_iface nat
  | Mem_prefix nat nat
  | Mem_route nat nat
  | Mem_rdnss nat nat
  | Mem_rdnss_addrs nat nat
  | Mem_dnssl nat nat
  | Mem_dnssl_suffix nat nat nat
  | Mem_dnssl_suffixes nat nat
  | Mem_ignore nat nat
  | Mem_client nat nat
  | Mem_if_addrs nat
  | Mem_portal nat
  | Mem_nat64 nat nat
  | Mem_lowpanco nat nat
  | Mem_abro nat nat
  | Mem_rasrc nat nat

text \<open>The blocks of the elements of a list.\<close>

definition nodes :: "(nat \<Rightarrow> memblock list) \<Rightarrow> 'a list \<Rightarrow> memblock list" where
  "nodes f xs = concat (map f [0..<length xs])"

definition dnssl_blocks :: "nat \<Rightarrow> AdvDNSSL list \<Rightarrow> memblock list" where
  "dnssl_blocks i ds =
     nodes (\<lambda>j. map (Mem_dnssl_suffix i j) [0..<length (AdvDNSSLSuffixes (ds ! j))] @
       [Mem_dnssl_suffixes i j, Mem_dnssl i j]) ds"

text \<open>\<^verbatim>\<open>free(NULL)\<close> does nothing.\<close>

definition free_iface :: "nat \<Rightarrow> Interface \<Rightarrow> memblock list" where
  "free_iface i iface =
     nodes (\<lambda>j. [Mem_prefix i j]) (AdvPrefixList iface) @
     nodes (\<lambda>j. [Mem_route i j]) (AdvRouteList iface) @
     nodes (\<lambda>j. [Mem_rdnss_addrs i j, Mem_rdnss i j]) (AdvRDNSSList iface) @
     dnssl_blocks i (AdvDNSSLList iface) @
     nodes (\<lambda>j. [Mem_ignore i j]) (IgnorePrefixList iface) @
     nodes (\<lambda>j. [Mem_client i j]) (ClientList iface) @
     (if if_addrs (props iface) = [] then [] else [Mem_if_addrs i]) @
     (if AdvCaptivePortalAPI iface = None then [] else [Mem_portal i]) @
     [Mem_iface i]"

fun free_iface_list :: "nat \<Rightarrow> Interface list \<Rightarrow> memblock list" where
  "free_iface_list i [] = []"
| "free_iface_list i (iface # rest) = free_iface i iface @ free_iface_list (Suc i) rest"

definition free_ifaces :: "Interface list \<Rightarrow> memblock list" where
  "free_ifaces ifs = free_iface_list 0 ifs"

subsection \<open>What is owned, freed and left\<close>

text \<open>The blocks of the lists that \<open>free_iface_list\<close> does not visit.\<close>

definition left_blocks :: "nat \<Rightarrow> Interface \<Rightarrow> memblock list" where
  "left_blocks i iface =
     nodes (\<lambda>j. [Mem_nat64 i j]) (NAT64PrefixList iface) @
     nodes (\<lambda>j. [Mem_lowpanco i j]) (AdvLowpanCoList iface) @
     nodes (\<lambda>j. [Mem_abro i j]) (AdvAbroList iface) @
     nodes (\<lambda>j. [Mem_rasrc i j]) (AdvRASrcAddressList iface)"

text \<open>Everything that belongs to an interface, as the grammar and the setup have allocated it.\<close>

definition iface_owned :: "nat \<Rightarrow> Interface \<Rightarrow> memblock set" where
  "iface_owned i iface = {Mem_iface i} \<union>
     {Mem_prefix i j |j. j < length (AdvPrefixList iface)} \<union>
     {Mem_route i j |j. j < length (AdvRouteList iface)} \<union>
     {Mem_rdnss i j |j. j < length (AdvRDNSSList iface)} \<union>
     {Mem_rdnss_addrs i j |j. j < length (AdvRDNSSList iface)} \<union>
     {Mem_dnssl i j |j. j < length (AdvDNSSLList iface)} \<union>
     {Mem_dnssl_suffixes i j |j. j < length (AdvDNSSLList iface)} \<union>
     {Mem_dnssl_suffix i j k |j k. j < length (AdvDNSSLList iface) \<and>
        k < length (AdvDNSSLSuffixes (AdvDNSSLList iface ! j))} \<union>
     {Mem_ignore i j |j. j < length (IgnorePrefixList iface)} \<union>
     {Mem_client i j |j. j < length (ClientList iface)} \<union>
     (if if_addrs (props iface) = [] then {} else {Mem_if_addrs i}) \<union>
     (if AdvCaptivePortalAPI iface = None then {} else {Mem_portal i}) \<union>
     set (left_blocks i iface)"

definition owned :: "Interface list \<Rightarrow> memblock set" where
  "owned ifs = (\<Union>i < length ifs. iface_owned i (ifs ! i))"

fun block_iface :: "memblock \<Rightarrow> nat" where
  "block_iface (Mem_iface i) = i"
| "block_iface (Mem_prefix i j) = i"
| "block_iface (Mem_route i j) = i"
| "block_iface (Mem_rdnss i j) = i"
| "block_iface (Mem_rdnss_addrs i j) = i"
| "block_iface (Mem_dnssl i j) = i"
| "block_iface (Mem_dnssl_suffix i j k) = i"
| "block_iface (Mem_dnssl_suffixes i j) = i"
| "block_iface (Mem_ignore i j) = i"
| "block_iface (Mem_client i j) = i"
| "block_iface (Mem_if_addrs i) = i"
| "block_iface (Mem_portal i) = i"
| "block_iface (Mem_nat64 i j) = i"
| "block_iface (Mem_lowpanco i j) = i"
| "block_iface (Mem_abro i j) = i"
| "block_iface (Mem_rasrc i j) = i"

lemma set_nodes: "set (nodes f xs) = (\<Union>j < length xs. set (f j))"
  by (simp add: nodes_def atLeast0LessThan)

lemma distinct_nodes:
  assumes "\<And>j. distinct (f j)" and "\<And>j k. j \<noteq> k \<Longrightarrow> set (f j) \<inter> set (f k) = {}"
  shows "distinct (nodes f xs)"
proof -
  have "distinct (concat (map f [0..<n]))" for n
    by (induction n) (use assms in \<open>auto simp: atLeast0LessThan, metis IntI empty_iff less_irrefl\<close>)
  then show ?thesis by (simp add: nodes_def)
qed

lemma block_iface_free_iface: "b \<in> set (free_iface i iface) \<Longrightarrow> block_iface b = i"
  by (auto simp: free_iface_def set_nodes dnssl_blocks_def split: if_split_asm)

lemma distinct_dnssl_blocks: "distinct (dnssl_blocks i ds)"
  unfolding dnssl_blocks_def by (rule distinct_nodes) (auto simp: distinct_map inj_on_def)

lemma distinct_free_iface: "distinct (free_iface i iface)"
  unfolding free_iface_def
  by (auto simp: set_nodes dnssl_blocks_def distinct_dnssl_blocks [unfolded dnssl_blocks_def]
      intro!: distinct_nodes)

lemma free_iface_list_ifaces: "b \<in> set (free_iface_list i ifs) \<Longrightarrow> i \<le> block_iface b"
  by (induction ifs arbitrary: i) (auto dest: block_iface_free_iface, fastforce)

lemma distinct_free_iface_list: "distinct (free_iface_list i ifs)"
proof (induction ifs arbitrary: i)
  case (Cons iface ifs)
  then show ?case
    by (auto simp: distinct_free_iface dest!: block_iface_free_iface free_iface_list_ifaces)
qed simp

lemma set_free_iface_list:
  "set (free_iface_list i ifs) = (\<Union>k < length ifs. set (free_iface (i + k) (ifs ! k)))"
proof (induction ifs arbitrary: i)
  case (Cons iface ifs)
  then show ?case by (simp add: lessThan_Suc_eq_insert_0 image_image)
qed simp

text \<open>No block is freed twice; what is owned is freed or left.\<close>

lemma free_ifaces_distinct: "distinct (free_ifaces ifs)"
  by (simp add: free_ifaces_def distinct_free_iface_list)

lemma iface_owned_split: "iface_owned i iface = set (free_iface i iface) \<union> set (left_blocks i iface)"
  by (auto simp: iface_owned_def free_iface_def set_nodes dnssl_blocks_def)

lemma left_not_freed: "set (free_iface i iface) \<inter> set (left_blocks k iface') = {}"
  by (auto simp: free_iface_def left_blocks_def set_nodes dnssl_blocks_def split: if_split_asm)

lemma free_ifaces_owned:
  "set (free_ifaces ifs) = owned ifs - (\<Union>i < length ifs. set (left_blocks i (ifs ! i)))"
proof -
  have "owned ifs = set (free_ifaces ifs) \<union> (\<Union>i < length ifs. set (left_blocks i (ifs ! i)))"
    by (auto simp: owned_def iface_owned_split free_ifaces_def set_free_iface_list)
  moreover have "set (free_ifaces ifs) \<inter> (\<Union>i < length ifs. set (left_blocks i (ifs ! i))) = {}"
    using left_not_freed by (fastforce simp: free_ifaces_def set_free_iface_list)
  ultimately show ?thesis by blast
qed

end
