(* ===== verification/Spec2Isabelle.thy ===== *)
theory Spec2Isabelle
  imports Samples Device_Bsd Memory
begin

text \<open>
  radvd sends IPv6 Router Advertisements: it reads a configuration of interfaces, watches the links, and
  on each interface advertises the configured router, prefixes, routes and name servers, unasked at
  random intervals and in answer to Router Solicitations. A second program, \<^verbatim>\<open>radvdump\<close>, prints received
  advertisements as a configuration. This development models the C sources, the scanner and the grammar
  under \<^verbatim>\<open>src/\<close>; a definition has the name of the function or type it models.

  \<^bold>\<open>The parts and their theories.\<close>

  \<^item> \<open>Prelude\<close>: machine types (\<^verbatim>\<open>u8\<close> to \<^verbatim>\<open>u32\<close> as words), integers as bytes in network order, the
    string routines of C, and the lemmas and collections (\<open>bytes_simps\<close>, \<open>contents_simps\<close>, \<open>frame_simps\<close>)
    that the other theories share.
  \<^item> \<open>Safe_Buffer\<close> (\<^verbatim>\<open>util.c\<close>): the growable buffers and lists of buffers an advertisement is assembled
    in. Locale \<open>byte_buffer\<close>, interpreted by the buffers.
  \<^item> \<open>Radvd_Types\<close> (\<^verbatim>\<open>radvd.h\<close>, \<^verbatim>\<open>defaults.h\<close>): every struct as a record, and the constants of the code.
  \<^item> \<open>World\<close> (\<^verbatim>\<open>timer.c\<close>): the operating system as the daemon sees it, clock and random numbers, and the
    deadlines with the rounding of their computation in \<^verbatim>\<open>double\<close>.
  \<^item> \<open>Addr_Util\<close> (\<^verbatim>\<open>util.c\<close>, \<^verbatim>\<open>process.c\<close>, \<^verbatim>\<open>netlink.c\<close>): prefixes and netmasks, each bytewise loop related
    to the operation on 128-bit words.
  \<^item> \<open>Prefix_Lifetimes\<close> (\<^verbatim>\<open>send.c\<close>, \<^verbatim>\<open>radvd.c\<close>, \<^verbatim>\<open>netlink.c\<close>): lifetimes that decrease with time.
  \<^item> \<open>Ra_Options\<close>, \<open>Domain_Names\<close>, \<open>Ra_Build\<close> (\<^verbatim>\<open>send.c\<close>): the bytes of each option, the search list, and
    the list of all options. \<open>ra_option_images\<close> is the specification, the options read off the
    configuration; the builders refine it through the locale \<open>option_list\<close>.
  \<^item> \<open>Device\<close> (\<^verbatim>\<open>device-common.c\<close>, \<^verbatim>\<open>device-linux.c\<close>, \<^verbatim>\<open>netlink.c\<close>) and \<open>Device_Bsd\<close>
    (\<^verbatim>\<open>device-bsd44.c\<close>): what the program asks about an interface. What both ports promise is the locale
    \<open>device_port\<close>, interpreted by each.
  \<^item> \<open>Iface\<close> (\<^verbatim>\<open>interface.c\<close>): defaults, checks, setup, schedule, lookups, and walks over all
    interfaces (locales \<open>iface_walk\<close>, \<open>iface_walk_total\<close>). \<open>Memory\<close>: what \<open>free_ifaces\<close> releases.
  \<^item> \<open>Ra_Send\<close> (\<^verbatim>\<open>send.c\<close>): packing options into packets and choosing their targets.
  \<^item> \<open>Recv\<close>, \<open>Process\<close> (\<^verbatim>\<open>recv.c\<close>, \<^verbatim>\<open>process.c\<close>): reception, validation, the answer to a solicitation,
    the comparison with another router's advertisement (locale \<open>option_walker\<close>, for both messages).
  \<^item> \<open>Daemon\<close>, \<open>Runs\<close> (\<^verbatim>\<open>radvd.c\<close>, \<^verbatim>\<open>netlink.c\<close>): the handlers, one turn of the main loop, link events,
    start and shutdown; the runs of the process as the inductive relation \<open>radvd_reach\<close>, in which the
    kernel changes and signals arrive between two turns.
  \<^item> \<open>Privsep\<close> (\<^verbatim>\<open>privsep-linux.c\<close>, \<^verbatim>\<open>util.c\<close>): the privileged helper and the pipe to it.
  \<^item> \<open>Text_Input\<close>, \<open>Text_Output\<close>, \<open>Addr_Text\<close>: the C library's reading and printing of numbers and
    addresses, and that a printed address is read back as the address it was.
  \<^item> \<open>Regex\<close>, \<open>Scanner\<close> (\<^verbatim>\<open>scanner.l\<close>), \<open>Config\<close> (\<^verbatim>\<open>gram.y\<close>), \<open>Config_Ok\<close>: the configuration file from its
    characters to the list of interfaces, and what every accepted configuration satisfies. \<open>Scan_Words\<close>:
    the tokens of a text that is written word by word.
  \<^item> \<open>Log\<close> (\<^verbatim>\<open>log.c\<close>), \<open>Startup\<close> (\<^verbatim>\<open>radvd.c\<close>, \<^verbatim>\<open>socket.c\<close>, \<^verbatim>\<open>netlink.c\<close>, \<^verbatim>\<open>util.c\<close>, \<^verbatim>\<open>radvdump.c\<close>): \<^verbatim>\<open>main\<close> of
    both programs up to their loops, as the trace of the system calls it makes.
  \<^item> \<open>Radvdump\<close>, \<open>Dump_Text\<close> (\<^verbatim>\<open>radvdump.c\<close>): the output of the dump tool (locale \<open>dump_pass\<close>, for its two
    passes over the options), and that it is the text of the configuration that was advertised.
  \<^item> \<open>Section_Text\<close>, \<open>Dump_Config\<close>: the output of the dump tool as a configuration file of the daemon. Every
    line and section is followed from the printer through scanner and grammar to the record it sets
    (relations \<open>lexes\<close>, \<open>gets\<close>, \<open>steps\<close>, \<open>sets\<close>), and from there to the option that is built from it.
  \<^item> \<open>Samples\<close>: a router, its kernel, its configuration file and its system, on which the theorems with
    hypotheses are applied.

  \<^bold>\<open>How state and effects correspond.\<close> The daemon's state is the list of interfaces with their
  records, the signal flags and the world. Packets, group memberships and commands to the helper are
  appended to the world; the clock, \<^verbatim>\<open>rand\<close> and \<^verbatim>\<open>sendmsg\<close> answer from sequences. A process that ends
  (\<^verbatim>\<open>exit\<close>, a NULL pointer, a read outside a buffer) is \<open>None\<close>; C return codes are integers. \<open>Startup\<close> is
  written with continuations over a trace, since there each call may end the program. Log entries
  that matter (\<open>process_ra\<close>) are values, the others are left out.

  \<^bold>\<open>What the theorems show.\<close> In this theory, in groups: the advertisement that goes out (refinement of
  the configuration, packing, targets, well-formedness); packets that come in (bounds of all reads, only
  valid solicitations are answered, rate limit, what a router says about its own advertisement); the dump tool
  (round trips to the configuration and through the configuration file back to the same options,
  escaping of foreign text, every message is handled, the one read behind the buffer);
  interfaces (checks, setup, schedule, forwarding); buffers, names, addresses, lifetimes; the helper
  (confinement, round trip of commands); runs (the invariant for every configuration text, the end
  after a signal, withdrawal at shutdown); the configuration file (ranges of accepted
  configurations, the words that the scanner reads); the start (privileges are given up, the file is read only
  after the check of its permissions, a configuration test has no other effect).

  \<^bold>\<open>Parameters and what is assumed of them.\<close> The kernel's answers are a record; \<open>world_ok\<close> collects what
  the documentation of the calls promises (a positive MTU, sizes of the link-layer address, a clock that
  does not run backwards). Results of \<^verbatim>\<open>sendmsg\<close>, \<^verbatim>\<open>recvmsg\<close>, \<^verbatim>\<open>ppoll\<close>, \<^verbatim>\<open>read\<close>, \<^verbatim>\<open>write\<close> and of the calls of
  \<open>Startup\<close> are arbitrary. Each theorem with hypotheses is applied to \<open>Samples\<close>.

  \<^bold>\<open>Bounds and fuel.\<close> No definition has fuel. Loops over messages and text end by a decreasing length,
  loops over lists by recursion; \<open>serialize_labels\<close> ends at the 64 KiB cap of the buffer; \<open>readn\<close> and \<open>writen\<close>
  run on the script of the system's answers, and the end of the script is a call that never
  returns. The grammar's lists end because each item consumes a token. The main loop is a step relation.

  \<^bold>\<open>Not modelled.\<close> The automaton that \<^verbatim>\<open>flex\<close> generates and the tables of \<^verbatim>\<open>bison\<close> (the rules and the
  productions are modelled); failing allocations; the rounding of \<^verbatim>\<open>double\<close> outside \<^verbatim>\<open>timer.c\<close> (times
  and decimal numbers of the configuration are rational there); the packets of a turn in which the process
  dies; the texts of log messages, of the usage and of the version; the second build
  options of the Linux port (no netlink, \<^verbatim>\<open>sysctl\<close>); the unit tests. What readers reach through pointers
  they keep into another list (\<^verbatim>\<open>if_addrs\<close>, the source address) is copied.
\<close>

section \<open>The advertisement that goes out\<close>

text \<open>C2. Refinement: for a configuration that fits the wire, \<open>build_ra_options\<close> succeeds and the
  non-empty buffers it leaves are, in order, exactly the options that the specification
  \<open>ra_option_images\<close> reads off the configuration and the addresses of the host.\<close>

theorem build_ra_options_refines_configuration:
  assumes "wire_config_ok iface" and "list_all dnssl_ok (AdvDNSSLList iface)"
  shows "\<exists>sbl. build_ra_options k iface dest = Some sbl \<and> sbl_inv sbl \<and>
    blocks sbl = ra_option_images k iface"
  using build_ra_options_adds [OF assms] by (auto simp: opts.adds_def)

theorem build_ra_options_refines_configuration_witness:
  "\<exists>sbl. build_ra_options sample_kernel sample_ready 1 = Some sbl \<and> sbl_inv sbl \<and>
    blocks sbl = ra_option_images sample_kernel sample_ready"
  by (rule build_ra_options_refines_configuration [OF sample_wire sample_dnssl_ok])

text \<open>C4. One call of \<open>send_ra\<close> on a ready interface returns, and sends the specified options in
  order, packed behind copies of the header so that a packet exceeds the size of the interface only
  if it holds a single option; all options go out when every \<^verbatim>\<open>sendmsg\<close> succeeds.\<close>

theorem send_ra_packs_all_options:
  assumes "AdvSendAdvert iface" and "sendable iface" and "proc_forwarding (kern w) \<noteq> Unreadable"
  shows "\<exists>rc ds src t ps w'.
    send_ra iface dest w = Some (rc, iface\<lparr>times := t, AdvPrefixList := ps\<rparr>, w') \<and>
    rasrc_address (props iface) = Some src \<and>
    sent w' = sent w @ map (make_packet (ra_dest dest) (props iface) src) ds \<and>
    sends (max_ra_option_size (props iface)) (ra_header_image (ra_header_info iface) (ra_cease iface w))
      (ra_option_images (kern w) (iface\<lparr>times := t, AdvPrefixList := ps\<rparr>)) ds rc \<and>
    ((\<forall>n. 0 \<le> sendmsg_result w n) \<longrightarrow> rc = 0)"
  by (rule send_ra_spec [OF assms, of dest]) blast

theorem send_ra_packs_all_options_witness:
  "\<exists>rc ds src t ps w'.
    send_ra sample_ready None sample_world = Some (rc, sample_ready\<lparr>times := t, AdvPrefixList := ps\<rparr>, w') \<and>
    rasrc_address (props sample_ready) = Some src \<and>
    sent w' = sent sample_world @ map (make_packet (ra_dest None) (props sample_ready) src) ds \<and>
    sends (max_ra_option_size (props sample_ready))
      (ra_header_image (ra_header_info sample_ready) (ra_cease sample_ready sample_world))
      (ra_option_images (kern sample_world) (sample_ready\<lparr>times := t, AdvPrefixList := ps\<rparr>)) ds rc \<and>
    ((\<forall>n. 0 \<le> sendmsg_result sample_world n) \<longrightarrow> rc = 0)"
proof (rule send_ra_packs_all_options [OF sample_sendable])
  show "proc_forwarding (kern sample_world) \<noteq> Unreadable" by (simp add: sample_defs)
qed

text \<open>C12. Whatever the kernel answers, every packet a call of \<open>send_ra\<close> sends is the header of the
  configuration followed by options whose length bytes are right, and its router lifetime is
  withdrawn when the interface stops advertising.\<close>

theorem send_ra_packets_wellformed:
  assumes "send_ra iface dest w = Some (rc, iface', w')" and "wire_config_ok iface"
  shows "\<exists>pkts cease. sent w' = sent w @ pkts \<and> (cease_adv (state_info iface) \<longrightarrow> cease) \<and>
    list_all (\<lambda>p. ra_with (ra_header_info iface) cease (pkt_data p)) pkts"
  by (rule send_ra_wf [OF assms])

theorem send_ra_packets_wellformed_witness:
  "\<exists>rc iface' w' pkts cease. send_ra sample_ready None sample_world = Some (rc, iface', w') \<and>
    sent w' = sent sample_world @ pkts \<and> (cease_adv (state_info sample_ready) \<longrightarrow> cease) \<and>
    list_all (\<lambda>p. ra_with (ra_header_info sample_ready) cease (pkt_data p)) pkts"
proof -
  obtain rc iface' w' where "send_ra sample_ready None sample_world = Some (rc, iface', w')"
    by (rule send_ra_spec [OF sample_sendable, of sample_world None]) (auto simp: sample_defs)
  from this send_ra_packets_wellformed [OF this sample_wire] show ?thesis by blast
qed

text \<open>C6. Advertisements go only where the configuration allows: to the multicast group, to the
  listed clients that are not ignored, or to the asking host if it is listed or unlisted hosts may
  ask; always from the chosen source address, and never from an interface that is not ready.\<close>

theorem send_ra_forall_only_allowed_targets:
  assumes "send_ra_forall iface dest w = Some (rc, iface', w')"
  shows "\<exists>pkts. sent w' = sent w @ pkts \<and> packets_from iface' (set (ra_targets iface' dest)) pkts \<and>
    (ready (state_info iface') \<and> AdvSendAdvert iface' \<or> pkts = []) \<and> kern w' = kern w"
  by (rule send_ra_forall_sent [OF assms])

theorem send_ra_forall_only_allowed_targets_witness:
  "\<exists>rc iface' w' pkts. send_ra_forall sample_ready None sample_world = Some (rc, iface', w') \<and>
    sent w' = sent sample_world @ pkts \<and> packets_from iface' (set (ra_targets iface' None)) pkts"
proof -
  obtain iface' w' where "send_ra_forall sample_ready None sample_world = Some (0, iface', w')"
    using send_ra_forall_reaches [OF sample_sendable _ sample_sends_succeed, of None]
    by (auto simp: sample_ready_def)
  from this send_ra_forall_only_allowed_targets [OF this] show ?thesis by blast
qed

text \<open>C5. Every allowed destination is reached: when the interface is ready and the kernel accepts
  the packets, \<open>send_ra_forall\<close> succeeds and its packets go to exactly the allowed destinations.\<close>

theorem send_ra_forall_reaches_every_target:
  assumes "AdvSendAdvert iface" and "sendable iface" and "ready (state_info iface)" and "sends_succeed w"
  shows "\<exists>iface' w' pkts. send_ra_forall iface dest w = Some (0, iface', w') \<and>
    sent w' = sent w @ pkts \<and> pkt_dest ` set pkts = set (ra_targets iface dest)"
  by (rule send_ra_forall_reaches [OF assms])

theorem send_ra_forall_reaches_every_target_witness:
  "\<exists>iface' w' pkts. send_ra_forall sample_ready None sample_world = Some (0, iface', w') \<and>
    sent w' = sent sample_world @ pkts \<and> pkt_dest ` set pkts = set (ra_targets sample_ready None)"
  by (rule send_ra_forall_reaches_every_target [OF sample_sendable _ sample_sends_succeed])
     (simp add: sample_ready_def)

section \<open>What the daemon does with packets\<close>

text \<open>C7. Round trip of an advertisement, also of one that withdraws the router or has lifetimes cut by the
  kernel: a router that hears its own advertisement reports about it exactly that a configured prefix with
  constant lifetimes has others than an advertised prefix of the same network; apart from these warnings
  only option types that the receiver does not know (6LoWPAN) are mentioned. The configuration fits the
  wire, its prefix lengths are at most 128, its server lists are not empty and its names those of DNS.\<close>

theorem own_advertisement_differs_in_lifetimes_only:
  assumes "wire_config_ok iface" and "list_all (\<lambda>p. PrefixLen p \<le> 128) (AdvPrefixList iface)"
    and "list_all (\<lambda>r. AdvRDNSSAddr r \<noteq> []) (AdvRDNSSList iface)" and "list_all dns_names (AdvDNSSLList iface)"
  shows "\<exists>logs. process_ra iface
      (ra_header_image (ra_header_info iface) cease @ concat (ra_option_images k iface)) = Some logs \<and>
    set logs - range Unknown_option =
      (\<Union>q \<in> set (sent_prefixes k iface). lifetime_warnings iface (cease_adv (state_info iface)) q)"
  using own_ra_reports [OF assms, of cease k] by (simp add: reports_def)

theorem own_advertisement_differs_in_lifetimes_only_witness:
  "\<exists>logs. process_ra sample_ready
      (ra_header_image (ra_header_info sample_ready) False @
       concat (ra_option_images sample_kernel sample_ready)) = Some logs \<and>
    set logs \<subseteq> range Unknown_option"
proof -
  have "lifetime_warnings sample_ready False q = {}" if "q \<in> set (sent_prefixes sample_kernel sample_ready)" for q
    using that by (auto simp: sent_prefixes_def lifetime_warnings_def advertised_prefixes_def sample_limit
        sent_valid_def sent_preferred_def sample_iface_defs)
  moreover have "\<not> cease_adv (state_info sample_ready)" by (simp add: sample_ready_def)
  ultimately show ?thesis
    using own_advertisement_differs_in_lifetimes_only [OF sample_wire sample_names, of False sample_kernel] by auto
qed

text \<open>C9. Memory safety: whatever bytes another router sends, checking its advertisement ends and
  reads no byte outside the received message.\<close>

theorem process_ra_reads_in_bounds:
  assumes "16 \<le> length msg"
  shows "\<exists>logs. process_ra iface msg = Some logs"
  by (rule process_ra_safe [OF assms])

theorem process_ra_reads_in_bounds_witness:
  "\<exists>logs. process_ra sample_ready (replicate 16 0 @ [31, 200, 0]) = Some logs"
  by (rule process_ra_reads_in_bounds) simp

text \<open>C10. Only a valid Router Solicitation makes the daemon send: at least eight bytes of type 133 and code 0
  with a hop limit of 255, followed by complete options, each as long as its length byte says and none
  empty, of which none is a source link-layer address when the source is unspecified.\<close>

theorem process_sends_only_for_valid_solicitations:
  assumes "process interfaces msg src pkt_info hoplimit w = Some (interfaces', w', logs)"
    and "sent w' \<noteq> sent w"
  shows "8 \<le> length msg \<and> msg ! 0 = 133 \<and> msg ! 1 = 0 \<and> hoplimit = 255 \<and>
    (\<exists>opts. drop 8 msg = concat opts \<and>
       list_all (\<lambda>opt. opt ! 1 \<noteq> 0 \<and> length opt = 8 * unat (opt ! 1) \<and> (src = 0 \<longrightarrow> opt ! 0 \<noteq> 1)) opts)"
proof -
  note v = process_sends [OF assms]
  then obtain opts where "drop 8 msg = concat opts" "list_all (\<lambda>opt. nd_opt_wf opt \<and> rs_accept src opt) opts"
    using rs_options_iff by blast
  then have "\<exists>opts. drop 8 msg = concat opts \<and>
      list_all (\<lambda>opt. opt ! 1 \<noteq> 0 \<and> length opt = 8 * unat (opt ! 1) \<and> (src = 0 \<longrightarrow> opt ! 0 \<noteq> 1)) opts"
    by (intro exI [of _ opts]) (auto simp: nd_opt_wf_def rs_accept_def list_all_iff)
  with v show ?thesis by simp
qed

theorem process_sends_only_for_valid_solicitations_witness:
  "\<exists>interfaces' w' logs. process [sample_ready] [133, 0, 0, 0, 0, 0, 0, 0] 5 (Some 2) 255 sample_world =
     Some (interfaces', w', logs) \<and> sent w' \<noteq> sent sample_world \<and>
   (\<exists>opts. drop 8 [133, 0, 0, 0, 0, 0, 0, 0] = concat opts \<and>
      list_all (\<lambda>opt. opt ! 1 \<noteq> 0 \<and> length opt = 8 * unat (opt ! 1) \<and> ((5 :: in6_addr) = 0 \<longrightarrow> opt ! 0 \<noteq> (1 :: byte))) opts)"
proof -
  obtain interfaces' w' logs where
    "process [sample_ready] [133, 0, 0, 0, 0, 0, 0, 0] 5 (Some 2) 255 sample_world =
       Some (interfaces', w', logs)" "sent w' \<noteq> sent sample_world"
    using sample_solicited by blast
  from this process_sends_only_for_valid_solicitations [OF this] show ?thesis by blast
qed



text \<open>C13. A packet that a router has forwarded is never answered: when the last hop limit the kernel
  reports with it is not 255, handling it sends nothing.\<close>

theorem forwarded_packets_are_never_answered:
  assumes "handle_packet r ifs w = Some (ifs', w')" and "last (255 # hoplimits (rm_cmsgs r)) \<noteq> 255"
  shows "sent w' = sent w"
proof (rule ccontr)
  assume "sent w' \<noteq> sent w"
  with assms(1) obtain len pkt_info hoplimit logs where
    r: "recv_rs_ra r None 0 = (len, pkt_info, hoplimit)" "0 < len" and
    p: "process ifs (take (nat len) (rm_data r)) (rm_addr r) pkt_info hoplimit w = Some (ifs', w', logs)"
    by (auto simp: handle_packet_def bind_eq_Some_conv Let_def split: prod.split_asm if_split_asm)
  from process_sends [OF p \<open>sent w' \<noteq> sent w\<close>] recv_rs_ra_info [OF r(1)] r(2) assms(2) show False
    by simp
qed

theorem forwarded_packets_are_never_answered_witness:
  "\<exists>ifs' w'. handle_packet sample_solicitation [sample_ready] sample_world = Some (ifs', w') \<and>
    sent w' = sent sample_world"
proof -
  have "find_iface_by_index [sample_ready] 2 = Some 0" "ready (state_info sample_ready)"
    by (simp_all add: sample_ready_def find_iface_by_index_def)
  then have "handle_packet sample_solicitation [sample_ready] sample_world = Some ([sample_ready], sample_world)"
    by (simp add: handle_packet_def recv_rs_ra_def sample_solicitation_def process_def)
  from this forwarded_packets_are_never_answered [OF this] show ?thesis
    by (simp add: sample_solicitation_def hoplimits_def)
qed

section \<open>The dump tool\<close>

text \<open>C16. Round trip: for an advertisement that radvd built, \<^verbatim>\<open>radvdump\<close> prints the text of the
  configuration it was built from: header, single settings and sections, in the order of the options. The
  values of the configuration fit the fields of the options.\<close>

theorem radvdump_shows_own_configuration:
  assumes "wire_config_ok iface" and "dump_config_ok iface"
    and "msg = ra_header_image (ra_header_info iface) False @ concat (ra_option_images k iface) @ rest"
    and "len = 16 + int (length (concat (ra_option_images k iface)))"
    and "if_indextoname k' ifindex = Some n"
  shows "print_ff VERSION k' msg len src ifindex edefs = Some (
    dump_preamble VERSION src n @ header_text edefs (ra_header_info iface) @
    (if ra_option_images k iface = [] then []
     else config_lines edefs iface @ config_sections edefs k iface @ dump_closing))"
  by (rule print_ff_own [OF assms])

theorem radvdump_shows_own_configuration_witness:
  "print_ff ''2.20'' sample_kernel
     (ra_header_image (ra_header_info sample_ready) False @ concat (ra_option_images sample_kernel sample_ready) @ [])
     (16 + int (length (concat (ra_option_images sample_kernel sample_ready)))) sample_ll 2 False = Some (
    dump_preamble ''2.20'' sample_ll ''eth0'' @ header_text False (ra_header_info sample_ready) @
    (if ra_option_images sample_kernel sample_ready = [] then []
     else config_lines False sample_ready @ config_sections False sample_kernel sample_ready @ dump_closing))"
  by (rule radvdump_shows_own_configuration [OF sample_wire sample_dump_config refl refl])
     (simp add: sample_kernel_def)

text \<open>C8. Round trip through both programs: what \<^verbatim>\<open>radvdump\<close> prints for an advertisement of radvd is a
  configuration file that radvd accepts. The interface it reads has the name of the receiving one and the
  header of the advertisement, and the options built from it are the advertised ones, byte for byte, apart
  from those that the text cannot describe (link-layer address, interval and 6LoWPAN options). The tool runs
  without \<^verbatim>\<open>-e\<close>, the advertisement has at least one option, the interface name is a plain word, the values fit
  their fields, and the file format can express them (\<open>config_shown\<close>: addresses that do not start with
  \<^verbatim>\<open>::\<close>, preferred lifetimes up to the valid ones, the limits of the grammar).\<close>

theorem radvdump_output_configures_the_same_router:
  assumes "wire_config_ok iface" and "dump_config_ok iface" and "config_shown k iface"
    and "msg = ra_header_image (ra_header_info iface) False @ concat (ra_option_images k iface) @ rest"
    and "len = 16 + int (length (concat (ra_option_images k iface)))" and "ra_option_images k iface \<noteq> []"
    and "if_indextoname k' ifindex = Some n" and "plain_word n" and "one_line VERSION"
    and "\<And>p. limit_prefix_lifetimes k2 p = p"
  shows "\<exists>out i. print_ff VERSION k' msg len src ifindex False = Some out \<and>
    readin_config (Some out) = Some [i] \<and> name (props i) = ifname n \<and> AdvSendAdvert i \<and>
    ra_header_info i = ra_header_info iface \<and>
    filter described (ra_option_images k2 i) = filter described (ra_option_images k iface)"
proof -
  obtain out line where out: "print_ff VERSION k' msg len src ifindex False = Some out"
    "readin_config (Some out) = Some [read_iface k n line iface]"
    using print_ff_read_back [OF assms(1-9)] .
  moreover note read_options [OF assms(1-3,10), of n line]
  moreover have "name (props (read_iface k n line iface)) = ifname n" "AdvSendAdvert (read_iface k n line iface)"
    by (simp_all add: read_iface_def)
  ultimately show ?thesis by (intro exI [of _ out] exI [of _ "read_iface k n line iface"]) simp
qed

theorem radvdump_output_configures_the_same_router_witness:
  "\<exists>out i. print_ff ''2.20'' sample_kernel
     (ra_header_image (ra_header_info sample_ready) False @ concat (ra_option_images sample_kernel sample_ready) @ [])
     (16 + int (length (concat (ra_option_images sample_kernel sample_ready)))) sample_ll 2 False = Some out \<and>
    readin_config (Some out) = Some [i] \<and> name (props i) = ifname ''eth0'' \<and> AdvSendAdvert i \<and>
    ra_header_info i = ra_header_info sample_ready \<and>
    filter described (ra_option_images sample_kernel i) = filter described (ra_option_images sample_kernel sample_ready)"
proof (rule radvdump_output_configures_the_same_router [OF sample_wire sample_dump_config sample_config_shown refl refl])
  show "ra_option_images sample_kernel sample_ready \<noteq> []"
    by (simp add: ra_option_images_def sample_defs Let_def)
  show "if_indextoname sample_kernel 2 = Some ''eth0''"
    by (simp add: sample_kernel_def)
  show "plain_word ''eth0''"
    by code_simp
  show "limit_prefix_lifetimes sample_kernel p = p" for p
    by (simp add: limit_prefix_lifetimes_def get_prefix_lifetimes_def netlink_get_address_lifetimes_def sample_kernel_def)
qed simp

text \<open>C17. Whatever other hosts send, the dump tool writes only printable characters, tabs and line
  feeds to its standard output, given that its own version and the names of the interfaces are such text.\<close>

theorem radvdump_output_is_safe:
  assumes "radvdump_main VERSION k edefs rs = Some out" and "safe_text VERSION"
    and "\<And>i n. if_indextoname k i = Some n \<Longrightarrow> safe_text n"
  shows "safe_text out"
  by (rule radvdump_main_safe [OF assms(2,3,1)])

theorem radvdump_output_is_safe_witness:
  "\<exists>out. radvdump_main ''2.20'' sample_kernel False [sample_advert] = Some out \<and> safe_text out"
proof -
  have "\<exists>s. radvdump_step ''2.20'' sample_kernel False sample_advert = Some s"
    by (rule radvdump_step_total [of _ 2]) (simp_all add: sample_advert_def)
  then obtain s where "radvdump_step ''2.20'' sample_kernel False sample_advert = Some s"
    by blast
  then obtain out where "radvdump_main ''2.20'' sample_kernel False [sample_advert] = Some out"
    by (cases s) auto
  moreover have "safe_text ''2.20''" by simp
  ultimately have "safe_text out"
    by (rule radvdump_output_is_safe) (rule sample_names_safe)
  with \<open>radvdump_main ''2.20'' sample_kernel False [sample_advert] = Some out\<close> show ?thesis by blast
qed

text \<open>C18. The dump tool handles every message that leaves 254 bytes of its buffer free, whatever the
  message holds, without a read outside the buffer. The kernel has attached the interface to the message, as
  the option \<^verbatim>\<open>IPV6_RECVPKTINFO\<close> of the socket asks.\<close>

theorem radvdump_handles_every_message:
  assumes "int (length (rm_data r)) = rm_len r" and "rm_len r \<le> 65281"
    and "Cmsg_PKTINFO 36 i \<in> set (rm_cmsgs r)"
  shows "\<exists>s. radvdump_step VERSION k edefs r = Some s"
  by (rule radvdump_step_total [OF assms])

theorem radvdump_handles_every_message_witness:
  "\<exists>s. radvdump_step ''2.20'' sample_kernel False sample_advert = Some s"
  by (rule radvdump_handles_every_message [of _ 2]) (simp_all add: sample_advert_def)

text \<open>C32. The margin is needed: an advertisement of 65528 bytes whose last option is a prefix option
  of eight bytes makes the dump tool read behind its buffer of 65535 bytes.\<close>

theorem radvdump_reads_behind_its_buffer:
  "length overread_msg = 65528 \<and> length (overread_msg @ replicate 7 0) = MSG_SIZE_RECV \<and>
   print_ff VERSION k (overread_msg @ replicate 7 0) 65528 addr ifindex edefs = None"
  using length_filler print_ff_overread by (simp add: overread_msg_def)

text \<open>C33. Escaping foreign text loses nothing: reading the escapes back gives the received bytes.\<close>

theorem print_sanitized_is_reversible: "unescape (print_sanitized src) = src"
  by (rule unescape_print_sanitized)

section \<open>Interfaces\<close>



text \<open>C20. \<open>setup_iface\<close> returns one of the codes 0 to -7, leaves the interface ready exactly when it
  returns 0, and never touches its configuration of name, prefixes and portal.\<close>

theorem setup_iface_codes:
  assumes "setup_iface iface w = Some (rc, iface', w')" and "kernel_ok (kern w)" and "iface_static iface"
  shows "rc \<in> {-7..0} \<and> (ready (state_info iface') \<longleftrightarrow> rc = 0) \<and> \<not> changed (state_info iface') \<and>
    name (props iface') = name (props iface) \<and> AdvPrefixList iface' = AdvPrefixList iface \<and>
    AdvCaptivePortalAPI iface' = AdvCaptivePortalAPI iface"
  using setup_iface_result [OF assms] by simp

theorem setup_iface_codes_witness:
  "\<exists>rc iface' w'. setup_iface sample_iface sample_world = Some (rc, iface', w') \<and>
    rc \<in> {-7..0} \<and> (ready (state_info iface') \<longleftrightarrow> rc = 0)"
proof -
  obtain w' where "setup_iface sample_iface sample_world = Some (0, sample_ready, w')"
    using sample_setup by blast
  from this setup_iface_codes [OF this sample_kernel_ok sample_static(1)] show ?thesis by blast
qed

text \<open>C19. An interface that \<open>setup_iface\<close> makes ready can send: its parameters are in range, it has an
  index and a source address, its link-layer address lies in its array, and the room for options is
  at least 1202 bytes and leaves space for the headers within the configured MTU.\<close>

theorem setup_iface_makes_ready_to_send:
  assumes "setup_iface iface w = Some (0, iface', w')" and "kernel_ok (kern w)" and "iface_static iface"
  shows "ready_to_send iface'"
  by (rule setup_iface_ready_to_send [OF assms])

theorem setup_iface_makes_ready_to_send_witness:
  "\<exists>w'. setup_iface sample_iface sample_world = Some (0, sample_ready, w') \<and> ready_to_send sample_ready"
proof -
  obtain w' where "setup_iface sample_iface sample_world = Some (0, sample_ready, w')"
    using sample_setup by blast
  from this setup_iface_makes_ready_to_send [OF this sample_kernel_ok sample_static(1)]
  show ?thesis by blast
qed

text \<open>C21. The source address of a ready interface is the first configured \<open>AdvRASrcAddress\<close> that the
  host has on it, and without that configuration its first link-local address.\<close>

theorem setup_iface_selects_source:
  assumes "setup_iface iface w = Some (0, iface', w')" and "kernel_ok (kern w)" and "iface_static iface"
  shows "rasrc_address (props iface') = ra_source (kern w) iface"
  by (rule setup_iface_source [OF assms])

theorem setup_iface_selects_source_witness:
  "rasrc_address (props sample_ready) = ra_source (kern sample_world) sample_iface"
proof -
  obtain w' where "setup_iface sample_iface sample_world = Some (0, sample_ready, w')"
    using sample_setup by blast
  from setup_iface_selects_source [OF this sample_kernel_ok sample_static(1)] show ?thesis .
qed

text \<open>C23. The size computed from the MTUs never wraps: at least 1202 bytes, and with the 56 bytes of the
  IPv6 and RA headers neither above the configured RA MTU nor above the link's MTU (or 1280).\<close>

theorem update_device_info_size_bounds:
  assumes "update_device_info k iface = Some (0, iface')"
    and "SIOCGIFMTU k (name (props iface)) = Some mtu" and "mtu < 2 ^ 31" and "1280 \<le> AdvRAMTU iface"
  shows "1202 \<le> uint (max_ra_option_size (props iface')) \<and>
    uint (max_ra_option_size (props iface')) + 56 \<le> uint (AdvRAMTU iface) \<and>
    uint (max_ra_option_size (props iface')) + 56 \<le> max mtu 1280"
  using update_device_info_size [OF assms] by simp

theorem update_device_info_size_bounds_witness:
  "\<exists>iface'. update_device_info sample_kernel sample_iface = Some (0, iface') \<and>
    1202 \<le> uint (max_ra_option_size (props iface')) \<and>
    uint (max_ra_option_size (props iface')) + 56 \<le> uint (AdvRAMTU sample_iface) \<and>
    uint (max_ra_option_size (props iface')) + 56 \<le> max 1500 1280"
proof -
  obtain iface' where u: "update_device_info sample_kernel sample_iface = Some (0, iface')"
    using sample_device_info by blast
  have "SIOCGIFMTU sample_kernel (name (props sample_iface)) = Some 1500" "1280 \<le> AdvRAMTU sample_iface"
    by (simp_all add: sample_defs)
  from update_device_info_size_bounds [OF u this(1) _ this(2)] u show ?thesis by auto
qed

text \<open>C27. The main loop waits for an interface that is due, to a millisecond, if any is, and otherwise for one
  whose time left is not more than two milliseconds above that of any other. The time left is that until the
  deadline when the loop reads the clock for the interface, in nanoseconds; no deadline is more than
  the range of a 32-bit number of milliseconds ahead.\<close>

theorem find_iface_by_time_takes_the_nearest_deadline:
  assumes "ifs \<noteq> []" and "\<forall>j < length ifs. time_left ifs w j < 2 ^ 31 * 1000000 - 1000000"
  shows "\<exists>n < length ifs. fst (find_iface_by_time ifs w) = Some n \<and>
    (\<forall>j < length ifs. time_left ifs w n < max 0 (time_left ifs w j + 1000000) + 1000000)"
  by (rule find_iface_by_time_least [OF assms])

theorem find_iface_by_time_takes_the_nearest_deadline_witness:
  "\<exists>n < length [sample_ready, sample_iface].
    fst (find_iface_by_time [sample_ready, sample_iface] sample_world) = Some n \<and>
    (\<forall>j < length [sample_ready, sample_iface]. time_left [sample_ready, sample_iface] sample_world n <
       max 0 (time_left [sample_ready, sample_iface] sample_world j + 1000000) + 1000000)"
  by (rule find_iface_by_time_takes_the_nearest_deadline)
     (auto simp: time_left_def ts_nsecs_def sample_defs less_Suc_eq)

text \<open>C28. A deadline is as far ahead of the clock as asked, to two nanoseconds, although the product and the
  sum of its computation are rounded to doubles and the result is cut to an integer. The reading of the
  clock is normalised, as documented, and the distance is one that fits an \<^verbatim>\<open>int\<close>.\<close>

theorem next_timespec_is_accurate:
  assumes "0 \<le> tv_nsec (clock w (ticks w))" and "tv_nsec (clock w (ticks w)) < 1000000000" and "\<bar>next\<bar> < 2 ^ 31"
  shows "\<bar>ts_seconds (fst (next_timespec next w)) - (ts_seconds (clock w (ticks w)) + next)\<bar> < 2 / 10 ^ 9"
  using next_timespec_near [OF assms(1,2)] by simp

theorem next_timespec_is_accurate_witness:
  "\<bar>ts_seconds (fst (next_timespec (303 / 100) sample_world)) -
    (ts_seconds (clock sample_world (ticks sample_world)) + 303 / 100)\<bar> < 2 / 10 ^ 9"
  by (rule next_timespec_is_accurate) (simp_all add: sample_defs)

text \<open>C39. While forwarding is off, only the advertisements of the first call of \<open>send_ra\<close> have the router
  lifetime zero; those of every later call announce the configured lifetime, since the check reports once. A
  daemon that was started while forwarding was off has spent this report before it sends anything, in every
  state it reaches, so forwarding never makes it withdraw.\<close>

theorem forwarding_off_withdraws_at_most_once:
  assumes "AdvSendAdvert iface" and "sendable iface" and "\<not> cease_adv (state_info iface)"
    and "proc_forwarding (kern w) \<notin> {Unreadable, Proc_value 1, Proc_value 2}"
    and "radvd_reach C w0 (Running d)" and "proc_forwarding (kern w0) \<notin> {Proc_value 1, Proc_value 2}"
  shows "warned (wld d) \<and>
    (\<exists>rc iface' w' pkts. send_ra iface dest w = Some (rc, iface', w') \<and> warned w' \<and>
       sent w' = sent w @ pkts \<and> pkts \<noteq> [] \<and>
       list_all (\<lambda>p. router_lifetime p =
         (if warned w then word_of_int (AdvDefaultLifetime (ra_header_info iface)) else 0)) pkts)"
  using radvd_reach_warned [OF assms(5,6)] send_ra_forwarding_off [OF assms(1-4)] by blast

theorem forwarding_off_withdraws_at_most_once_witness:
  "\<exists>d. radvd_reach {Some [sample_missing]} sample_not_forwarding (Running d) \<and> warned (wld d) \<and>
    (\<exists>rc iface' w' pkts. send_ra sample_ready None sample_not_forwarding = Some (rc, iface', w') \<and> warned w' \<and>
       sent w' = sent sample_not_forwarding @ pkts \<and> pkts \<noteq> [] \<and> list_all (\<lambda>p. router_lifetime p = 0) pkts)"
proof -
  obtain d where "startup (Some [sample_missing]) sample_not_forwarding = Some d"
    using sample_starts by blast
  then have d: "radvd_reach {Some [sample_missing]} sample_not_forwarding (Running d)"
    by (rule radvd_reach.start [rotated]) simp
  have "\<not> cease_adv (state_info sample_ready)" "\<not> warned sample_not_forwarding"
    "proc_forwarding (kern sample_not_forwarding) \<notin> {Unreadable, Proc_value 1, Proc_value 2}"
    by (simp_all add: sample_not_forwarding_def sample_defs)
  with forwarding_off_withdraws_at_most_once [OF sample_sendable this(1,3) d, of None] d show ?thesis by auto
qed

section \<open>Buffers, names and addresses\<close>

text \<open>C36. \<open>safe_buffer_append\<close> appends exactly the given bytes and keeps the invariant of the buffer as
  long as the buffer stays within 64 KiB, and ends the process otherwise.\<close>

theorem safe_buffer_append_appends:
  assumes "sb_inv sb"
  shows "if used sb + length m \<le> 65536
    then \<exists>sb'. safe_buffer_append sb m = Some (length m, sb') \<and> sb_inv sb' \<and>
      contents sb' = contents sb @ m
    else safe_buffer_append sb m = None"
  using safe_buffer_append_fits [OF assms] safe_buffer_append_full [OF assms] by simp

theorem safe_buffer_append_appends_witness:
  "\<exists>sb'. safe_buffer_append new_safe_buffer [1, 2] = Some (length [1, 2 :: byte], sb') \<and> sb_inv sb' \<and>
    contents sb' = contents new_safe_buffer @ [1, 2]"
  using safe_buffer_append_appends [of new_safe_buffer "[1, 2]"] by simp

text \<open>C29. A search list of proper domain names is serialised to the wire format of RFC 1035: for every
  name its labels, each behind its length, and a zero byte; the count returned is that of the bytes
  written.\<close>

theorem serialize_domain_names_is_wire_format:
  assumes "sb_inv sb" and "list_all name_ok suffixes"
    and "used sb + length (concat (map wire_domain suffixes)) + 8 \<le> 65536"
  shows "\<exists>sb'. serialize_domain_names sb len suffixes =
      Some (len + length (concat (map wire_domain suffixes)), sb') \<and> sb_inv sb' \<and>
    contents sb' = contents sb @ concat (map wire_domain suffixes)"
  by (rule serialize_domain_names_wire [OF assms])

theorem serialize_domain_names_is_wire_format_witness:
  "\<exists>sb'. serialize_domain_names new_safe_buffer 0 [''ab.c''] =
      Some (0 + length (concat (map wire_domain [''ab.c''])), sb') \<and> sb_inv sb' \<and>
    contents sb' = contents new_safe_buffer @ concat (map wire_domain [''ab.c''])"
  by (rule serialize_domain_names_is_wire_format)
     (simp_all add: name_ok_def name_labels_def wire_domain_def wire_name_def label_ok_def)

text \<open>C37. \<open>addr_match\<close>, which compares 32-bit words and a masked rest, decides whether two addresses
  agree in their first bits.\<close>

theorem addr_match_decides_prefix:
  assumes "prefixlen \<le> 128"
  shows "addr_match a b prefixlen \<longleftrightarrow> (\<forall>k < prefixlen. bit a (127 - k) = bit b (127 - k))"
  using addr_match_same_prefix [OF assms] by (simp add: same_prefix_def)

theorem addr_match_decides_prefix_witness:
  "addr_match 1 2 37 \<longleftrightarrow> (\<forall>k < 37. bit (1 :: in6_addr) (127 - k) = bit (2 :: in6_addr) (127 - k))"
  by (rule addr_match_decides_prefix) simp

text \<open>C38. \<open>prefix_match\<close>, which decides whether the lifetimes of a kernel address limit a prefix, does not
  compare the prefix when its length is not a multiple of eight: it ignores the last bit of every
  byte and the last bit of the prefix.\<close>

theorem prefix_match_unaligned_compares_other_bits:
  assumes "unat (PrefixLen p) mod 8 \<noteq> 0" and "unat (PrefixLen p) \<le> 128"
  shows "prefix_match p a \<longleftrightarrow>
    (\<forall>j < unat (PrefixLen p) - 1. j mod 8 \<noteq> 7 \<longrightarrow> bit (Prefix p) (127 - j) = bit a (127 - j))"
  by (rule prefix_match_unaligned_bits [OF assms])

theorem prefix_match_unaligned_compares_other_bits_witness:
  "prefix_match (sample_prefix\<lparr>PrefixLen := 1\<rparr>) (2 ^ 127)"
  by (subst prefix_match_unaligned_compares_other_bits) (simp_all add: sample_prefix_def)

text \<open>C40. Lifetimes that are decremented stay below the configured ones, and the preferred lifetime
  never exceeds the valid one, whatever the clock does.\<close>

theorem update_iface_times_keeps_lifetimes_ok:
  assumes "list_all prefix_ok (AdvPrefixList iface)"
  shows "list_all prefix_ok (AdvPrefixList (fst (update_iface_times iface w)))"
  using assms
  by (auto simp: list_all_iff update_iface_times_def clock_gettime_def Let_def intro!: update_prefix_times_ok)

theorem update_iface_times_keeps_lifetimes_ok_witness:
  "list_all prefix_ok (AdvPrefixList (fst (update_iface_times sample_ready sample_world)))"
  by (rule update_iface_times_keeps_lifetimes_ok)
     (simp add: sample_iface_defs prefix_ok_def)

section \<open>The privileged helper\<close>

text \<open>C30. Confinement: whatever bytes a compromised daemon writes to the pipe, and however the system
  cuts the reads, the privileged helper only ever writes values within their bounds to the six
  files of an interface whose name cannot leave their directories.\<close>

theorem privsep_helper_is_confined:
  assumes "privsep_read_loop script inp fs = Some fs'" and "written fs = []"
  shows "list_all sysctl_ok (written fs')"
  using privsep_read_loop_confined [OF assms(1)] assms(2) by simp

theorem privsep_helper_is_confined_witness:
  "\<exists>fs'. privsep_read_loop (replicate 97 (Moved 1)) (concat (map command_bytes (config_commands sample_ready)))
      sample_procfs = Some fs' \<and> written fs' = config_writes sample_ready \<and> list_all sysctl_ok (written fs')"
proof -
  have r: "privsep_read_loop (replicate 97 (Moved 1))
      (concat (map command_bytes (config_commands sample_ready))) sample_procfs =
      Some (sample_procfs\<lparr>written := written sample_procfs @ config_writes sample_ready\<rparr>)"
    by (rule sample_helper)
  from privsep_helper_is_confined [OF r] r show ?thesis
    by (simp add: sample_procfs_def)
qed

text \<open>C31. Round trip through the pipe: the commands \<open>config_interface\<close> writes for an interface arrive
  at the helper however the transfer is cut, and set exactly the files of the configured MTU, hop
  limit, reachable time and retransmission timer, as far as these are within the helper's bounds. The files
  can be written, no read fails, and the name of the interface is a plain one.\<close>

theorem interface_settings_reach_the_kernel:
  assumes "plain_name (name (props iface))" and "CHR 0x00 \<notin> set (name (props iface))"
    and "\<forall>path. open_file fs path = Writable" and "undisturbed script" and "96 < moves script"
  shows "\<exists>cmds. privsep_out (config_interface iface w) = privsep_out w @ cmds \<and>
    privsep_read_loop script (concat (map command_bytes cmds)) fs =
      Some (fs\<lparr>written := written fs @ config_writes iface\<rparr>)"
  by (rule config_interface_applied [OF assms])

theorem interface_settings_reach_the_kernel_witness:
  "\<exists>cmds. privsep_out (config_interface sample_ready sample_world) = privsep_out sample_world @ cmds \<and>
    privsep_read_loop (replicate 97 (Moved 1)) (concat (map command_bytes cmds)) sample_procfs =
      Some (sample_procfs\<lparr>written := written sample_procfs @ config_writes sample_ready\<rparr>)"
  by (rule interface_settings_reach_the_kernel [OF sample_named sample_writable sample_script])

section \<open>Runs of the daemon\<close>

text \<open>C1. Invariant of the daemon: whatever texts the configuration file holds at the start and at
  every SIGHUP, in every state that the process reaches from a start with a kernel that answers as
  documented, each interface keeps its invariant (a ready one can send), and every packet sent since the
  start is well-formed. Packets of a turn in which the process dies are not part of its last state.\<close>

theorem reachable_states_are_ok:
  assumes "radvd_reach (range readin_config) w0 s" and "world_ok w0"
  shows "state_ok s"
  by (rule radvd_reach_ok [OF assms(1) readin_configs_ok assms(2)])

theorem reachable_states_are_ok_witness:
  "\<exists>d. radvd_reach (range readin_config) sample_world (Running d) \<and> state_ok (Running d)"
proof -
  obtain d where "startup (readin_config (Some sample_text)) sample_world = Some d"
    using sample_text_startup by blast
  then have r: "radvd_reach (range readin_config) sample_world (Running d)"
    by (intro radvd_reach.start) simp_all
  from r reachable_states_are_ok [OF r sample_world_ok] show ?thesis by blast
qed



text \<open>C25. The advertisements sent when the daemon shuts down all have a router lifetime of zero.\<close>

theorem shutdown_withdraws_router:
  assumes "shutdown d = Some (ifs, w)" and "daemon_ok d"
  shows "\<exists>pkts. sent w = sent (wld d) @ pkts \<and>
    list_all (\<lambda>p. take 2 (drop 6 (pkt_data p)) = [0, 0]) pkts"
  using shutdown_withdraws [OF assms] by (simp add: sends_only_def withdraws_def [abs_def])

theorem shutdown_withdraws_router_witness:
  "\<exists>ifs w pkts. shutdown sample_daemon = Some (ifs, w) \<and> sent w = sent (wld sample_daemon) @ pkts \<and>
    list_all (\<lambda>p. take 2 (drop 6 (pkt_data p)) = [0, 0]) pkts"
proof -
  obtain ifs w where "shutdown sample_daemon = Some (ifs, w)"
    using sample_shutdown by blast
  from this shutdown_withdraws_router [OF this sample_daemon_ok] show ?thesis by blast
qed

text \<open>C24. A ready interface that has to withdraw its router reaches every target with a final
  advertisement, and all of these have a router lifetime of zero, provided that the kernel accepts the
  packets.\<close>

theorem stop_advert_reaches_every_target:
  assumes "\<not> UnicastOnly iface" and "RemoveAdvOnExit iface" and "AdvSendAdvert iface" and "sendable iface"
    and "ready (state_info iface)" and "sends_succeed w" and "iface_ok iface" and "world_ok w"
  shows "\<exists>iface' w' pkts. stop_advert_foo iface w = Some (iface', w') \<and> sent w' = sent w @ pkts \<and>
    pkt_dest ` set pkts = set (ra_targets iface None) \<and> list_all withdraws pkts"
  by (rule stop_advert_foo_reaches [OF assms])

theorem stop_advert_reaches_every_target_witness:
  "\<exists>iface' w' pkts. stop_advert_foo sample_ready sample_world = Some (iface', w') \<and>
    sent w' = sent sample_world @ pkts \<and>
    pkt_dest ` set pkts = set (ra_targets sample_ready None) \<and> list_all withdraws pkts"
  by (rule stop_advert_reaches_every_target [OF sample_stop(1,2) sample_sendable sample_stop(3)
        sample_sends_succeed sample_iface_ok(2) sample_world_ok])

section \<open>The configuration file\<close>

text \<open>C3. Whatever text the configuration file has, a configuration that \<open>readin_config\<close> accepts has at
  least one interface, and each of its interfaces is within the limits that the rest of the program relies
  on: names fit their arrays, the advertised MTU is clamped, prefix lengths are at most 128, preferred
  lifetimes do not exceed valid ones, a list of name servers has 1 to 127 addresses, search suffixes hold
  only letters, digits, hyphens and dots, and NAT64 prefixes have one of the six allowed lengths.\<close>

theorem accepted_configuration_is_in_range:
  assumes "readin_config f = Some ifs"
  shows "ifs \<noteq> [] \<and> list_all iface_accepted ifs"
  by (rule readin_config_accepted [OF assms])

theorem accepted_configuration_is_in_range_witness:
  "[sample_missing] \<noteq> [] \<and> list_all iface_accepted [sample_missing]"
  by (rule accepted_configuration_is_in_range [OF sample_text_config])

text \<open>C34. The scanner reads what the programs print and the manual page documents, wherever a blank, a line feed
  or punctuation follows: a decimal number below \<open>2 ^ 32\<close> as that number, an address as \<^verbatim>\<open>inet_ntop\<close> writes it as
  that address (unless its first group is zero and others are not), the word of every keyword in any mixture of
  cases as that keyword, and the words for switches, lifetimes and preferences as their values. No other rule of the
  scanner takes these words, in whole or in part.\<close>

theorem scanner_reads_the_words_of_the_language:
  assumes "c \<in> set [CHR '' '', CHR 0x09, CHR 0x0A, CHR '';'', CHR ''/'', CHR ''{'', CHR ''}'']"
  shows "(n < 2 ^ 32 \<longrightarrow> scan l (dec n @ c # t) = (NUMBER (of_nat n), l) # scan l (c # t)) \<and>
    (addr_shown a \<longrightarrow> scan l (inet_ntop a @ c # t) = (IPV6ADDR a, l) # scan l (c # t)) \<and>
    (map tolower v = map tolower (keyword_word k) \<longrightarrow>
      scan l (v @ c # t) = (KEYWORD k, l) # scan l (c # t)) \<and>
    ((u, tok) \<in> set [(''on'', SWITCH True), (''off'', SWITCH False), (''infinity'', INFINITY),
        (''low'', SIGNEDNUMBER (-1)), (''medium'', SIGNEDNUMBER 0), (''high'', SIGNEDNUMBER 1)] \<longrightarrow>
      scan l (u @ c # t) = (tok, l) # scan l (c # t))"
proof (intro conjI impI)
  have "delim c" using assms by auto
  note word = scan_word [OF _ this, of _ _ l t]
  show "scan l (dec n @ c # t) = (NUMBER (of_nat n), l) # scan l (c # t)" if "n < 2 ^ 32"
    by (rule word [OF reads_number [OF that]])
  show "scan l (inet_ntop a @ c # t) = (IPV6ADDR a, l) # scan l (c # t)" if "addr_shown a"
    using word [OF reads_addr [OF that]] by (simp add: addrtostr_def)
  show "scan l (v @ c # t) = (KEYWORD k, l) # scan l (c # t)"
    if "map tolower v = map tolower (keyword_word k)"
    by (rule word [OF reads_keyword_cases [OF keyword_word_in_table that]])
  show "scan l (u @ c # t) = (tok, l) # scan l (c # t)"
    if "(u, tok) \<in> set [(''on'', SWITCH True), (''off'', SWITCH False), (''infinity'', INFINITY),
      (''low'', SIGNEDNUMBER (-1)), (''medium'', SIGNEDNUMBER 0), (''high'', SIGNEDNUMBER 1)]"
    using that word [OF reads_switch [of True]] word [OF reads_switch [of False]] word [OF reads_infinity]
      word [OF reads_preference(1)] word [OF reads_preference(2)] word [OF reads_preference(3)] by auto
qed

theorem scanner_reads_the_words_of_the_language_witness:
  "scan 1 (dec 1800 @ '';'') = (NUMBER 1800, 1) # scan 1 '';'' \<and>
   scan 1 (inet_ntop 0x20010db8000000000000000000000001 @ '';'') =
     (IPV6ADDR 0x20010db8000000000000000000000001, 1) # scan 1 '';'' \<and>
   scan 1 (''ADVSENDADVERT'' @ '';'') = (KEYWORD T_AdvSendAdvert, 1) # scan 1 '';'' \<and>
   scan 1 (''off'' @ '';'') = (SWITCH False, 1) # scan 1 '';''"
proof -
  have "addr_shown 0x20010db8000000000000000000000001" by code_simp
  moreover have "map tolower ''ADVSENDADVERT'' = map tolower (keyword_word T_AdvSendAdvert)" by code_simp
  ultimately show ?thesis
    using scanner_reads_the_words_of_the_language [of "CHR '';''" 1800 1 "[]" "0x20010db8000000000000000000000001"
        "''ADVSENDADVERT''" T_AdvSendAdvert "''off''" "SWITCH False"] by simp
qed

section \<open>Starting the daemon\<close>

text \<open>C14. When the daemon begins to serve with the option for a user, it has given up its privileges: the
  calls before the change of user were made as root, the process has the user and the group of that user
  and the groups of the database, and, unless that user is root, the system refused to give root back.\<close>

theorem server_runs_without_privileges:
  assumes "radvd_main s arg0 args = Serve srv t" and "srv_user srv = Some u"
  shows "\<exists>pre pw. getpwnam s u = Some pw \<and> t = pre @ drop_calls u pw \<and> creds_after pre = root_creds \<and>
    creds_after t = \<lparr>cr_uid = pw_uid pw, cr_euid = pw_uid pw, cr_gid = pw_gid pw\<rparr> \<and>
    (\<forall>opt \<in> set icmpv6_options. \<exists>rc \<ge> 0. (Sys_setsockopt (srv_sock srv) opt, rc) \<in> set pre) \<and>
    (Sys_flock (srv_pidfd srv), 0) \<in> set pre"
proof -
  have "serving s srv t"
    using radvd_main_serving [of s arg0 args] by (simp add: assms(1))
  then obtain pre pw where "steady pre" "getpwnam s u = Some pw" "t = pre @ drop_calls u pw"
      "\<forall>opt \<in> set icmpv6_options. \<exists>rc \<ge> 0. (Sys_setsockopt (srv_sock srv) opt, rc) \<in> set pre"
      "(Sys_flock (srv_pidfd srv), 0) \<in> set pre"
    unfolding serving_def by (auto simp: assms(2))
  with creds_after_keep [of pre "[]"] creds_after_drop_calls [of pre u pw] show ?thesis
    by (auto simp: creds_after_def)
qed

theorem server_runs_without_privileges_witness:
  "\<exists>srv t pre pw. radvd_main sample_system ''radvd'' sample_args = Serve srv t \<and>
    getpwnam sample_system ''radvd'' = Some pw \<and> t = pre @ drop_calls ''radvd'' pw \<and>
    creds_after t = \<lparr>cr_uid = 110, cr_euid = 110, cr_gid = 65534\<rparr>"
proof -
  obtain srv t where s: "radvd_main sample_system ''radvd'' sample_args = Serve srv t" "srv_user srv = Some ''radvd''"
    using sample_serves by blast
  from server_runs_without_privileges [OF s] s(1) show ?thesis by auto
qed

text \<open>C15. At its start, without a debug level, the daemon reads its configuration file only right after a \<^verbatim>\<open>stat\<close>
  that succeeded and showed it safe: not writable by others and, with an unprivileged user, not by that user
  or its group. (A later reload reads the file again without this check.)\<close>

theorem startup_reads_only_a_checked_configuration:
  assumes "parse_options (getopt_long OPTIONS_STR prog_opt args) options_init = Some opts"
    and "effective_debuglevel opts = 0"
    and "(Sys_readin_config p, rc) \<in> set (outcome_trace (radvd_main s arg0 args))"
  shows "\<exists>lg pre. radvd_main s arg0 args = read_configuration s opts lg (pre @ [(Sys_stat (conf_path opts), 0)]) \<and>
    \<not> reads_config pre \<and> conf_file_secure s (username opts) (stat_buf s pre (conf_path opts))"
  using radvd_main_reads_secure [OF assms(1,2)] assms(3) by blast

theorem startup_reads_only_a_checked_configuration_witness:
  "\<exists>opts lg pre. radvd_main sample_system ''radvd'' sample_args =
      read_configuration sample_system opts lg (pre @ [(Sys_stat PATH_RADVD_CONF, 0)]) \<and>
    \<not> reads_config pre \<and> conf_file_secure sample_system (Some ''radvd'') (stat_buf sample_system pre PATH_RADVD_CONF)"
proof -
  let ?opts = "options_init\<lparr>daemonize := False, username := Some ''radvd''\<rparr>"
  obtain p rc where r: "(Sys_readin_config p, rc) \<in> set (outcome_trace (radvd_main sample_system ''radvd'' sample_args))"
    using sample_reads by blast
  have "effective_debuglevel ?opts = 0" "conf_path ?opts = PATH_RADVD_CONF" "username ?opts = Some ''radvd''"
    by (simp_all add: effective_debuglevel_def options_init_def)
  with startup_reads_only_a_checked_configuration [OF sample_options _ r] show ?thesis by metis
qed

text \<open>C35. A test of the configuration (\<^verbatim>\<open>-c\<close>) only opens, checks and reads files: no socket, no pid file, no
  process. Its exit code is 0 exactly when \<^verbatim>\<open>readin_config\<close> accepts the file. The program runs without
  \<^verbatim>\<open>-t\<close>, which would change the root directory first.\<close>

theorem configtest_only_reads:
  assumes "parse_options (getopt_long OPTIONS_STR prog_opt args) options_init = Some opts"
    and "configtest opts" and "chrootdir opts = None"
  shows "\<exists>code t. radvd_main s arg0 args = Exit code t \<and> list_all reading_call t \<and>
    (code = 0 \<longleftrightarrow> readin_config (conf_text s (conf_path opts)) \<noteq> None)"
  using radvd_main_configtest [OF assms, of s arg0] readin_config_accepted [of "conf_text s (conf_path opts)"]
  by (cases "radvd_main s arg0 args") auto

theorem configtest_only_reads_witness:
  "\<exists>t. radvd_main sample_system ''radvd'' [''-c''] = Exit 0 t \<and> list_all reading_call t"
proof -
  have "parse_options (getopt_long OPTIONS_STR prog_opt [''-c'']) options_init =
      Some (options_init\<lparr>configtest := True\<rparr>)"
    by (simp add: OPTIONS_STR_def parse_option_def)
  from configtest_only_reads [OF this, of sample_system "''radvd''"] show ?thesis
    by (auto simp: options_init_def)
qed

end
